(* ===== verification/Moon_Prelude.thy ===== *)
theory Moon_Prelude
  imports Main "HOL-Library.Word"
begin

unbundle bit_operations_syntax

text \<open>
  Shared vocabulary of the development: the machine types of the Rust code, little-endian
  byte encodings, the array and vector idioms of the standard library that several components
  use, and the interface every fixed-size wire record satisfies.

  Bytes are \<^typ>\<open>8 word\<close>, and the unsigned machine integers keep their width.  Lengths and
  indices (\<^verbatim>\<open>usize\<close>) are \<^typ>\<open>nat\<close>; millisecond clocks (\<^verbatim>\<open>i64\<close>, counted from the creation of
  the client) are \<^typ>\<open>int\<close>.
\<close>

section \<open>Machine types\<close>

type_synonym byte = "8 word"
type_synonym u8 = "8 word"
type_synonym u16 = "16 word"
type_synonym u32 = "32 word"
type_synonym u64 = "64 word"
type_synonym bytes = "byte list"
type_synonym millis = int

named_theorems wire_defs \<open>layouts of the wire records, unfolded by codec proofs\<close>
named_theorems inv_intros \<open>introduction rules for component invariants\<close>

section \<open>Words as natural numbers\<close>

lemma unat_take_bit: "unat (take_bit n (w :: 'a::len word)) = unat w mod 2 ^ n"
  by (simp only: unsigned_take_bit_eq) (simp add: take_bit_eq_mod)

lemma unat_drop_bit: "unat (drop_bit n (w :: 'a::len word)) = unat w div 2 ^ n"
  by (simp only: unat_drop_bit_eq) (simp add: drop_bit_eq_div)

lemma unat_push_bit:
  "unat w * 2 ^ n < 2 ^ LENGTH('a) \<Longrightarrow> unat (push_bit n (w :: 'a::len word)) = unat w * 2 ^ n"
  by (simp only: unsigned_push_bit_eq) (simp add: push_bit_eq_mult take_bit_eq_mod)

lemma unat_ucast_small:
  "unat w < 2 ^ LENGTH('b) \<Longrightarrow> unat (ucast (w :: 'a::len word) :: 'b::len word) = unat w"
  by (simp only: unsigned_ucast_eq) (simp add: take_bit_eq_mod)

lemma unat_of_nat_byte: "n < 256 \<Longrightarrow> unat (of_nat n :: byte) = n"
  by (simp add: unat_of_nat)

lemma unat_lt_power: "LENGTH('a) = n \<Longrightarrow> unat (w :: 'a::len word) < 2 ^ n"
  using unsigned_less [of w, where 'a = nat] by simp

lemma and_mask_is_take_bit: "(w :: 'a::len word) AND mask n = take_bit n w"
  by (simp add: take_bit_eq_mask)

section \<open>Little-endian integers\<close>

text \<open>The two directions of \<^verbatim>\<open>to_le_bytes\<close> / \<^verbatim>\<open>from_le_bytes\<close> (and of the zerocopy wrappers
  \<^verbatim>\<open>LeU16\<close>, \<^verbatim>\<open>LeU32\<close>, \<^verbatim>\<open>LeU64\<close>, \<^verbatim>\<open>LeF64\<close>, which have the same layout).\<close>

definition le_bytes :: "nat \<Rightarrow> 'a::len word \<Rightarrow> bytes" where
  "le_bytes n w = map (\<lambda>i. ucast (drop_bit (8 * i) w)) [0..<n]"

primrec from_le :: "bytes \<Rightarrow> 'a::len word" where
  "from_le [] = 0"
| "from_le (b # bs) = ucast b OR push_bit 8 (from_le bs)"

lemma length_le_bytes [simp]: "length (le_bytes n w) = n"
  by (simp add: le_bytes_def)

lemma bit_from_le:
  "n < LENGTH('a) \<Longrightarrow>
     bit (from_le bs :: 'a::len word) n \<longleftrightarrow> n div 8 < length bs \<and> bit (bs ! (n div 8)) (n mod 8)"
proof (induction bs arbitrary: n)
  case Nil
  then show ?case by simp
next
  case (Cons b bs)
  show ?case
  proof (cases "n < 8")
    case True
    with Cons.prems show ?thesis
      by (auto simp: bit_or_iff bit_push_bit_iff bit_ucast_iff)
  next
    case False
    have "\<not> bit b n"
      using False bit_imp_le_length [of b n] by auto
    moreover have "n div 8 = Suc ((n - 8) div 8)" and "n mod 8 = (n - 8) mod 8"
      using False by (simp_all add: le_div_geq le_mod_geq)
    ultimately show ?thesis
      using False Cons.prems Cons.IH [of "n - 8"]
      by (auto simp: bit_or_iff bit_push_bit_iff bit_ucast_iff)
  qed
qed

lemma bit_le_bytes_nth:
  "i < n \<Longrightarrow> k < 8 \<Longrightarrow> bit (le_bytes n (w :: 'a::len word) ! i) k \<longleftrightarrow> bit w (8 * i + k)"
  by (auto simp: le_bytes_def bit_ucast_iff bit_drop_bit_eq)

lemma from_le_le_bytes:
  assumes "LENGTH('a::len) \<le> 8 * n"
  shows "from_le (le_bytes n (w :: 'a word)) = w"
proof (rule bit_word_eqI)
  fix k
  assume k: "k < LENGTH('a)"
  with assms have "k div 8 < n" by (simp add: less_mult_imp_div_less)
  moreover have "8 * (k div 8) + k mod 8 = k" by simp
  ultimately show "bit (from_le (le_bytes n w) :: 'a word) k = bit w k"
    using k by (simp add: bit_from_le bit_le_bytes_nth)
qed

lemma le_bytes_from_le:
  assumes "8 * length bs \<le> LENGTH('a::len)"
  shows "le_bytes (length bs) (from_le bs :: 'a word) = bs"
proof (rule nth_equalityI)
  show "length (le_bytes (length bs) (from_le bs :: 'a word)) = length bs" by simp
next
  fix i
  assume "i < length (le_bytes (length bs) (from_le bs :: 'a word))"
  then have i: "i < length bs" by simp
  show "le_bytes (length bs) (from_le bs :: 'a word) ! i = bs ! i"
  proof (rule bit_word_eqI)
    fix k
    assume "k < LENGTH(8)"
    then have k: "k < 8" by simp
    with i assms have "8 * i + k < LENGTH('a)" by linarith
    moreover from k have "(8 * i + k) div 8 = i" and "(8 * i + k) mod 8 = k" by simp_all
    ultimately show "bit (le_bytes (length bs) (from_le bs :: 'a word) ! i) k = bit (bs ! i) k"
      using i k by (simp add: bit_le_bytes_nth bit_from_le)
  qed
qed

lemma from_le_le_bytes_16 [simp]: "from_le (le_bytes 2 (w :: u16)) = w"
  by (rule from_le_le_bytes) simp

lemma from_le_le_bytes_32 [simp]: "from_le (le_bytes 4 (w :: u32)) = w"
  by (rule from_le_le_bytes) simp

lemma from_le_le_bytes_64 [simp]: "from_le (le_bytes 8 (w :: u64)) = w"
  by (rule from_le_le_bytes) simp

lemma le_bytes_from_le_64: "length bs = 8 \<Longrightarrow> le_bytes 8 (from_le bs :: u64) = bs"
  using le_bytes_from_le [of bs, where 'a = 64] by simp

section \<open>Slices and vectors\<close>

text \<open>\<^verbatim>\<open>&xs[a..b]\<close> of the source, for ranges the code has checked to be in bounds.\<close>

definition slice :: "nat \<Rightarrow> nat \<Rightarrow> 'a list \<Rightarrow> 'a list" where
  "slice a b xs = take (b - a) (drop a xs)"

lemma length_slice: "b \<le> length xs \<Longrightarrow> length (slice a b xs) = b - a"
  by (auto simp: slice_def)

lemma slice_append_left: "b \<le> length xs \<Longrightarrow> slice a b (xs @ ys) = slice a b xs"
  by (simp add: slice_def)

lemma slice_append_right: "length xs \<le> a \<Longrightarrow> slice a b (xs @ ys) = slice (a - length xs) (b - length xs) ys"
  by (simp add: slice_def)

lemma slice_all [simp]: "slice 0 (length xs) xs = xs"
  by (simp add: slice_def)

lemma slice_mid: "length xs = a \<Longrightarrow> a + length ys = b \<Longrightarrow> slice a b (xs @ ys @ zs) = ys"
  by (auto simp: slice_def)

text \<open>\<^verbatim>\<open>buf[a..a+n].copy_from_slice(src)\<close>.\<close>

definition overwrite :: "nat \<Rightarrow> 'a list \<Rightarrow> 'a list \<Rightarrow> 'a list" where
  "overwrite a src xs = take a xs @ src @ drop (a + length src) xs"

lemma length_overwrite [simp]: "a + length src \<le> length xs \<Longrightarrow> length (overwrite a src xs) = length xs"
  by (simp add: overwrite_def)

text \<open>\<^verbatim>\<open>iter().position(p)\<close> and \<^verbatim>\<open>Vec::remove\<close>: drop the first element satisfying \<open>p\<close>.\<close>

primrec remove_first :: "('a \<Rightarrow> bool) \<Rightarrow> 'a list \<Rightarrow> 'a list" where
  "remove_first p [] = []"
| "remove_first p (x # xs) = (if p x then xs else x # remove_first p xs)"

lemma set_remove_first_subset: "set (remove_first p xs) \<subseteq> set xs"
  by (induction xs) auto

lemma filter_remove_first_other:
  "(\<And>x. p x \<Longrightarrow> \<not> q x) \<Longrightarrow> filter q (remove_first p xs) = filter q xs"
  by (induction xs) auto

lemma filter_remove_first_self: "filter p (remove_first p xs) = tl (filter p xs)"
  by (induction xs) auto

text \<open>\<^verbatim>\<open>Vec::resize(n, v)\<close>.\<close>

definition resize :: "nat \<Rightarrow> 'a \<Rightarrow> 'a list \<Rightarrow> 'a list" where
  "resize n v xs = take n xs @ replicate (n - length xs) v"

lemma length_resize [simp]: "length (resize n v xs) = n"
  by (simp add: resize_def)

lemma nth_resize: "i < n \<Longrightarrow> resize n v xs ! i = (if i < length xs then xs ! i else v)"
  by (auto simp: resize_def nth_append)

text \<open>\<^verbatim>\<open>fill\<close> on the first \<open>n\<close> entries.\<close>

definition fill_prefix :: "nat \<Rightarrow> 'a \<Rightarrow> 'a list \<Rightarrow> 'a list" where
  "fill_prefix n v xs = replicate (min n (length xs)) v @ drop n xs"

lemma length_fill_prefix [simp]: "length (fill_prefix n v xs) = length xs"
  by (simp add: fill_prefix_def)

lemma nth_fill_prefix: "i < length xs \<Longrightarrow> fill_prefix n v xs ! i = (if i < n then v else xs ! i)"
  by (auto simp: fill_prefix_def nth_append)

text \<open>\<^verbatim>\<open>chunks_exact(n)\<close> with its remainder.\<close>

fun chunks_exact :: "nat \<Rightarrow> 'a list \<Rightarrow> 'a list list \<times> 'a list" where
  "chunks_exact n xs =
     (if n = 0 \<or> length xs < n then ([], xs)
      else let (cs, r) = chunks_exact n (drop n xs) in (take n xs # cs, r))"

declare chunks_exact.simps [simp del]

lemma length_concat_uniform:
  "\<forall>c \<in> set cs. length c = n \<Longrightarrow> length (concat cs) = length cs * n"
  by (induction cs) auto

lemma chunks_exact_split:
  "0 < n \<Longrightarrow> chunks_exact n xs = (cs, r) \<Longrightarrow>
     xs = concat cs @ r \<and> (\<forall>c \<in> set cs. length c = n) \<and> length r < n"
proof (induction n xs arbitrary: cs rule: chunks_exact.induct)
  case (1 n xs)
  show ?case
  proof (cases "length xs < n")
    case False
    obtain cs' where *: "chunks_exact n (drop n xs) = (cs', r)" "cs = take n xs # cs'"
      using 1(2,3) False by (subst (asm) chunks_exact.simps) (auto split: prod.splits)
    with 1(1) [of cs'] 1(2) False
    have "drop n xs = concat cs' @ r \<and> (\<forall>c \<in> set cs'. length c = n) \<and> length r < n" by simp
    moreover have "xs = take n xs @ drop n xs" by simp
    ultimately show ?thesis
      using * False by auto
  qed (use 1 in \<open>auto simp: chunks_exact.simps\<close>)
qed

lemma chunks_exact_concat:
  "\<forall>c \<in> set cs. length c = n \<Longrightarrow> length r < n \<Longrightarrow> chunks_exact n (concat cs @ r) = (cs, r)"
proof (induction cs)
  case (Cons c cs)
  then show ?case
    by (subst chunks_exact.simps) simp
qed (simp add: chunks_exact.simps)

section \<open>Saturating arithmetic\<close>

definition sat_inc_u8 :: "u8 \<Rightarrow> u8" where
  "sat_inc_u8 x = (if x = 255 then 255 else x + 1)"

definition sat_add_u64 :: "u64 \<Rightarrow> u64 \<Rightarrow> u64" where
  "sat_add_u64 x y = (if unat x + unat y < 2 ^ 64 then x + y else - 1)"

lemma sat_inc_u8_neq: "x \<noteq> 255 \<Longrightarrow> sat_inc_u8 x \<noteq> x"
  by (simp add: sat_inc_u8_def)

section \<open>Hash maps\<close>

text \<open>A \<^verbatim>\<open>HashMap\<close> is an association list with distinct keys; its iteration order is never observed.\<close>

definition map_remove :: "'k \<Rightarrow> ('k \<times> 'v) list \<Rightarrow> ('k \<times> 'v) list" where
  "map_remove k es = filter (\<lambda>e. fst e \<noteq> k) es"

definition map_insert :: "'k \<Rightarrow> 'v \<Rightarrow> ('k \<times> 'v) list \<Rightarrow> ('k \<times> 'v) list" where
  "map_insert k v es = (k, v) # map_remove k es"

lemma map_of_remove: "map_of (map_remove k es) j = (if j = k then None else map_of es j)"
  unfolding map_remove_def by (induction es) auto

lemma map_of_insert: "map_of (map_insert k v es) j = (if j = k then Some v else map_of es j)"
  by (simp add: map_insert_def map_of_remove)

lemma set_map_remove: "set (map_remove k es) = {e \<in> set es. fst e \<noteq> k}"
  by (auto simp: map_remove_def)

lemma set_map_insert: "set (map_insert k v es) = insert (k, v) {e \<in> set es. fst e \<noteq> k}"
  by (auto simp: map_insert_def set_map_remove)

lemma distinct_keys_remove: "distinct (map fst es) \<Longrightarrow> distinct (map fst (map_remove k es))"
  by (simp add: map_remove_def distinct_map_filter)

lemma distinct_keys_insert: "distinct (map fst es) \<Longrightarrow> distinct (map fst (map_insert k v es))"
  by (auto simp: map_insert_def distinct_keys_remove set_map_remove)

section \<open>Fixed-size wire records\<close>

text \<open>Consecutive fields of a packed record: adjacent slices join, and a single byte is a slice.\<close>

lemma slice_join: "a \<le> b \<Longrightarrow> b \<le> c \<Longrightarrow> c \<le> length xs \<Longrightarrow> slice a b xs @ slice b c xs = slice a c xs"
proof -
  assume "a \<le> b" "b \<le> c" "c \<le> length xs"
  then have "take (c - a) (drop a xs) = take (b - a) (drop a xs) @ take (c - b) (drop (b - a) (drop a xs))"
    using take_add [of "b - a" "c - b" "drop a xs"] by simp
  with \<open>a \<le> b\<close> show ?thesis by (simp add: slice_def)
qed

lemma slice_join': "a \<le> b \<Longrightarrow> b \<le> c \<Longrightarrow> c \<le> length xs \<Longrightarrow>
    slice a b xs @ slice b c xs @ ys = slice a c xs @ ys"
  using slice_join [of a b c xs] by simp

lemma nth_is_slice: "i < length xs \<Longrightarrow> [xs ! i] = slice i (Suc i) xs"
  by (simp add: slice_def take_Suc hd_drop_conv_nth)

lemma Cons_nth_slice: "i < length xs \<Longrightarrow> xs ! i # ys = slice i (Suc i) xs @ ys"
  using nth_is_slice [of i xs] by simp

lemma slice_0: "slice 0 b xs = take b xs"
  by (simp add: slice_def)

lemma le_bytes_from_le_slice:
  "b \<le> length xs \<Longrightarrow> n = b - a \<Longrightarrow> 8 * n \<le> LENGTH('a) \<Longrightarrow>
     le_bytes n (from_le (slice a b xs) :: 'a::len word) = slice a b xs"
  using le_bytes_from_le [of "slice a b xs", where 'a = 'a] by (simp add: length_slice)

lemma Cons_nth_0_slice: "n \<le> length xs \<Longrightarrow> 0 < n \<Longrightarrow> xs ! 0 # slice (Suc 0) n xs = slice 0 n xs"
  by (cases xs; cases n) (simp_all add: slice_def)

lemmas wire_put_get = le_bytes_from_le_slice Cons_nth_0_slice Cons_nth_slice slice_join slice_join'
  slice_0 [symmetric]

text \<open>The contract of a packed wire record.  A valid record is written with a fixed size and is read
  back from any buffer that starts with it; a buffer shorter than the record is refused; and every
  long enough buffer decodes to a valid record whose encoding is exactly the prefix read, so no two
  prefixes decode to the same record.\<close>

locale wire_record =
  fixes size :: nat
    and valid :: "'a \<Rightarrow> bool"
    and put :: "'a \<Rightarrow> bytes"
    and get :: "bytes \<Rightarrow> 'a option"
  assumes put_length: "valid x \<Longrightarrow> length (put x) = size"
    and get_put: "valid x \<Longrightarrow> get (put x @ rest) = Some x"
    and get_short: "length bs < size \<Longrightarrow> get bs = None"
    and put_get: "size \<le> length bs \<Longrightarrow> \<exists>x. get bs = Some x \<and> valid x \<and> put x = take size bs"
begin

lemma get_put_exact: "valid x \<Longrightarrow> get (put x) = Some x"
  using get_put [of x "[]"] by simp

lemma get_Some_iff: "get bs = Some x \<longleftrightarrow> valid x \<and> (\<exists>rest. bs = put x @ rest)"
proof
  assume g: "get bs = Some x"
  then have "size \<le> length bs"
    using get_short [of bs] by (cases "length bs < size") auto
  with g put_get [of bs] have "valid x" "put x = take size bs" by auto
  then show "valid x \<and> (\<exists>rest. bs = put x @ rest)"
    by (metis append_take_drop_id)
qed (auto simp: get_put)

lemma get_None_iff: "get bs = None \<longleftrightarrow> length bs < size"
  using get_short [of bs] put_get [of bs] by (cases "length bs < size") auto

lemma put_inject: "valid x \<Longrightarrow> valid y \<Longrightarrow> put x @ r = put y @ s \<Longrightarrow> x = y"
  using get_put [of x r] get_put [of y s] by simp

lemma get_truncated: "valid x \<Longrightarrow> n < size \<Longrightarrow> get (take n (put x)) = None"
  by (rule get_short) (simp add: put_length)

end

end
