(* ===== verification/Wire.thy ===== *)
theory Wire
  imports Moon_Prelude
begin

text \<open>
  Command ordinals and the fixed-size records of the wire protocol: the transport headers
  (\<^verbatim>\<open>transport/header.rs\<close>), the service records Ping, SizeTest and ProbeMTU
  (\<^verbatim>\<open>protocol/control.rs\<close>), the handshake record (\<^verbatim>\<open>protocol/handshake.rs\<close>) and the owned receive
  buffer (\<^verbatim>\<open>protocol/payload.rs\<close>).

  The records are \<^verbatim>\<open>repr(C, packed)\<close> structs of little-endian integers: their bytes are the fields
  in declaration order.  An \<^verbatim>\<open>f64\<close> that is only carried is its 64-bit pattern.  Random bytes the
  constructors draw are arguments.
\<close>

section \<open>Command ordinals\<close>

datatype command = Command u8

primrec to_byte :: "command \<Rightarrow> u8" where
  "to_byte (Command b) = b"

definition from_byte :: "u8 \<Rightarrow> command" where
  "from_byte b = Command (b AND 0x7F)"

abbreviation "Command_Hello \<equiv> Command 2"
abbreviation "Command_WhoAreYou \<equiv> Command 3"
abbreviation "Command_ImFriend \<equiv> Command 4"
abbreviation "Command_Fine \<equiv> Command 5"
abbreviation "Command_HelloAgain \<equiv> Command 6"
abbreviation "Command_Ping \<equiv> Command 10"
abbreviation "Command_Grouped \<equiv> Command 12"
abbreviation "Command_SizeTest \<equiv> Command 14"
abbreviation "Command_SizeAck \<equiv> Command 15"
abbreviation "Command_Sliced \<equiv> Command 17"
abbreviation "Command_SlicedACK \<equiv> Command 18"
abbreviation "Command_Crypted \<equiv> Command 19"
abbreviation "Command_WrongHello \<equiv> Command 22"
abbreviation "Command_WantNewHello \<equiv> Command 23"
abbreviation "Command_NeedHelloAgain \<equiv> Command 24"
abbreviation "Command_ProbeMTU \<equiv> Command 25"
abbreviation "Command_ProbeMTUAck \<equiv> Command 26"
abbreviation "Command_LogMsg \<equiv> Command 27"
abbreviation "Command_Order \<equiv> Command 28"
abbreviation "Command_UI \<equiv> Command 29"
abbreviation "Command_Strat \<equiv> Command 30"
abbreviation "Command_API \<equiv> Command 31"
abbreviation "Command_Balance \<equiv> Command 32"
abbreviation "Command_TradesStream \<equiv> Command 33"
abbreviation "Command_TradesResend \<equiv> Command 34"
abbreviation "Command_TradesResendResponse \<equiv> Command 35"
abbreviation "Command_OrderBook \<equiv> Command 36"
abbreviation "Command_SessionClose \<equiv> Command 37"

definition is_known :: "command \<Rightarrow> bool" where
  "is_known c \<longleftrightarrow> to_byte c \<le> to_byte Command_SessionClose"

text \<open>The arms of \<^verbatim>\<open>Command::name\<close> in ordinal order.\<close>

definition command_names :: "string list" where
  "command_names =
     [''None'', ''Test'', ''Hello'', ''WhoAreYou'', ''ImFriend'', ''Fine'', ''HelloAgain'',
      ''TestWantCrypted'', ''TestCrypted'', ''TestStopCrypted'', ''Ping'', ''Data'', ''Grouped'',
      ''LogOff'', ''SizeTest'', ''SizeAck'', ''PTMUReq'', ''Sliced'', ''SlicedACK'', ''Crypted'',
      ''Echo'', ''EchoReply'', ''WrongHello'', ''WantNewHello'', ''NeedHelloAgain'', ''ProbeMTU'',
      ''ProbeMTUAck'', ''LogMsg'', ''Order'', ''UI'', ''Strat'', ''API'', ''Balance'',
      ''TradesStream'', ''TradesResend'', ''TradesResendResponse'', ''OrderBook'',
      ''SessionClose'']"

definition command_name :: "command \<Rightarrow> string" where
  "command_name c =
     (if unat (to_byte c) < length command_names then command_names ! unat (to_byte c)
      else ''Unknown'')"

section \<open>Transport headers\<close>

definition TRANSPORT_VER :: u8 where
  "TRANSPORT_VER = 3"

definition SERVER_HDR_SIZE :: nat where
  "SERVER_HDR_SIZE = 7"

definition CLIENT_HDR_SIZE :: nat where
  "CLIENT_HDR_SIZE = 15"

record server_msg_header =
  sh_rnd :: u8
  sh_checksum :: u32
  sh_ver :: u8
  sh_cmd :: u8

record client_msg_header =
  ch_rnd :: u8
  ch_checksum :: u32
  ch_ver :: u8
  ch_cmd :: u8
  ch_client_id :: u64

definition server_header_from_bytes :: "bytes \<Rightarrow> server_msg_header option" where
  "server_header_from_bytes data =
     (if length data < SERVER_HDR_SIZE then None
      else Some \<lparr>sh_rnd = data ! 0, sh_checksum = from_le (slice 1 5 data),
                 sh_ver = data ! 5, sh_cmd = data ! 6\<rparr>)"

definition server_header_to_bytes :: "server_msg_header \<Rightarrow> bytes" where
  "server_header_to_bytes h =
     [sh_rnd h] @ le_bytes 4 (sh_checksum h) @ [sh_ver h] @ [sh_cmd h]"

definition client_header_new :: "u8 \<Rightarrow> u8 \<Rightarrow> u64 \<Rightarrow> client_msg_header" where
  "client_header_new rnd cmd client_id =
     \<lparr>ch_rnd = rnd, ch_checksum = 0, ch_ver = TRANSPORT_VER, ch_cmd = cmd, ch_client_id = client_id\<rparr>"

definition client_header_to_bytes :: "client_msg_header \<Rightarrow> bytes" where
  "client_header_to_bytes h =
     [ch_rnd h] @ le_bytes 4 (ch_checksum h) @ [ch_ver h] @ [ch_cmd h] @ le_bytes 8 (ch_client_id h)"

definition client_header_from_bytes :: "bytes \<Rightarrow> client_msg_header option" where
  "client_header_from_bytes data =
     (if length data < CLIENT_HDR_SIZE then None
      else Some \<lparr>ch_rnd = data ! 0, ch_checksum = from_le (slice 1 5 data), ch_ver = data ! 5,
                 ch_cmd = data ! 6, ch_client_id = from_le (slice 7 15 data)\<rparr>)"

lemmas [wire_defs] =
  SERVER_HDR_SIZE_def CLIENT_HDR_SIZE_def server_header_from_bytes_def server_header_to_bytes_def
  client_header_to_bytes_def client_header_from_bytes_def

interpretation server_header: wire_record SERVER_HDR_SIZE "\<lambda>_. True"
    server_header_to_bytes server_header_from_bytes
proof (unfold_locales, goal_cases)
  case (4 bs)
  then show ?case by (simp add: wire_defs wire_put_get)
qed (simp_all add: wire_defs slice_def nth_append)

interpretation client_header: wire_record CLIENT_HDR_SIZE "\<lambda>_. True"
    client_header_to_bytes client_header_from_bytes
proof (unfold_locales, goal_cases)
  case (4 bs)
  then show ?case by (simp add: wire_defs wire_put_get)
qed (simp_all add: wire_defs slice_def nth_append)

section \<open>Service records\<close>

definition PING_SIZE :: nat where
  "PING_SIZE = 57"

definition PING_MEMORY_INFO_SIZE :: nat where
  "PING_MEMORY_INFO_SIZE = 5"

definition PING_FLAG_MEMORY_INFO :: u8 where
  "PING_FLAG_MEMORY_INFO = 1"

definition SIZE_TEST_SIZE :: nat where
  "SIZE_TEST_SIZE = 6"

definition PROBE_MTU_SIZE :: nat where
  "PROBE_MTU_SIZE = 5"

definition PROBE_MTU_ACK_SIZE :: nat where
  "PROBE_MTU_ACK_SIZE = 5"

record wire_ping =
  wp_time :: u64
  wp_initial_time :: u64
  wp_trip_delay :: u32
  wp_pmtu :: u16
  wp_global_timing_orders :: u16
  wp_overheat :: u8
  wp_total_sent_bytes :: u64
  wp_total_recv_bytes :: u64
  wp_rsq :: u8
  wp_ack_start :: u64
  wp_ack_session :: u32
  wp_moment_cpu :: u8
  wp_total_cpu :: u8
  wp_flags :: u8

definition wire_ping_put :: "wire_ping \<Rightarrow> bytes" where
  "wire_ping_put w =
     le_bytes 8 (wp_time w) @ le_bytes 8 (wp_initial_time w) @ le_bytes 4 (wp_trip_delay w) @
     le_bytes 2 (wp_pmtu w) @ le_bytes 2 (wp_global_timing_orders w) @ [wp_overheat w] @
     le_bytes 8 (wp_total_sent_bytes w) @ le_bytes 8 (wp_total_recv_bytes w) @ [wp_rsq w] @
     le_bytes 8 (wp_ack_start w) @ le_bytes 4 (wp_ack_session w) @
     [wp_moment_cpu w] @ [wp_total_cpu w] @ [wp_flags w]"

definition wire_ping_get :: "bytes \<Rightarrow> wire_ping option" where
  "wire_ping_get d =
     (if length d < PING_SIZE then None
      else Some \<lparr>wp_time = from_le (slice 0 8 d), wp_initial_time = from_le (slice 8 16 d),
                 wp_trip_delay = from_le (slice 16 20 d), wp_pmtu = from_le (slice 20 22 d),
                 wp_global_timing_orders = from_le (slice 22 24 d), wp_overheat = d ! 24,
                 wp_total_sent_bytes = from_le (slice 25 33 d),
                 wp_total_recv_bytes = from_le (slice 33 41 d), wp_rsq = d ! 41,
                 wp_ack_start = from_le (slice 42 50 d), wp_ack_session = from_le (slice 50 54 d),
                 wp_moment_cpu = d ! 54, wp_total_cpu = d ! 55, wp_flags = d ! 56\<rparr>)"

record ping_memory_info =
  used_memory_mb :: u16
  free_physical_memory_mb :: u16
  cores :: u8

definition ping_memory_put :: "ping_memory_info \<Rightarrow> bytes" where
  "ping_memory_put m =
     le_bytes 2 (used_memory_mb m) @ le_bytes 2 (free_physical_memory_mb m) @ [cores m]"

definition ping_memory_get :: "bytes \<Rightarrow> ping_memory_info option" where
  "ping_memory_get d =
     (if length d < PING_MEMORY_INFO_SIZE then None
      else Some \<lparr>used_memory_mb = from_le (slice 0 2 d),
                 free_physical_memory_mb = from_le (slice 2 4 d), cores = d ! 4\<rparr>)"

lemmas [wire_defs] =
  PING_SIZE_def PING_MEMORY_INFO_SIZE_def SIZE_TEST_SIZE_def PROBE_MTU_SIZE_def
  PROBE_MTU_ACK_SIZE_def wire_ping_put_def wire_ping_get_def ping_memory_put_def ping_memory_get_def

interpretation wire_ping: wire_record PING_SIZE "\<lambda>_. True" wire_ping_put wire_ping_get
proof (unfold_locales, goal_cases)
  case (4 bs)
  then show ?case by (simp add: wire_defs wire_put_get)
qed (simp_all add: wire_defs slice_def nth_append)

interpretation ping_memory: wire_record PING_MEMORY_INFO_SIZE "\<lambda>_. True"
    ping_memory_put ping_memory_get
proof (unfold_locales, goal_cases)
  case (4 bs)
  then show ?case by (simp add: wire_defs wire_put_get)
qed (simp_all add: wire_defs slice_def nth_append)

record ping_telemetry =
  tm_moment_cpu_percent :: u8
  tm_total_cpu_percent :: u8
  tm_memory :: "ping_memory_info option"

record ping_frame =
  pf_time :: u64
  pf_initial_time :: u64
  pf_trip_delay :: u32
  pf_pmtu :: u16
  pf_global_timing_orders :: u16
  pf_overheat :: u8
  pf_rsq :: u8
  pf_ack_session :: u32
  pf_moment_cpu_percent :: u8
  pf_total_cpu_percent :: u8
  pf_memory :: "ping_memory_info option"
  pf_ack_words_offset :: nat

definition ping_frame_read :: "bytes \<Rightarrow> ping_frame option" where
  "ping_frame_read data =
     (case wire_ping_get data of
        None \<Rightarrow> None
      | Some w \<Rightarrow>
          (let (memory, offset) =
             (if wp_flags w AND PING_FLAG_MEMORY_INFO \<noteq> 0
              then if length data \<ge> PING_SIZE + PING_MEMORY_INFO_SIZE
                   then (ping_memory_get (slice PING_SIZE (PING_SIZE + PING_MEMORY_INFO_SIZE) data),
                         PING_SIZE + PING_MEMORY_INFO_SIZE)
                   else (None, length data)
              else (None, PING_SIZE))
           in Some \<lparr>pf_time = wp_time w, pf_initial_time = wp_initial_time w,
                    pf_trip_delay = wp_trip_delay w, pf_pmtu = wp_pmtu w,
                    pf_global_timing_orders = wp_global_timing_orders w,
                    pf_overheat = wp_overheat w, pf_rsq = wp_rsq w,
                    pf_ack_session = wp_ack_session w, pf_moment_cpu_percent = wp_moment_cpu w,
                    pf_total_cpu_percent = wp_total_cpu w, pf_memory = memory,
                    pf_ack_words_offset = offset\<rparr>))"

definition ping_response_bytes ::
  "ping_frame \<Rightarrow> u64 \<Rightarrow> u64 \<Rightarrow> u64 \<Rightarrow> u64 \<Rightarrow> u32 \<Rightarrow> ping_telemetry \<Rightarrow> bytes" where
  "ping_response_bytes f corrected_now_dt total_sent total_recv ack_start ack_session telemetry =
     wire_ping_put
       \<lparr>wp_time = corrected_now_dt, wp_initial_time = pf_initial_time f,
        wp_trip_delay = pf_trip_delay f, wp_pmtu = pf_pmtu f,
        wp_global_timing_orders = pf_global_timing_orders f, wp_overheat = pf_overheat f,
        wp_total_sent_bytes = total_sent, wp_total_recv_bytes = total_recv, wp_rsq = pf_rsq f,
        wp_ack_start = ack_start, wp_ack_session = ack_session,
        wp_moment_cpu = tm_moment_cpu_percent telemetry,
        wp_total_cpu = tm_total_cpu_percent telemetry,
        wp_flags = (if tm_memory telemetry \<noteq> None then PING_FLAG_MEMORY_INFO else 0)\<rparr>
     @ (case tm_memory telemetry of None \<Rightarrow> [] | Some m \<Rightarrow> ping_memory_put m)"

text \<open>\<^verbatim>\<open>padded_client_payload\<close>: an acknowledgement is padded so that the whole datagram, header
  included, has the probed size.\<close>

definition padded_client_payload :: "u16 \<Rightarrow> nat \<Rightarrow> bytes option" where
  "padded_client_payload total_datagram_size record_size =
     (if unat total_datagram_size < CLIENT_HDR_SIZE then None
      else let payload_len = unat total_datagram_size - CLIENT_HDR_SIZE
           in if payload_len < record_size then None else Some (replicate payload_len 0))"

record size_test_data =
  st_size :: u16
  st_series_num :: u16

definition size_test_read :: "bytes \<Rightarrow> size_test_data option" where
  "size_test_read d =
     (if length d < SIZE_TEST_SIZE then None
      else Some \<lparr>st_size = from_le (slice 0 2 d), st_series_num = from_le (slice 4 6 d)\<rparr>)"

definition size_test_ack_bytes :: "u16 \<Rightarrow> u16 \<Rightarrow> bytes option" where
  "size_test_ack_bytes sz series_num =
     (case padded_client_payload sz SIZE_TEST_SIZE of
        None \<Rightarrow> None
      | Some out \<Rightarrow>
          Some (overwrite 0 (le_bytes 2 sz @ le_bytes 2 (0 :: u16) @ le_bytes 2 series_num) out))"

record probe_mtu =
  probe_id :: u16
  probe_index :: u8
  test_size :: u16

definition probe_mtu_read :: "bytes \<Rightarrow> probe_mtu option" where
  "probe_mtu_read d =
     (if length d < PROBE_MTU_SIZE then None
      else Some \<lparr>probe_id = from_le (slice 0 2 d), probe_index = d ! 2,
                 test_size = from_le (slice 3 5 d)\<rparr>)"

definition probe_mtu_ack_bytes :: "probe_mtu \<Rightarrow> bytes option" where
  "probe_mtu_ack_bytes p =
     (case padded_client_payload (test_size p) PROBE_MTU_ACK_SIZE of
        None \<Rightarrow> None
      | Some out \<Rightarrow>
          Some (overwrite 0 (le_bytes 2 (probe_id p) @ [probe_index p] @ le_bytes 2 (test_size p)) out))"

lemmas [wire_defs] =
  padded_client_payload_def size_test_read_def size_test_ack_bytes_def
  probe_mtu_read_def probe_mtu_ack_bytes_def

section \<open>Handshake record\<close>

definition HELLO_SIZE :: nat where
  "HELLO_SIZE = 56"

definition handshake_aad :: "u64 \<Rightarrow> u8 \<Rightarrow> bytes" where
  "handshake_aad client_id cmd = (overwrite 0 (le_bytes 8 client_id) (replicate 9 0))[8 := cmd]"

text \<open>\<open>h_timestamp\<close> is the bit pattern of the \<^verbatim>\<open>f64\<close>; \<open>h_rnd\<close> is a 16-byte array.\<close>

record hello =
  h_rnd :: bytes
  h_mix_ts :: u64
  h_timestamp :: u64
  h_server_token :: u64
  h_peer_mix :: u64
  h_app_token :: u64

definition hello_new :: "bytes \<Rightarrow> u64 \<Rightarrow> u64 \<Rightarrow> u64 \<Rightarrow> u64 \<Rightarrow> hello" where
  "hello_new rnd rnd_token rnd_mix client_token app_token =
     \<lparr>h_rnd = rnd, h_mix_ts = client_token, h_timestamp = 0, h_server_token = rnd_token,
      h_peer_mix = rnd_mix, h_app_token = app_token\<rparr>"

definition hello_valid :: "hello \<Rightarrow> bool" where
  "hello_valid h \<longleftrightarrow> length (h_rnd h) = 16"

definition hello_to_bytes_packed :: "hello \<Rightarrow> bytes" where
  "hello_to_bytes_packed h =
     h_rnd h @ le_bytes 8 (h_mix_ts h) @ le_bytes 8 (h_timestamp h + h_mix_ts h) @
     le_bytes 8 (h_server_token h) @ le_bytes 8 (h_peer_mix h) @ le_bytes 8 (h_app_token h)"

definition hello_from_bytes :: "bytes \<Rightarrow> hello option" where
  "hello_from_bytes d =
     (if length d < HELLO_SIZE then None
      else let mix_ts = from_le (slice 16 24 d)
           in Some \<lparr>h_rnd = slice 0 16 d, h_mix_ts = mix_ts,
                    h_timestamp = from_le (slice 24 32 d) - mix_ts,
                    h_server_token = from_le (slice 32 40 d), h_peer_mix = from_le (slice 40 48 d),
                    h_app_token = from_le (slice 48 56 d)\<rparr>)"

lemmas [wire_defs] = HELLO_SIZE_def hello_valid_def hello_to_bytes_packed_def hello_from_bytes_def

interpretation hello_record: wire_record HELLO_SIZE hello_valid hello_to_bytes_packed hello_from_bytes
proof (unfold_locales, goal_cases)
  case (4 bs)
  then show ?case by (simp add: wire_defs wire_put_get length_slice Let_def)
qed (simp_all add: wire_defs slice_def Let_def)

section \<open>Owned receive buffer\<close>

record payload =
  pl_bytes :: bytes
  pl_start :: nat

definition payload_from :: "bytes \<Rightarrow> payload" where
  "payload_from bs = \<lparr>pl_bytes = bs, pl_start = 0\<rparr>"

definition payload_deref :: "payload \<Rightarrow> bytes" where
  "payload_deref p = drop (pl_start p) (pl_bytes p)"

text \<open>\<^verbatim>\<open>restrict\<close> asserts that the range is inside the visible slice; \<^const>\<open>None\<close> is the panic.\<close>

definition payload_restrict :: "payload \<Rightarrow> nat \<Rightarrow> nat \<Rightarrow> payload option" where
  "payload_restrict p a b =
     (if a \<le> b \<and> b \<le> length (payload_deref p)
      then Some \<lparr>pl_bytes = take (pl_start p + b) (pl_bytes p), pl_start = pl_start p + a\<rparr>
      else None)"

definition payload_into_vec :: "payload \<Rightarrow> bytes" where
  "payload_into_vec p =
     (if pl_start p \<noteq> 0
      then let len = length (payload_deref p)
           in take len (overwrite 0 (drop (pl_start p) (pl_bytes p)) (pl_bytes p))
      else pl_bytes p)"

section \<open>Properties\<close>

lemma to_byte_from_byte [simp]: "to_byte (from_byte b) = b AND 0x7F"
  by (simp add: from_byte_def)

lemma from_byte_flag: "from_byte (b OR 0x80) = from_byte b"
proof -
  have "(b OR 0x80) AND 0x7F = b AND (0x7F :: u8)"
    by (simp add: word_bw_lcs bit.conj_disj_distrib2)
  then show ?thesis by (simp add: from_byte_def)
qed

lemma from_byte_known: "b \<le> 37 \<Longrightarrow> from_byte b = Command b"
proof -
  assume "b \<le> 37"
  then have "unat b < 128" by (simp add: word_le_nat_alt)
  then have "take_bit 7 b = b"
    by (simp add: word_unat_eq_iff unat_take_bit)
  then show ?thesis
    by (simp add: from_byte_def take_bit_eq_mask mask_eq_exp_minus_1)
qed

lemma length_command_names: "length command_names = 38"
  by (simp add: command_names_def)

lemma unknown_not_a_name: "''Unknown'' \<notin> set command_names"
  by (simp add: command_names_def)

lemma command_name_unknown: "command_name c = ''Unknown'' \<longleftrightarrow> \<not> is_known c"
proof -
  have "is_known c \<longleftrightarrow> unat (to_byte c) < length command_names"
    by (auto simp: is_known_def length_command_names word_le_nat_alt)
  then show ?thesis
    using unknown_not_a_name by (simp add: command_name_def) (metis nth_mem)
qed

lemma payload_restrict_visible:
  "payload_restrict p a b = Some q \<Longrightarrow> payload_deref q = slice a b (payload_deref p)"
  by (auto simp: payload_restrict_def payload_deref_def slice_def take_drop add.commute
        split: if_splits)

lemma payload_into_vec_visible: "payload_into_vec p = payload_deref p"
  by (simp add: payload_into_vec_def payload_deref_def overwrite_def)

lemma handshake_aad_eq: "handshake_aad client_id cmd = le_bytes 8 client_id @ [cmd]"
proof -
  have "overwrite 0 (le_bytes 8 client_id) (replicate 9 0) = le_bytes 8 client_id @ [0]"
    by (simp add: overwrite_def)
  then show ?thesis by (simp add: handshake_aad_def list_update_append)
qed

lemma handshake_aad_inject: "handshake_aad i c = handshake_aad j d \<longleftrightarrow> i = j \<and> c = d"
  by (auto simp: handshake_aad_eq dest: arg_cong [where f = "from_le :: bytes \<Rightarrow> u64"])

lemma size_test_ack_shape:
  "size_test_ack_bytes sz series = Some out \<Longrightarrow>
     length out + CLIENT_HDR_SIZE = unat sz \<and>
     size_test_read out = Some \<lparr>st_size = sz, st_series_num = series\<rparr>"
  by (auto simp: wire_defs Let_def overwrite_def slice_def split: if_splits option.splits)

lemma probe_mtu_ack_shape:
  "probe_mtu_ack_bytes p = Some out \<Longrightarrow>
     length out + CLIENT_HDR_SIZE = unat (test_size p) \<and> probe_mtu_read out = Some p"
  by (auto simp: wire_defs Let_def overwrite_def slice_def nth_append split: if_splits option.splits)

text \<open>The bytes of a Ping record, field by field.\<close>

lemma wire_ping_put_bytes:
  "slice 0 8 (wire_ping_put w @ r) = le_bytes 8 (wp_time w)"
  "slice 8 25 (wire_ping_put w @ r) =
     le_bytes 8 (wp_initial_time w) @ le_bytes 4 (wp_trip_delay w) @ le_bytes 2 (wp_pmtu w) @
     le_bytes 2 (wp_global_timing_orders w) @ [wp_overheat w]"
  "slice 25 33 (wire_ping_put w @ r) = le_bytes 8 (wp_total_sent_bytes w)"
  "slice 33 41 (wire_ping_put w @ r) = le_bytes 8 (wp_total_recv_bytes w)"
  "(wire_ping_put w @ r) ! 41 = wp_rsq w"
  "slice 42 50 (wire_ping_put w @ r) = le_bytes 8 (wp_ack_start w)"
  "slice 50 54 (wire_ping_put w @ r) = le_bytes 4 (wp_ack_session w)"
  "slice 54 57 (wire_ping_put w @ r) = [wp_moment_cpu w, wp_total_cpu w, wp_flags w]"
  "drop 57 (wire_ping_put w @ r) = r"
  by (simp_all add: wire_ping_put_def slice_def nth_append)

lemma ping_frame_read_bytes:
  assumes "ping_frame_read req = Some f"
  shows "slice 8 25 req = le_bytes 8 (pf_initial_time f) @ le_bytes 4 (pf_trip_delay f) @ le_bytes 2 (pf_pmtu f) @
      le_bytes 2 (pf_global_timing_orders f) @ [pf_overheat f]"
    "req ! 41 = pf_rsq f"
proof -
  obtain w where w: "wire_ping_get req = Some w" "pf_initial_time f = wp_initial_time w"
      "pf_trip_delay f = wp_trip_delay w" "pf_pmtu f = wp_pmtu w"
      "pf_global_timing_orders f = wp_global_timing_orders w" "pf_overheat f = wp_overheat w" "pf_rsq f = wp_rsq w"
    using assms by (auto simp: ping_frame_read_def Let_def split: option.splits if_splits)
  then have "PING_SIZE \<le> length req" by (auto simp: wire_ping_get_def split: if_splits)
  from wire_ping.put_get [OF this] w(1) have "req = wire_ping_put w @ drop PING_SIZE req"
    using append_take_drop_id [of PING_SIZE req] by auto
  then show "slice 8 25 req = le_bytes 8 (pf_initial_time f) @ le_bytes 4 (pf_trip_delay f) @ le_bytes 2 (pf_pmtu f) @
      le_bytes 2 (pf_global_timing_orders f) @ [pf_overheat f]"
    and "req ! 41 = pf_rsq f"
    using w(2-) wire_ping_put_bytes(2,5) [of w "drop PING_SIZE req"] by simp_all
qed

lemma ping_response_read:
  "ping_frame_read (ping_response_bytes f now sent recv ack_start session t @ words) =
     Some (f\<lparr>pf_time := now, pf_ack_session := session,
             pf_moment_cpu_percent := tm_moment_cpu_percent t,
             pf_total_cpu_percent := tm_total_cpu_percent t,
             pf_memory := tm_memory t,
             pf_ack_words_offset := length (ping_response_bytes f now sent recv ack_start session t)\<rparr>)"
proof -
  have fl: "PING_FLAG_MEMORY_INFO \<noteq> 0"
    by (simp add: PING_FLAG_MEMORY_INFO_def)
  have len: "length (wire_ping_put w) = 57" for w
    using wire_ping.put_length [of w] by (simp add: PING_SIZE_def)
  have mem: "ping_memory_get (ping_memory_put m) = Some m" "length (ping_memory_put m) = 5" for m
    using ping_memory.get_put_exact [of m] ping_memory.put_length [of m]
    by (simp_all add: PING_MEMORY_INFO_SIZE_def)
  show ?thesis
    by (cases "tm_memory t")
      (simp_all add: ping_frame_read_def ping_response_bytes_def wire_ping.get_put fl len mem
         PING_SIZE_def PING_MEMORY_INFO_SIZE_def slice_def)
qed

text \<open>C27: The bytes of a Ping response, against the Ping it answers.  The response repeats the peer's
  bytes 8 to 24 (initial time, trip delay, PMTU, order timing, overheat) and its byte 41 (the quality
  byte) unaltered; the local clock, both byte counters, the acknowledgement start and session, the two
  CPU loads and the memory flag stand at the offsets of the packed record, little-endian; the memory
  profile follows exactly when the flag is set; and the reader of the same format finds the
  acknowledgement words behind it and the local telemetry in the record.\<close>

theorem ping_response_echoes:
  assumes req: "ping_frame_read req = Some f"
    and out: "out = ping_response_bytes f now sent recv ack_start session t @ words"
  shows "slice 8 25 out = slice 8 25 req \<and> out ! 41 = req ! 41
     \<and> slice 0 8 out = le_bytes 8 now \<and> slice 25 33 out = le_bytes 8 sent \<and> slice 33 41 out = le_bytes 8 recv
     \<and> slice 42 50 out = le_bytes 8 ack_start \<and> slice 50 54 out = le_bytes 4 session
     \<and> slice 54 57 out = [tm_moment_cpu_percent t, tm_total_cpu_percent t, if tm_memory t = None then 0 else 1]
     \<and> drop 57 out = (case tm_memory t of None \<Rightarrow> words
          | Some m \<Rightarrow> le_bytes 2 (used_memory_mb m) @ le_bytes 2 (free_physical_memory_mb m) @ cores m # words)
     \<and> (\<exists>g. ping_frame_read out = Some g \<and> pf_time g = now \<and> pf_memory g = tm_memory t
           \<and> drop (pf_ack_words_offset g) out = words)"
proof -
  have "\<exists>g. ping_frame_read out = Some g \<and> pf_time g = now \<and> pf_memory g = tm_memory t
      \<and> drop (pf_ack_words_offset g) out = words"
    by (simp add: out ping_response_read)
  then show ?thesis
    unfolding out ping_frame_read_bytes [OF req]
    by (auto simp: ping_response_bytes_def wire_ping_put_bytes ping_memory_put_def PING_FLAG_MEMORY_INFO_def
        simp del: drop_append split: option.split)
qed

theorem ping_response_echoes_witness:
  "\<exists>f. ping_frame_read (replicate 8 1 @ replicate 33 2 @ [3] @ replicate 14 4 @ [0]) = Some f
     \<and> (\<exists>m. slice 8 25 (ping_response_bytes f 5 6 7 8 9 m @ [10]) = replicate 17 2
          \<and> slice 33 41 (ping_response_bytes f 5 6 7 8 9 m @ [10]) = [7, 0, 0, 0, 0, 0, 0, 0]
          \<and> drop 57 (ping_response_bytes f 5 6 7 8 9 m @ [10]) = [44, 1, 0, 2, 16, 10])"
proof -
  let ?req = "replicate 8 1 @ replicate 33 2 @ [3] @ replicate 14 4 @ [0] :: bytes"
  let ?t = "\<lparr>tm_moment_cpu_percent = 17, tm_total_cpu_percent = 23,
     tm_memory = Some \<lparr>used_memory_mb = 300, free_physical_memory_mb = 512, cores = 16\<rparr>\<rparr>"
  have "ping_frame_read ?req \<noteq> None"
    by (simp add: ping_frame_read_def wire_ping_get_def PING_SIZE_def Let_def split: prod.split)
  then obtain f where f: "ping_frame_read ?req = Some f" by blast
  have "slice 8 25 ?req = replicate 17 2"
    by (simp add: slice_def)
  moreover have "le_bytes 8 (7 :: u64) = [7, 0, 0, 0, 0, 0, 0, 0]" "le_bytes 2 (300 :: u16) = [44, 1]"
      "le_bytes 2 (512 :: u16) = [0, 2]"
    by (simp_all add: le_bytes_def upt_rec)
  ultimately show ?thesis
    using f ping_response_echoes [OF f refl, of 5 6 7 8 9 ?t "[10]"] by (intro exI [of _ f] conjI exI [of _ ?t]) simp_all
qed

end
