(* ===== verification/Registry.thy ===== *)
theory Registry
  imports Wire
begin

text \<open>
  The command registry (\<^verbatim>\<open>commands/registry.rs\<close>): one descriptor per typed command class, with its
  send priority, retry budget, key rule and direction, and the lookup by outer command and command
  id.  The three forms of the \<^verbatim>\<open>cmd_desc!\<close> macro are three definitions; the tables keep the order of
  the source.  Retry counts (\<^verbatim>\<open>i32\<close> constants) are integers.
\<close>

section \<open>Descriptors\<close>

definition CURRENT_PROTO_CMD_VER :: u16 where
  "CURRENT_PROTO_CMD_VER = 4"

definition UK_NONE :: u8 where
  "UK_NONE = 0"

definition UK_STRAT_SNAPSHOT :: u8 where
  "UK_STRAT_SNAPSHOT = 1"

definition UK_BASE_UI_SETTINGS :: u8 where
  "UK_BASE_UI_SETTINGS = 2"

definition UK_STRAT_SELL_PRICE_UPDATE :: u8 where
  "UK_STRAT_SELL_PRICE_UPDATE = 3"

definition UK_BALANCE_FULL :: u8 where
  "UK_BALANCE_FULL = 4"

definition UK_TURN_MM_DETECTION :: u8 where
  "UK_TURN_MM_DETECTION = 5"

definition UK_LEV_MANAGE_SETTINGS :: u8 where
  "UK_LEV_MANAGE_SETTINGS = 6"

definition UK_ARB_PRICES :: u8 where
  "UK_ARB_PRICES = 7"

definition UK_DEX_SWITCH :: u8 where
  "UK_DEX_SWITCH = 8"

definition UK_SPOT_SWITCH :: u8 where
  "UK_SPOT_SWITCH = 9"

definition UK_CHART_TEXT_SNAPSHOT :: u8 where
  "UK_CHART_TEXT_SNAPSHOT = 10"

definition UK_CHART_TEXT_STATE :: u8 where
  "UK_CHART_TEXT_STATE = 11"

definition UK_CANDLE_UPDATE :: u8 where
  "UK_CANDLE_UPDATE = 12"

definition UK_CANDLE_TF_STATE :: u8 where
  "UK_CANDLE_TF_STATE = 13"

definition UK_ORDER_IMAGE :: u8 where
  "UK_ORDER_IMAGE = 14"

definition UK_ORDER_PATCH :: u8 where
  "UK_ORDER_PATCH = 16"

definition UK_ORDERS_SNAPSHOT :: u8 where
  "UK_ORDERS_SNAPSHOT = 17"

definition UK_ORDERS_CATALOG :: u8 where
  "UK_ORDERS_CATALOG = 18"

definition UK_ORDER_REQUEST :: u8 where
  "UK_ORDER_REQUEST = 19"

definition UK_ORDER_NOT_FOUND :: u8 where
  "UK_ORDER_NOT_FOUND = 20"

definition UK_ORDER_CMD_BUY :: u8 where
  "UK_ORDER_CMD_BUY = 21"

definition UK_ORDER_CMD_SELL :: u8 where
  "UK_ORDER_CMD_SELL = 22"

definition UK_ORDER_CMD_STOPS :: u8 where
  "UK_ORDER_CMD_STOPS = 23"

definition UK_ORDER_CMD_VSTOP :: u8 where
  "UK_ORDER_CMD_VSTOP = 24"

definition UK_ORDER_CMD_PANIC :: u8 where
  "UK_ORDER_CMD_PANIC = 25"

definition UK_ORDER_CMD_IMMUNE :: u8 where
  "UK_ORDER_CMD_IMMUNE = 26"

definition UK_NEWS_HISTORY :: u8 where
  "UK_NEWS_HISTORY = 27"

definition UK_SHARED_CONFIG :: u8 where
  "UK_SHARED_CONFIG = 28"

definition UK_MARKET_SESSION_PROFIT :: u8 where
  "UK_MARKET_SESSION_PROFIT = 29"

definition UK_PROBLEMS_STATE :: u8 where
  "UK_PROBLEMS_STATE = 30"

definition UK_TELEGRAM_STATE :: u8 where
  "UK_TELEGRAM_STATE = 31"

definition UK_LOG_SUBSCRIPTION :: u8 where
  "UK_LOG_SUBSCRIPTION = 32"

definition UK_WATCHDOG_STATE :: u8 where
  "UK_WATCHDOG_STATE = 34"

datatype command_priority = CP_Sliced | CP_High | CP_Low

primrec default_retries :: "command_priority \<Rightarrow> int" where
  "default_retries CP_Sliced = 6"
| "default_retries CP_High = 3"
| "default_retries CP_Low = 3"

datatype command_base = CB_Base | CB_Market

datatype ukey_rule =
    UKR_None
  | UKR_Explicit
  | UKR_HeaderUid
  | UKR_MarketIndex
  | UKR_Singleton u64
  | UKR_StrategyId
  | UKR_SendContextClientId
  | UKR_CandleUpdate
  | UKR_CandleTimeframeState
  | UKR_StrategySnapshot

datatype command_direction = CD_Inbound | CD_Outbound | CD_Both

record command_descriptor =
  cd_outer :: command
  cd_id :: u8
  cd_name :: string
  cd_base :: command_base
  cd_priority :: command_priority
  cd_max_retries :: int
  cd_default_encrypted :: bool
  cd_unique_kind :: u8
  cd_ukey :: ukey_rule
  cd_direction :: command_direction

definition command_descriptor_new ::
  "command \<Rightarrow> u8 \<Rightarrow> string \<Rightarrow> command_base \<Rightarrow> command_priority \<Rightarrow> int option \<Rightarrow> u8 \<Rightarrow> ukey_rule \<Rightarrow> command_direction
     \<Rightarrow> command_descriptor" where
  "command_descriptor_new outer idn name base priority retries unique_kind ukey direction =
     \<lparr>cd_outer = outer, cd_id = idn, cd_name = name, cd_base = base, cd_priority = priority,
      cd_max_retries = (case retries of Some v \<Rightarrow> v | None \<Rightarrow> default_retries priority),
      cd_default_encrypted = True, cd_unique_kind = unique_kind, cd_ukey = ukey, cd_direction = direction\<rparr>"

primrec inherited_ukey :: "command_base \<Rightarrow> ukey_rule" where
  "inherited_ukey CB_Base = UKR_HeaderUid"
| "inherited_ukey CB_Market = UKR_MarketIndex"

text \<open>The arms of \<^verbatim>\<open>cmd_desc!\<close>: all fields, a key kind with the inherited rule, and no key.\<close>

definition cmd_desc_full ::
  "command \<Rightarrow> u8 \<Rightarrow> string \<Rightarrow> command_base \<Rightarrow> command_priority \<Rightarrow> int option \<Rightarrow> u8 \<Rightarrow> ukey_rule \<Rightarrow> command_direction
     \<Rightarrow> command_descriptor" where
  "cmd_desc_full = command_descriptor_new"

definition cmd_desc_unique ::
  "command \<Rightarrow> u8 \<Rightarrow> string \<Rightarrow> command_base \<Rightarrow> command_priority \<Rightarrow> u8 \<Rightarrow> command_direction \<Rightarrow> command_descriptor" where
  "cmd_desc_unique outer idn name base priority unique direction =
     cmd_desc_full outer idn name base priority None unique (inherited_ukey base) direction"

definition cmd_desc ::
  "command \<Rightarrow> u8 \<Rightarrow> string \<Rightarrow> command_base \<Rightarrow> command_priority \<Rightarrow> command_direction \<Rightarrow> command_descriptor" where
  "cmd_desc outer idn name base priority direction =
     cmd_desc_full outer idn name base priority None UK_NONE UKR_None direction"

section \<open>The tables\<close>

definition ORDER_COMMANDS :: "command_descriptor list" where
  "ORDER_COMMANDS =
    [cmd_desc Command_Order 0 ''TBaseTradeCommand'' CB_Base CP_High CD_Both,
     cmd_desc Command_Order 1 ''TBaseMarketCommand'' CB_Market CP_High CD_Both,
     cmd_desc_full Command_Order 23 ''TPenaltyCommand'' CB_Market CP_High (Some 4) UK_NONE UKR_None CD_Both,
     cmd_desc Command_Order 24 ''TTradeVisualCommand'' CB_Market CP_High CD_Inbound,
     cmd_desc Command_Order 25 ''TOrderTracePoint'' CB_Market CP_High CD_Inbound,
     cmd_desc Command_Order 26 ''TCorridorUpdate'' CB_Market CP_Low CD_Inbound,
     cmd_desc Command_Order 31 ''TClosedSellOrderReportCommand'' CB_Base CP_Sliced CD_Inbound,
     cmd_desc Command_Order 32 ''TRepRowUpsert'' CB_Base CP_Sliced CD_Inbound,
     cmd_desc Command_Order 33 ''TRepRowDelete'' CB_Base CP_High CD_Inbound,
     cmd_desc Command_Order 34 ''TRepSyncRequest'' CB_Base CP_High CD_Outbound,
     cmd_desc Command_Order 37 ''TRepSchemaRequest'' CB_Base CP_High CD_Outbound,
     cmd_desc Command_Order 38 ''TRepSchema'' CB_Base CP_Sliced CD_Inbound,
     cmd_desc Command_Order 39 ''TRepSyncPage'' CB_Base CP_Sliced CD_Inbound,
     cmd_desc Command_Order 40 ''TRepCheckRowsRequest'' CB_Base CP_High CD_Outbound,
     cmd_desc Command_Order 48 ''TRepSetRowsDeleted'' CB_Base CP_Sliced CD_Both,
     cmd_desc Command_Order 49 ''TRepAliveMapRequest'' CB_Base CP_High CD_Outbound,
     cmd_desc Command_Order 50 ''TRepAliveMap'' CB_Base CP_Sliced CD_Inbound,
     cmd_desc Command_Order 51 ''TRepTraceRequest'' CB_Base CP_High CD_Outbound,
     cmd_desc Command_Order 52 ''TRepTrace'' CB_Base CP_Sliced CD_Inbound,
     cmd_desc_unique Command_Order 41 ''TOrderImage'' CB_Base CP_High UK_ORDER_IMAGE CD_Inbound,
     cmd_desc_unique Command_Order 42 ''TOrderPatch'' CB_Base CP_High UK_ORDER_PATCH CD_Inbound,
     cmd_desc_unique Command_Order 43 ''TOrdersSnapshot'' CB_Base CP_Sliced UK_ORDERS_SNAPSHOT CD_Inbound,
     cmd_desc_unique Command_Order 44 ''TOrdersCatalog'' CB_Base CP_Sliced UK_ORDERS_CATALOG CD_Inbound,
     cmd_desc_unique Command_Order 45 ''TOrderStatusRequest'' CB_Base CP_High UK_ORDER_REQUEST CD_Outbound,
     cmd_desc_unique Command_Order 46 ''TOrderNotFound'' CB_Base CP_High UK_ORDER_NOT_FOUND CD_Inbound,
     cmd_desc_full Command_Order 47 ''TOrderCommand'' CB_Base CP_High (Some 4) UK_NONE UKR_Explicit CD_Outbound]"

definition UI_COMMANDS :: "command_descriptor list" where
  "UI_COMMANDS =
    [cmd_desc Command_UI 0 ''TBaseUICommand'' CB_Base CP_High CD_Both,
     cmd_desc_full Command_UI 1 ''TClientSettingsCommand'' CB_Base CP_Sliced None UK_BASE_UI_SETTINGS (UKR_Singleton 1) CD_Both,
     cmd_desc Command_UI 2 ''TSettingsRequest'' CB_Base CP_High CD_Outbound,
     cmd_desc Command_UI 3 ''TStratStartStopCommand'' CB_Base CP_High CD_Both,
     cmd_desc Command_UI 4 ''TStratStartStopCommandV2'' CB_Base CP_High CD_Both,
     cmd_desc_unique Command_UI 5 ''TMMOrdersSubscribeCommand'' CB_Base CP_High UK_TURN_MM_DETECTION CD_Outbound,
     cmd_desc Command_UI 6 ''TUpdateVersionCommand'' CB_Base CP_High CD_Both,
     cmd_desc Command_UI 7 ''TEmuTradesCommand'' CB_Base CP_Sliced CD_Outbound,
     cmd_desc Command_UI 8 ''TNewMarketNotifyCommand'' CB_Base CP_High CD_Inbound,
     cmd_desc_full Command_UI 9 ''TLevManageCommand'' CB_Base CP_Sliced None UK_LEV_MANAGE_SETTINGS (UKR_Singleton 1) CD_Both,
     cmd_desc Command_UI 10 ''TTriggerManageCommand'' CB_Base CP_Sliced CD_Both,
     cmd_desc Command_UI 11 ''TResetProfitCommand'' CB_Base CP_High CD_Outbound,
     cmd_desc Command_UI 12 ''TArbActivateNotify'' CB_Base CP_High CD_Inbound,
     cmd_desc_unique Command_UI 13 ''TSwitchDexCommand'' CB_Base CP_High UK_DEX_SWITCH CD_Outbound,
     cmd_desc_unique Command_UI 14 ''TSwitchSpotCommand'' CB_Base CP_High UK_SPOT_SWITCH CD_Outbound,
     cmd_desc Command_UI 15 ''TAlertObjectCommand'' CB_Base CP_Sliced CD_Both,
     cmd_desc Command_UI 16 ''TAlertSnapshotRequest'' CB_Base CP_High CD_Outbound,
     cmd_desc_full Command_UI 17 ''TChartTextStateCommand'' CB_Base CP_High None UK_CHART_TEXT_STATE (UKR_Singleton 1) CD_Outbound,
     cmd_desc_full Command_UI 18 ''TChartTextSnapshotCommand'' CB_Base CP_Sliced None UK_CHART_TEXT_SNAPSHOT UKR_SendContextClientId CD_Inbound,
     cmd_desc Command_UI 19 ''TOrdersHistoryRequestCommand'' CB_Base CP_High CD_Outbound,
     cmd_desc Command_UI 20 ''TRuntimeStateCommand'' CB_Base CP_High CD_Inbound,
     cmd_desc Command_UI 21 ''TRestartNowCommand'' CB_Base CP_High CD_Outbound,
     cmd_desc Command_UI 22 ''TKernelLicenseStateCommand'' CB_Base CP_High CD_Inbound,
     cmd_desc Command_UI 23 ''TKernelLicenseStateRequest'' CB_Base CP_High CD_Outbound,
     cmd_desc Command_UI 24 ''TProfitStateCommand'' CB_Base CP_High CD_Inbound,
     cmd_desc Command_UI 25 ''TAutoDetectCommand'' CB_Base CP_High CD_Outbound,
     cmd_desc Command_UI 26 ''TNewsRelayCommand'' CB_Base CP_High CD_Inbound,
     cmd_desc_full Command_UI 27 ''TNewsHistoryCommand'' CB_Base CP_Sliced None UK_NEWS_HISTORY UKR_SendContextClientId CD_Inbound,
     cmd_desc_full Command_UI 28 ''TSharedConfigCommand'' CB_Base CP_Sliced None UK_SHARED_CONFIG (UKR_Singleton 1) CD_Both,
     cmd_desc Command_UI 29 ''TSharedConfigRequest'' CB_Base CP_High CD_Outbound,
     cmd_desc Command_UI 30 ''THLRequestLimitStateCommand'' CB_Base CP_High CD_Inbound,
     cmd_desc Command_UI 31 ''TShutdownCommand'' CB_Base CP_High CD_Outbound,
     cmd_desc_full Command_UI 32 ''TProblemsStateCommand'' CB_Base CP_Sliced None UK_PROBLEMS_STATE (UKR_Singleton 1) CD_Inbound,
     cmd_desc Command_UI 33 ''TProblemNotifyCommand'' CB_Base CP_High CD_Inbound,
     cmd_desc Command_UI 34 ''TProblemsClearCommand'' CB_Base CP_High CD_Outbound,
     cmd_desc Command_UI 35 ''TProblemsTestCommand'' CB_Base CP_High CD_Outbound,
     cmd_desc_full Command_UI 36 ''TTelegramStateCommand'' CB_Base CP_Sliced None UK_TELEGRAM_STATE (UKR_Singleton 1) CD_Inbound,
     cmd_desc Command_UI 37 ''TTelegramStateRequest'' CB_Base CP_High CD_Outbound,
     cmd_desc Command_UI 38 ''TTelegramSetEnabledCommand'' CB_Base CP_High CD_Outbound,
     cmd_desc Command_UI 39 ''TTelegramSetProxyCommand'' CB_Base CP_High CD_Outbound,
     cmd_desc Command_UI 40 ''TTelegramSetLoginModeCommand'' CB_Base CP_High CD_Outbound,
     cmd_desc Command_UI 41 ''TTelegramSetPhoneCommand'' CB_Base CP_High CD_Outbound,
     cmd_desc Command_UI 42 ''TTelegramSetCodeCommand'' CB_Base CP_High CD_Outbound,
     cmd_desc Command_UI 43 ''TTelegramSetPasswordCommand'' CB_Base CP_High CD_Outbound,
     cmd_desc Command_UI 44 ''TTelegramSetEmailCommand'' CB_Base CP_High CD_Outbound,
     cmd_desc Command_UI 45 ''TTelegramSetEmailCodeCommand'' CB_Base CP_High CD_Outbound,
     cmd_desc Command_UI 46 ''TTelegramRegisterCommand'' CB_Base CP_High CD_Outbound,
     cmd_desc Command_UI 47 ''TTelegramResendCodeCommand'' CB_Base CP_High CD_Outbound,
     cmd_desc Command_UI 48 ''TTelegramLogoutCommand'' CB_Base CP_High CD_Outbound,
     cmd_desc_full Command_UI 49 ''TLogSubscribeCommand'' CB_Base CP_High None UK_LOG_SUBSCRIPTION (UKR_Singleton 1) CD_Outbound,
     cmd_desc Command_UI 50 ''TResetSessionCommand'' CB_Base CP_High CD_Outbound,
     cmd_desc_full Command_UI 58 ''TWatchDogStateCommand'' CB_Base CP_Sliced None UK_WATCHDOG_STATE (UKR_Singleton 1) CD_Inbound,
     cmd_desc Command_UI 59 ''TWatchDogSettingsCommand'' CB_Base CP_Sliced CD_Outbound,
     cmd_desc Command_UI 60 ''TTelegramSettingsCommand'' CB_Base CP_Sliced CD_Outbound,
     cmd_desc Command_UI 61 ''TServiceSettingsResult'' CB_Base CP_Sliced CD_Inbound,
     cmd_desc Command_UI 53 ''TVpsArchiveRequest'' CB_Base CP_High CD_Outbound,
     cmd_desc Command_UI 54 ''TVpsArchiveReply'' CB_Base CP_Sliced CD_Inbound,
     cmd_desc Command_UI 55 ''TMoonProtoChangeKey'' CB_Base CP_High CD_Outbound]"

definition STRAT_COMMANDS :: "command_descriptor list" where
  "STRAT_COMMANDS =
    [cmd_desc Command_Strat 0 ''TBaseStratCommand'' CB_Base CP_High CD_Both,
     cmd_desc Command_Strat 1 ''TStratSnapshotRequest'' CB_Base CP_High CD_Inbound,
     cmd_desc_full Command_Strat 2 ''TStratSnapshot'' CB_Base CP_Sliced None UK_STRAT_SNAPSHOT UKR_StrategySnapshot CD_Both,
     cmd_desc Command_Strat 3 ''TStratDelete'' CB_Base CP_High CD_Outbound,
     cmd_desc_full Command_Strat 4 ''TStratSellPriceUpdate'' CB_Base CP_High None UK_STRAT_SELL_PRICE_UPDATE UKR_StrategyId CD_Outbound,
     cmd_desc Command_Strat 5 ''TStratCheckedSync'' CB_Base CP_Sliced CD_Outbound,
     cmd_desc Command_Strat 6 ''TStratCheckedEcho'' CB_Base CP_High CD_Inbound,
     cmd_desc Command_Strat 7 ''TStratSchemaRequest'' CB_Base CP_High CD_Outbound,
     cmd_desc Command_Strat 8 ''TStratSchema'' CB_Base CP_Sliced CD_Inbound,
     cmd_desc Command_Strat 9 ''TDetectSignalCommand'' CB_Base CP_High CD_Inbound,
     cmd_desc Command_Strat 10 ''TStratRuntimeState'' CB_Base CP_High CD_Inbound]"

definition BALANCE_COMMANDS :: "command_descriptor list" where
  "BALANCE_COMMANDS =
    [cmd_desc Command_Balance 0 ''TBaseBalanceCommand'' CB_Base CP_High CD_Both,
     cmd_desc Command_Balance 1 ''TBalanceCommandBase'' CB_Base CP_High CD_Inbound,
     cmd_desc Command_Balance 2 ''TBalanceCommand'' CB_Base CP_High CD_Inbound,
     cmd_desc_full Command_Balance 3 ''TBalanceSnapshotFull'' CB_Base CP_Sliced None UK_BALANCE_FULL (UKR_Singleton 1) CD_Inbound,
     cmd_desc Command_Balance 4 ''TBalanceIncrUpdate'' CB_Base CP_High CD_Inbound,
     cmd_desc Command_Balance 5 ''TRequestBalanceRefresh'' CB_Base CP_High CD_Outbound,
     cmd_desc Command_Balance 6 ''TArbPricesCommand'' CB_Base CP_Low CD_Inbound,
     cmd_desc_full Command_Balance 7 ''TMarketSessionProfitStateCommand'' CB_Base CP_Sliced None UK_MARKET_SESSION_PROFIT (UKR_Singleton 1) CD_Inbound,
     cmd_desc Command_Balance 8 ''TBalanceDigestCommand'' CB_Base CP_High CD_Both,
     cmd_desc Command_Balance 9 ''TMarketSessionProfitUpdateCommand'' CB_Base CP_Sliced CD_Inbound,
     cmd_desc Command_Balance 10 ''TMarketSessionProfitRequestCommand'' CB_Base CP_High CD_Outbound]"

definition API_COMMANDS :: "command_descriptor list" where
  "API_COMMANDS =
    [cmd_desc Command_API 0 ''TEngineStreamCommand'' CB_Base CP_Sliced CD_Both,
     cmd_desc Command_API 1 ''TEngineResponse'' CB_Base CP_Sliced CD_Inbound,
     cmd_desc Command_API 2 ''TEngineRequest'' CB_Base CP_Sliced CD_Outbound,
     cmd_desc_full Command_API 3 ''TCandleUpdateCommand'' CB_Base CP_High None UK_CANDLE_UPDATE UKR_CandleUpdate CD_Inbound,
     cmd_desc_full Command_API 4 ''TCandleTFStateCommand'' CB_Base CP_High None UK_CANDLE_TF_STATE UKR_CandleTimeframeState CD_Inbound]"

definition COMMAND_DESCRIPTOR_DOMAINS :: "command_descriptor list list" where
  "COMMAND_DESCRIPTOR_DOMAINS = [ORDER_COMMANDS, UI_COMMANDS, STRAT_COMMANDS, BALANCE_COMMANDS, API_COMMANDS]"

definition find_descriptor :: "command \<Rightarrow> u8 \<Rightarrow> command_descriptor option" where
  "find_descriptor outer idn =
     List.find (\<lambda>desc. cd_outer desc = outer \<and> cd_id desc = idn) (concat COMMAND_DESCRIPTOR_DOMAINS)"


section \<open>The tables are a function of the key\<close>

definition desc_key :: "command_descriptor \<Rightarrow> command \<times> u8" where
  "desc_key d = (cd_outer d, cd_id d)"

lemma find_key_unique:
  assumes "distinct (map f xs)"
  shows "List.find (\<lambda>x. f x = k) xs = Some x \<longleftrightarrow> x \<in> set xs \<and> f x = k"
  using assms
proof (induction xs)
  case (Cons y ys)
  then show ?case by (cases "f y = k") (auto simp: rev_image_eqI)
qed simp

lemma registry_keys_distinct: "distinct (map desc_key (concat COMMAND_DESCRIPTOR_DOMAINS))"
  by code_simp

text \<open>C29: The registry is keyed by outer command and command id: a lookup returns a descriptor exactly
  when it is the registered row with that key, so no row of any domain is shadowed by another.\<close>

theorem find_descriptor_exact:
  "find_descriptor outer idn = Some d \<longleftrightarrow>
     d \<in> set (concat COMMAND_DESCRIPTOR_DOMAINS) \<and> cd_outer d = outer \<and> cd_id d = idn"
  using find_key_unique [OF registry_keys_distinct, of "(outer, idn)" d]
  by (auto simp: find_descriptor_def desc_key_def)

section \<open>Well-formed rows\<close>

text \<open>What the send path relies on in every row: encryption on by default, a positive retry budget not
  below the default of its priority, and a key rule exactly when a key kind is set, up to the one
  explicitly keyed command.\<close>

definition row_ok :: "command_descriptor \<Rightarrow> bool" where
  "row_ok d \<longleftrightarrow>
     cd_default_encrypted d \<and> default_retries (cd_priority d) \<le> cd_max_retries d \<and> cd_max_retries d \<le> 6 \<and>
     (cd_unique_kind d \<noteq> UK_NONE \<longrightarrow> cd_ukey d \<noteq> UKR_None) \<and>
     (cd_unique_kind d = UK_NONE \<longrightarrow> cd_ukey d = UKR_None \<or> cd_ukey d = UKR_Explicit) \<and>
     (cd_base d = CB_Market \<longrightarrow> cd_outer d = Command_Order)"

lemma registry_rows_ok: "list_all row_ok (concat COMMAND_DESCRIPTOR_DOMAINS)"
  by code_simp

lemma find_descriptor_row:
  assumes "find_descriptor outer idn = Some d"
  shows "row_ok d" "d \<in> set (concat COMMAND_DESCRIPTOR_DOMAINS)" "cd_outer d = outer" "cd_id d = idn"
proof -
  obtain i where i: "i < length (concat COMMAND_DESCRIPTOR_DOMAINS)" "d = concat COMMAND_DESCRIPTOR_DOMAINS ! i"
      "cd_outer d = outer \<and> cd_id d = idn"
    using assms unfolding find_descriptor_def find_Some_iff by auto
  show "cd_outer d = outer" "cd_id d = idn" using i(3) by blast+
  show d: "d \<in> set (concat COMMAND_DESCRIPTOR_DOMAINS)"
    unfolding i(2) by (rule nth_mem [OF i(1)])
  show "row_ok d" using registry_rows_ok d unfolding list_all_iff by blast
qed

end
