(* ===== verification/Slider.thy ===== *)
theory Slider
  imports Moon_Prelude
begin

text \<open>
  The replay window of \<^verbatim>\<open>protocol/slider.rs\<close>: a bitmap of 64 words over the message numbers
  \<open>start_num \<le> m < start_num + 4096\<close> that slides forward, word by word, when a later number
  arrives.  The same structure, filled from a peer's Ping, is the acknowledgement bitmap that
  \<open>ack_confirms_msg\<close> reads.

  The interface \<open>replay_filter\<close> is what the decryption path relies on; it is interpreted on
  \<open>check_revd\<close> at the end of the theory.
\<close>

section \<open>Model\<close>

definition SLIDER_LEN :: nat where
  "SLIDER_LEN = 64"

definition SLIDER_LEN_BITS :: nat where
  "SLIDER_LEN_BITS = SLIDER_LEN * 64"

record slider =
  bit_field :: "u64 list"
  start_num :: u64
  sl_epoch :: u8
  has_new_data :: bool
  r_count :: int

definition slider_new :: slider where
  "slider_new = \<lparr>bit_field = replicate SLIDER_LEN 0, start_num = 0, sl_epoch = 0,
                 has_new_data = False, r_count = 0\<rparr>"

text \<open>\<^verbatim>\<open>copy_within(diff.., 0)\<close> when some words survive, then the loop zeroing the new tail.\<close>

definition zero_from :: "nat \<Rightarrow> u64 list \<Rightarrow> u64 list" where
  "zero_from k ws = take k ws @ replicate (length ws - k) 0"

definition shift_window :: "nat \<Rightarrow> u64 list \<Rightarrow> u64 list" where
  "shift_window d ws =
     zero_from (SLIDER_LEN - d) (if d < SLIDER_LEN then overwrite 0 (drop d ws) ws else ws)"

definition set_bit_at :: "slider \<Rightarrow> u32 \<Rightarrow> bool \<times> slider" where
  "set_bit_at s num =
     (let word_idx = unat (drop_bit 6 num);
          mask = push_bit (unat (num AND 63)) (1 :: u64);
          was_set = (bit_field s ! word_idx AND mask \<noteq> 0)
      in (was_set, s\<lparr>bit_field := (bit_field s)[word_idx := bit_field s ! word_idx OR mask]\<rparr>))"

text \<open>The first half of \<^verbatim>\<open>check_revd\<close>: move the window so that it covers \<open>num\<close>.\<close>

definition slide :: "slider \<Rightarrow> u64 \<Rightarrow> slider" where
  "slide s num =
     (let n = drop_bit 6 num;
          prev = drop_bit 6 (start_num s);
          diff = uint n - uint prev - int SLIDER_LEN + 1
      in if diff > 0
         then s\<lparr>sl_epoch := sl_epoch s + 1 + 1,
                start_num := push_bit 6 (n - of_nat SLIDER_LEN + 1),
                bit_field := shift_window (nat diff) (bit_field s)\<rparr>
         else s)"

definition check_revd :: "slider \<Rightarrow> u64 \<Rightarrow> bool \<times> slider" where
  "check_revd s num =
     (let s1 = slide s num
      in if start_num s1 \<le> num
         then (let d = (ucast (num - start_num s1) :: u32)
               in if unat d < SLIDER_LEN_BITS
                  then (let (was_set, s2) = set_bit_at s1 d in (\<not> was_set, s2))
                  else (False, s1))
         else (False, s1))"

text \<open>The \<^verbatim>\<open>while count > 0 && local_buf[count - 1] == 0\<close> loop.\<close>

primrec trim_count :: "u64 list \<Rightarrow> nat \<Rightarrow> nat" where
  "trim_count ws 0 = 0"
| "trim_count ws (Suc c) = (if ws ! c = 0 then trim_count ws c else Suc c)"

definition build_ack_half :: "slider \<Rightarrow> u64 \<times> u64 list" where
  "build_ack_half s =
     (let half = SLIDER_LEN div 2;
          start_idx = SLIDER_LEN - half;
          ack_start = start_num s + of_nat start_idx * 64;
          local_buf = slice start_idx (start_idx + half) (bit_field s);
          count = trim_count local_buf half
      in if count = 0 then (ack_start, []) else (ack_start, take count local_buf))"

definition ack_confirms_msg :: "slider \<Rightarrow> u64 \<Rightarrow> bool" where
  "ack_confirms_msg s msg_num =
     (if msg_num < start_num s then False
      else let limit = nat (max (r_count s) 0) * 64;
               offset = msg_num - start_num s
           in if unat offset \<ge> limit then False
              else (drop_bit (unat (offset AND 63)) (bit_field s ! unat (drop_bit 6 offset))) AND 1 \<noteq> 0)"

section \<open>The bitmap as a set of numbers\<close>

definition bm_bit :: "u64 list \<Rightarrow> nat \<Rightarrow> bool" where
  "bm_bit ws i \<longleftrightarrow> i < 64 * length ws \<and> bit (ws ! (i div 64)) (i mod 64)"

text \<open>The window covers whole words, starts on a word boundary and fits the number space.\<close>

definition slider_wf :: "slider \<Rightarrow> bool" where
  "slider_wf s \<longleftrightarrow> length (bit_field s) = SLIDER_LEN \<and> unat (start_num s) mod 64 = 0
                    \<and> unat (start_num s) + SLIDER_LEN_BITS \<le> 2 ^ 64"

definition slider_seen :: "slider \<Rightarrow> u64 \<Rightarrow> bool" where
  "slider_seen s m \<longleftrightarrow> start_num s \<le> m \<and> bm_bit (bit_field s) (unat m - unat (start_num s))"

text \<open>A number is blocked when it fell behind the window or was already seen in it.\<close>

definition slider_blocked :: "slider \<Rightarrow> u64 \<Rightarrow> bool" where
  "slider_blocked s m \<longleftrightarrow> m < start_num s \<or> slider_seen s m"

lemmas slider_consts = SLIDER_LEN_def SLIDER_LEN_BITS_def

lemma slider_new_wf [simp]: "slider_wf slider_new"
  by (simp add: slider_wf_def slider_new_def slider_consts)

lemma bm_bit_replicate_0 [simp]: "\<not> bm_bit (replicate n 0) i"
  by (auto simp: bm_bit_def less_mult_imp_div_less mult.commute)

lemma slider_new_seen [simp]: "\<not> slider_seen slider_new m"
  by (simp add: slider_seen_def slider_new_def)

lemma slider_new_start [simp]: "start_num slider_new = 0"
  by (simp add: slider_new_def)

lemma slider_new_blocked [simp]: "\<not> slider_blocked slider_new m"
  by (simp add: slider_blocked_def)

lemma shift_window_eq:
  "length ws = SLIDER_LEN \<Longrightarrow> shift_window d ws = drop d ws @ replicate (min d SLIDER_LEN) 0"
  by (auto simp: shift_window_def zero_from_def overwrite_def)

lemma bm_bit_alt: "bm_bit ws i \<longleftrightarrow> i div 64 < length ws \<and> bit (ws ! (i div 64)) (i mod 64)"
  by (simp add: bm_bit_def div_less_iff_less_mult mult.commute)

lemma bm_bit_shift:
  assumes "length ws = SLIDER_LEN"
  shows "bm_bit (shift_window d ws) i \<longleftrightarrow> bm_bit ws (i + 64 * d)"
proof -
  have "(i + 64 * d) div 64 = d + i div 64" "(i + 64 * d) mod 64 = i mod 64" by simp_all
  then show ?thesis
    using assms by (auto simp: bm_bit_alt shift_window_eq nth_append min_def)
qed

lemma bm_bit_set:
  assumes "w < length ws" "b < 64"
  shows "bm_bit (ws[w := ws ! w OR push_bit b 1]) i \<longleftrightarrow> i = 64 * w + b \<or> bm_bit ws i"
proof -
  have "i < 64 * length ws \<longleftrightarrow> i div 64 < length ws"
    by (simp add: div_less_iff_less_mult mult.commute)
  moreover have "i = 64 * w + b \<longleftrightarrow> i div 64 = w \<and> i mod 64 = b"
    using assms(2) by auto
  moreover have "bit (push_bit b (1 :: u64)) (i mod 64) \<longleftrightarrow> i mod 64 = b"
    using assms(2) by (auto simp: bit_exp_iff)
  ultimately show ?thesis
    using assms by (auto simp: bm_bit_def nth_list_update bit_or_iff)
qed

lemma unat_and_63: "unat (x AND 63 :: 'a::len word) = unat x mod 64"
proof -
  have "x AND 63 = take_bit 6 x"
    by (simp add: take_bit_eq_mask mask_eq_exp_minus_1)
  then show ?thesis
    by (simp add: unat_take_bit)
qed

lemma unat_drop_6: "unat (drop_bit 6 x :: 'a::len word) = unat x div 64"
  by (simp add: unat_drop_bit)

lemma and_mask_bit: "(x AND push_bit b 1 \<noteq> (0 :: u64)) \<longleftrightarrow> b < 64 \<and> bit x b"
proof -
  have "x AND push_bit b 1 = (if bit x b then push_bit b 1 else 0)"
    by (rule bit_word_eqI) (auto simp: bit_and_iff bit_exp_iff)
  then show ?thesis
    using bit_imp_le_length [of x b] by (auto simp: push_bit_eq_mult)
qed

section \<open>The window after a check\<close>

lemma slide_alt:
  "slide s num =
     (let diff = int (unat num div 64) - int (unat (start_num s) div 64) - 63
      in if diff > 0
         then s\<lparr>sl_epoch := sl_epoch s + 1 + 1,
                start_num := push_bit 6 (drop_bit 6 num - 63),
                bit_field := shift_window (nat diff) (bit_field s)\<rparr>
         else s)"
proof -
  have "uint (drop_bit 6 num) - uint (drop_bit 6 (start_num s)) - int SLIDER_LEN + 1
          = int (unat num div 64) - int (unat (start_num s) div 64) - 63"
    by (simp only: uint_nat unat_drop_6) (simp add: SLIDER_LEN_def)
  then show ?thesis
    unfolding slide_def Let_def by (simp only:) (simp add: SLIDER_LEN_def)
qed

lemma slider_aligned: "slider_wf s \<Longrightarrow> 64 * (unat (start_num s) div 64) = unat (start_num s)"
  by (auto simp: slider_wf_def)

lemma slide_start:
  assumes "slider_wf s"
  shows "unat (start_num (slide s num)) =
           max (unat (start_num s)) (64 * (unat num div 64 - 63))" (is "_ = max ?st (64 * (?n - 63))")
proof (cases "int ?n - int (?st div 64) - 63 > 0")
  case True
  then have "(63 :: u64) \<le> drop_bit 6 num"
    by (simp add: word_le_nat_alt unat_drop_6)
  then have "unat (drop_bit 6 num - 63 :: u64) = ?n - 63"
    by (simp add: unat_sub unat_drop_6)
  moreover have "?n < 2 ^ 58"
    using unat_lt_power [of 64 num] by (simp add: less_mult_imp_div_less)
  ultimately have "unat (push_bit 6 (drop_bit 6 num - 63 :: u64)) = (?n - 63) * 64"
    by (subst unat_push_bit) auto
  with True slider_aligned [OF assms] show ?thesis
    by (simp add: slide_alt)
next
  case False
  with slider_aligned [OF assms] have "64 * (?n - 63) \<le> ?st" by linarith
  with False show ?thesis
    by (simp add: slide_alt)
qed

lemma slide_bit_field:
  assumes "slider_wf s"
  shows "bit_field (slide s num) =
           (let d = (unat (start_num (slide s num)) - unat (start_num s)) div 64
            in if d = 0 then bit_field s else shift_window d (bit_field s))"
proof -
  have "(unat (start_num (slide s num)) - unat (start_num s)) div 64
               = nat (int (unat num div 64) - int (unat (start_num s) div 64) - 63)"
    unfolding slide_start [OF assms] using slider_aligned [OF assms] by linarith
  then show ?thesis
    unfolding Let_def by (simp only:) (simp add: slide_alt Let_def)
qed

lemma slide_wf:
  assumes "slider_wf s"
  shows "slider_wf (slide s num)"
proof -
  have "64 * (unat num div 64 - 63) + 4096 \<le> 2 ^ 64"
    using unat_lt_power [of 64 num] by simp
  moreover have "unat (start_num (slide s num)) mod 64 = 0"
    using assms by (simp add: slide_start slider_wf_def max_def)
  moreover have "length (bit_field (slide s num)) = SLIDER_LEN"
    using assms by (simp add: slide_bit_field slider_wf_def Let_def shift_window_eq min_def)
  ultimately show ?thesis
    using assms by (simp add: slider_wf_def slide_start slider_consts)
qed

lemma slide_seen:
  assumes "slider_wf s"
  shows "slider_seen (slide s num) m \<longleftrightarrow> slider_seen s m \<and> start_num (slide s num) \<le> m"
proof -
  let ?a = "unat (start_num s)" and ?b = "unat (start_num (slide s num))"
  define d where "d = (?b - ?a) div 64"
  have le: "?a \<le> ?b" by (simp add: slide_start [OF assms])
  have "?a mod 64 = 0" "?b mod 64 = 0"
    using assms slide_wf [OF assms, of num] by (auto simp: slider_wf_def)
  then have b: "?b = ?a + 64 * d"
    using le by (simp add: d_def mod_eq_0_iff_dvd dvd_diff_nat)
  have bf: "bm_bit (bit_field (slide s num)) i \<longleftrightarrow> bm_bit (bit_field s) (i + 64 * d)" for i
    using assms slide_bit_field [OF assms, of num]
    by (simp add: slider_wf_def Let_def d_def [symmetric] bm_bit_shift split: if_splits)
  show ?thesis
    unfolding slider_seen_def bf using b le
    by (auto simp: word_le_nat_alt algebra_simps)
qed

lemma slide_covers:
  assumes "slider_wf s"
  shows "unat num < unat (start_num (slide s num)) + SLIDER_LEN_BITS"
  unfolding slide_start [OF assms] slider_consts by linarith

lemma set_bit_at_spec:
  assumes "slider_wf s" "start_num s \<le> num" "unat num < unat (start_num s) + SLIDER_LEN_BITS"
    and "set_bit_at s (ucast (num - start_num s)) = (was, s')"
  shows "was = slider_seen s num" "slider_wf s'" "start_num s' = start_num s"
    "slider_seen s' m \<longleftrightarrow> m = num \<or> slider_seen s m"
proof -
  let ?d = "unat num - unat (start_num s)"
  have d: "unat (ucast (num - start_num s) :: u32) = ?d" and d4: "?d < 4096"
    using assms(2,3) by (auto simp: unat_ucast_small unat_sub slider_consts word_le_nat_alt)
  have len: "length (bit_field s) = 64"
    using assms(1) by (simp add: slider_wf_def SLIDER_LEN_def)
  note was = assms(4) [unfolded set_bit_at_def Let_def unat_drop_6 unat_and_63 d, symmetric]
  have w64: "?d div 64 < 64" using d4 by linarith
  show "was = slider_seen s num"
    using was assms(2) len w64
    by (simp add: and_mask_bit [simplified] slider_seen_def bm_bit_alt)
  show "slider_wf s'" "start_num s' = start_num s"
    using was assms(1) by (auto simp: slider_wf_def)
  have bf: "bit_field s' = (bit_field s)[?d div 64 := bit_field s ! (?d div 64) OR push_bit (?d mod 64) 1]"
    using was by simp
  have "slider_seen s' m \<longleftrightarrow> start_num s \<le> m \<and> (unat m - unat (start_num s) = ?d \<or> bm_bit (bit_field s) (unat m - unat (start_num s)))"
    using was bm_bit_set [of "?d div 64" "bit_field s" "?d mod 64"] w64 len
    by (simp add: slider_seen_def bf)
  moreover have "start_num s \<le> m \<and> unat m - unat (start_num s) = ?d \<longleftrightarrow> m = num"
    using assms(2) by (auto simp: word_le_nat_alt word_unat_eq_iff)
  ultimately show "slider_seen s' m \<longleftrightarrow> m = num \<or> slider_seen s m"
    by (auto simp: slider_seen_def)
qed

lemma check_revd_window:
  assumes "slider_wf s"
  shows "(fst (check_revd s num) \<longleftrightarrow> start_num (slide s num) \<le> num \<and> \<not> slider_seen s num)
       \<and> slider_wf (snd (check_revd s num))
       \<and> start_num (snd (check_revd s num)) = start_num (slide s num)
       \<and> (slider_seen (snd (check_revd s num)) m \<longleftrightarrow>
            start_num (slide s num) \<le> m \<and> (m = num \<or> slider_seen s m))"
proof -
  let ?s = "slide s num"
  note wf = slide_wf [OF assms, of num] and cov = slide_covers [OF assms, of num]
    and seen = slide_seen [OF assms, of num]
  obtain was s' where sb: "set_bit_at ?s (ucast (num - start_num ?s)) = (was, s')"
    by (cases "set_bit_at ?s (ucast (num - start_num ?s))")
  show ?thesis
  proof (cases "start_num ?s \<le> num")
    case True
    note sp = set_bit_at_spec [OF wf True cov sb]
    have "unat (ucast (num - start_num ?s) :: u32) < SLIDER_LEN_BITS"
      using True cov by (auto simp: unat_ucast_small unat_sub slider_consts word_le_nat_alt)
    then have "check_revd s num = (\<not> was, s')"
      using True sb by (simp add: check_revd_def Let_def)
    with sp seen True show ?thesis by auto
  qed (use wf seen in \<open>auto simp: check_revd_def Let_def\<close>)
qed

lemma check_revd_spec:
  assumes "slider_wf s"
  shows "fst (check_revd s num) \<longleftrightarrow> \<not> slider_blocked s num"
    and "slider_wf (snd (check_revd s num))"
    and "start_num (snd (check_revd s num)) = start_num (slide s num)"
    and "slider_seen (snd (check_revd s num)) m \<longleftrightarrow>
           start_num (slide s num) \<le> m \<and> (m = num \<or> slider_seen s m)"
proof -
  have "start_num (slide s num) \<le> num \<longleftrightarrow> start_num s \<le> num"
    unfolding word_le_nat_alt slide_start [OF assms] by linarith
  then show "fst (check_revd s num) \<longleftrightarrow> \<not> slider_blocked s num"
    by (auto simp: slider_blocked_def check_revd_window [OF assms, THEN conjunct1])
qed (simp_all add: check_revd_window [OF assms])

section \<open>The replay filter interface\<close>

text \<open>What the decryption path needs of a replay filter: the numbers it lets through are exactly
  those it does not block; a blocked number stays blocked; and a number it has been asked about is
  blocked from then on.\<close>

primrec filter_run :: "('s \<Rightarrow> 'n \<Rightarrow> bool \<times> 's) \<Rightarrow> 's \<Rightarrow> 'n list \<Rightarrow> 'n list \<times> 's" where
  "filter_run check s [] = ([], s)"
| "filter_run check s (n # ns) =
     (let (ok, s1) = check s n; (acc, s2) = filter_run check s1 ns
      in (if ok then n # acc else acc, s2))"

locale replay_filter =
  fixes check :: "'s \<Rightarrow> 'n \<Rightarrow> bool \<times> 's"
    and inv :: "'s \<Rightarrow> bool"
    and blocked :: "'s \<Rightarrow> 'n \<Rightarrow> bool"
  assumes check_inv: "inv s \<Longrightarrow> inv (snd (check s n))"
    and check_accepts: "inv s \<Longrightarrow> fst (check s n) \<longleftrightarrow> \<not> blocked s n"
    and blocked_mono: "inv s \<Longrightarrow> blocked s m \<Longrightarrow> blocked (snd (check s n)) m"
    and blocked_after: "inv s \<Longrightarrow> blocked (snd (check s n)) n"
begin

lemma run_inv: "inv s \<Longrightarrow> inv (snd (filter_run check s ns))"
  by (induction ns arbitrary: s)
    (simp_all add: Let_def case_prod_unfold check_inv)

lemma run_accepts_unblocked:
  "inv s \<Longrightarrow> blocked s n \<Longrightarrow> n \<notin> set (fst (filter_run check s ns))"
proof (induction ns arbitrary: s)
  case (Cons k ns)
  then have "n \<notin> set (fst (filter_run check (snd (check s k)) ns))"
    by (simp add: check_inv blocked_mono)
  moreover have "fst (check s k) \<Longrightarrow> k \<noteq> n"
    using Cons.prems by (auto simp: check_accepts)
  ultimately show ?case
    by (auto simp: Let_def case_prod_unfold)
qed simp

lemma run_accepts_once: "inv s \<Longrightarrow> distinct (fst (filter_run check s ns))"
proof (induction ns arbitrary: s)
  case (Cons k ns)
  then have "distinct (fst (filter_run check (snd (check s k)) ns))"
    by (simp add: check_inv)
  moreover have "k \<notin> set (fst (filter_run check (snd (check s k)) ns))"
    using Cons.prems by (intro run_accepts_unblocked check_inv blocked_after)
  ultimately show ?case
    by (auto simp: Let_def case_prod_unfold)
qed simp

lemma run_accepts_offered: "set (fst (filter_run check s ns)) \<subseteq> set ns"
proof (induction ns arbitrary: s)
  case (Cons k ns)
  show ?case
    using Cons [of "snd (check s k)"] by (auto simp: Let_def case_prod_unfold)
qed simp

end

interpretation slider_filter: replay_filter check_revd slider_wf slider_blocked
proof
  fix s :: slider and n m :: u64
  assume wf: "slider_wf s"
  note sp = check_revd_spec [OF wf, of n]
  show "slider_wf (snd (check_revd s n))" by (rule sp)
  show "fst (check_revd s n) \<longleftrightarrow> \<not> slider_blocked s n" by (rule sp)
  show "slider_blocked (snd (check_revd s n)) n"
    using sp(3) sp(4) [of n] by (auto simp: slider_blocked_def)
  assume "slider_blocked s m"
  moreover have "start_num s \<le> start_num (slide s n)"
    by (simp add: word_le_nat_alt slide_start [OF wf])
  ultimately show "slider_blocked (snd (check_revd s n)) m"
    using sp(3) sp(4) [of m] by (auto simp: slider_blocked_def)
qed

section \<open>Abstract specification\<close>

text \<open>The promise of the filter, with neither words nor bitmaps: a floor below which every number is
  stale, and the set of numbers let through at or above it.  The floor follows the largest number
  in whole words and leaves at least 63 words behind it.\<close>

definition spec_check :: "nat \<times> nat set \<Rightarrow> nat \<Rightarrow> bool \<times> (nat \<times> nat set)" where
  "spec_check st n =
     (let floor = max (fst st) (64 * (n div 64 - 63));
          kept = {m \<in> snd st. floor \<le> m}
      in if floor \<le> n \<and> n \<notin> kept then (True, floor, insert n kept) else (False, floor, kept))"

definition slider_abs :: "slider \<Rightarrow> nat \<times> nat set" where
  "slider_abs s = (unat (start_num s), unat ` {m. slider_seen s m})"

lemma slider_abs_new: "slider_abs slider_new = (0, {})"
  by (simp add: slider_abs_def)

lemma unat_image_collect: "unat (m :: u64) \<in> unat ` {x. P x} \<longleftrightarrow> P m"
  by (auto dest: word_unat_eq_iff [THEN iffD2])

text \<open>C13: \<open>check_revd\<close> implements the abstract filter: on every well-formed window it accepts exactly
  the numbers the specification accepts, and the new window is, number for number, the new abstract
  state.  In particular the truncation of the distance to 32 bits and the block move of the bitmap
  lose nothing.\<close>

theorem check_revd_refines:
  assumes "slider_wf s"
  shows "(fst (check_revd s num), slider_abs (snd (check_revd s num)))
           = spec_check (slider_abs s) (unat num)"
proof -
  define f where "f = max (unat (start_num s)) (64 * (unat num div 64 - 63))"
  define S where "S = unat ` {m. slider_seen s m}"
  have floor: "unat (start_num (slide s num)) = f"
    unfolding f_def by (rule slide_start [OF assms])
  have num_S: "slider_seen s num \<longleftrightarrow> unat num \<in> S"
    unfolding S_def by (rule unat_image_collect [symmetric])
  have "{m. slider_seen (snd (check_revd s num)) m} =
      {m. f \<le> unat m \<and> (m = num \<or> slider_seen s m)}"
    by (simp add: check_revd_spec(4) [OF assms] word_le_nat_alt floor)
  then have seen: "unat ` {m. slider_seen (snd (check_revd s num)) m} =
      {m \<in> insert (unat num) S. f \<le> m}"
    by (auto simp: S_def)
  have acc: "fst (check_revd s num) \<longleftrightarrow> f \<le> unat num \<and> unat num \<notin> S"
    using check_revd_window [OF assms, of num] by (simp add: word_le_nat_alt floor num_S)
  have "slider_abs s = (unat (start_num s), S)"
    by (simp add: slider_abs_def S_def)
  moreover have "slider_abs (snd (check_revd s num)) = (f, {m \<in> insert (unat num) S. f \<le> m})"
    by (simp add: slider_abs_def seen check_revd_spec(3) [OF assms] floor)
  moreover have "{m \<in> insert (unat num) S. f \<le> m} =
      (if f \<le> unat num then insert (unat num) {m \<in> S. f \<le> m} else {m \<in> S. f \<le> m})"
    by auto
  ultimately show ?thesis
    by (simp add: spec_check_def Let_def acc f_def [symmetric] insert_absorb)
qed

theorem check_revd_refines_witness:
  "(fst (check_revd slider_new 5000), slider_abs (snd (check_revd slider_new 5000)))
     = (True, 960, {5000})"
  using check_revd_refines [OF slider_new_wf, of 5000]
  by (simp add: slider_abs_new spec_check_def)

section \<open>Runs of the filter\<close>

text \<open>C12: Replay protection.  Whatever sequence of message numbers is presented to a fresh window,
  with repetitions, reordering and jumps, no number is let through twice, and only presented
  numbers are let through.\<close>

theorem slider_no_replay:
  "distinct (fst (filter_run check_revd slider_new nums))
     \<and> set (fst (filter_run check_revd slider_new nums)) \<subseteq> set nums"
  by (simp add: slider_filter.run_accepts_once slider_filter.run_accepts_offered)

lemma run_seen_offered:
  "slider_wf s \<Longrightarrow> slider_seen (snd (filter_run check_revd s nums)) m \<Longrightarrow>
     slider_seen s m \<or> m \<in> set nums"
proof (induction nums arbitrary: s)
  case (Cons n nums)
  then have "slider_seen (snd (check_revd s n)) m \<or> m \<in> set nums"
    by (simp add: Let_def case_prod_unfold check_revd_spec(2))
  with Cons.prems(1) show ?case
    by (auto simp: check_revd_spec(4))
qed simp

lemma run_start_bound:
  "slider_wf s \<Longrightarrow> unat (start_num s) \<le> b \<Longrightarrow> \<forall>n \<in> set nums. 64 * (unat n div 64 - 63) \<le> b \<Longrightarrow>
     unat (start_num (snd (filter_run check_revd s nums))) \<le> b"
proof (induction nums arbitrary: s)
  case (Cons n nums)
  then have "unat (start_num (snd (check_revd s n))) \<le> b"
    by (simp add: check_revd_spec(3) slide_start)
  with Cons show ?case
    by (simp add: Let_def case_prod_unfold check_revd_spec(2))
qed simp

text \<open>No false rejections.  A number that was never presented, and that is not more than 63
  words (4032 numbers) behind any number presented so far, is let through.\<close>

theorem slider_fresh_accepted:
  assumes "num \<notin> set nums"
    and "\<forall>n \<in> set nums. unat n \<le> unat num + 4032"
  shows "fst (check_revd (snd (filter_run check_revd slider_new nums)) num)"
proof -
  let ?s = "snd (filter_run check_revd slider_new nums)"
  have wf: "slider_wf ?s" by (simp add: slider_filter.run_inv)
  have "\<forall>n \<in> set nums. 64 * (unat n div 64 - 63) \<le> unat num"
    using assms(2) by auto
  then have "unat (start_num ?s) \<le> unat num"
    by (intro run_start_bound) simp_all
  moreover have "\<not> slider_seen ?s num"
    using run_seen_offered [of slider_new nums num] assms(1) by auto
  ultimately show ?thesis
    by (auto simp: check_revd_spec(1) [OF wf] slider_blocked_def word_less_nat_alt)
qed

theorem slider_fresh_accepted_witness:
  "fst (check_revd (snd (filter_run check_revd slider_new [7, 5000, 4100, 7])) 1000)"
  by (rule slider_fresh_accepted) simp_all

section \<open>Acknowledgement bitmaps\<close>

lemma trim_count_le: "trim_count ws c \<le> c"
  by (induction c) auto

lemma trim_count_zero: "trim_count ws c \<le> i \<Longrightarrow> i < c \<Longrightarrow> ws ! i = 0"
  by (induction c) (auto simp: less_Suc_eq split: if_splits)

lemma bm_bit_trim:
  assumes "length ws = n"
  shows "bm_bit (take (trim_count ws n) ws) i \<longleftrightarrow> bm_bit ws i"
  using trim_count_le [of ws n] trim_count_zero [of ws n "i div 64"] assms
  by (cases "i div 64 < trim_count ws n") (auto simp: bm_bit_alt)

lemma build_ack_half_eq:
  "build_ack_half s = (start_num s + 2048,
     take (trim_count (slice 32 64 (bit_field s)) 32) (slice 32 64 (bit_field s)))"
  by (simp add: build_ack_half_def Let_def SLIDER_LEN_def)

lemma build_ack_half_bits:
  assumes "slider_wf s" and "build_ack_half s = (a, ws)"
  shows "unat a = unat (start_num s) + 2048" "length ws \<le> 32"
    "bm_bit ws i \<longleftrightarrow> bm_bit (bit_field s) (i + 2048)"
proof -
  let ?h = "slice 32 64 (bit_field s)"
  have len: "length (bit_field s) = 64" and top: "unat (start_num s) + 4096 \<le> 2 ^ 64"
    using assms(1) by (auto simp: slider_wf_def slider_consts)
  have a: "a = start_num s + 2048" and ws: "ws = take (trim_count ?h 32) ?h"
    using assms(2) by (auto simp: build_ack_half_eq)
  show "unat a = unat (start_num s) + 2048"
    using top by (simp add: a unat_plus_if')
  have lh: "length ?h = 32" using len by (simp add: length_slice)
  show "length ws \<le> 32" by (simp add: ws lh)
  have "bm_bit ws i \<longleftrightarrow> bm_bit ?h i"
    unfolding ws by (rule bm_bit_trim [OF lh])
  also have "\<dots> \<longleftrightarrow> bm_bit (bit_field s) (i + 2048)"
  proof -
    have "(i + 2048) div 64 = 32 + i div 64" "(i + 2048) mod 64 = i mod 64"
      using div_mult_self1 [of 64 i 32] mod_mult_self1 [of i 32 64] by simp_all
    then show ?thesis using len by (auto simp: bm_bit_alt slice_def)
  qed
  finally show "bm_bit ws i \<longleftrightarrow> bm_bit (bit_field s) (i + 2048)" .
qed

lemma and_1_bit: "(drop_bit k w AND 1 \<noteq> (0 :: u64)) \<longleftrightarrow> bit w k"
  by (simp add: and_one_eq mod_2_eq_odd bit_iff_odd_drop_bit)

lemma ack_confirms_bits:
  assumes "0 \<le> r_count s" "nat (r_count s) \<le> length (bit_field s)"
  shows "ack_confirms_msg s m \<longleftrightarrow> start_num s \<le> m \<and> unat m - unat (start_num s) < 64 * nat (r_count s)
           \<and> bm_bit (bit_field s) (unat m - unat (start_num s))"
proof (cases "start_num s \<le> m")
  case True
  then have off: "unat (m - start_num s) = unat m - unat (start_num s)" by (rule unat_sub)
  show ?thesis
    using True assms
    by (auto simp: ack_confirms_msg_def Let_def unat_drop_6 unat_and_63 off and_1_bit bm_bit_def)
qed (auto simp: ack_confirms_msg_def)

end
