(* ===== verification/Send_Queue.thy ===== *)
theory Send_Queue
  imports Registry Slider
begin

text \<open>
  The send queues shared with the writer (\<^verbatim>\<open>client/send_queue.rs\<close>): the metadata a typed command gets
  from the registry, the queues with their replacement by unique key, and the lock state that also
  carries incoming acknowledgements and the acknowledgement bitmap of the peer's Ping.

  Retry counts (\<^verbatim>\<open>i32\<close>, at most 6) are integers.  A queue is the list of its items in push order.
\<close>

section \<open>Unique keys and metadata\<close>

datatype send_priority = SP_Sliced | SP_High | SP_Low

primrec send_priority_from :: "command_priority \<Rightarrow> send_priority" where
  "send_priority_from CP_Sliced = SP_Sliced"
| "send_priority_from CP_High = SP_High"
| "send_priority_from CP_Low = SP_Low"

record unique_key =
  uk_kind :: u8
  uk_uid :: u64

definition unique_key_none :: unique_key where
  "unique_key_none = \<lparr>uk_kind = UK_NONE, uk_uid = 0\<rparr>"

definition key_is_none :: "unique_key \<Rightarrow> bool" where
  "key_is_none k \<longleftrightarrow> uk_kind k = UK_NONE"

definition order_command_key :: "u8 \<Rightarrow> u64 \<Rightarrow> unique_key" where
  "order_command_key kind order_id = \<lparr>uk_kind = kind, uk_uid = order_id\<rparr>"

definition strat_sell_price_update_key :: "u64 \<Rightarrow> unique_key" where
  "strat_sell_price_update_key strategy_id = \<lparr>uk_kind = UK_STRAT_SELL_PRICE_UPDATE, uk_uid = strategy_id\<rparr>"

record send_metadata =
  tm_priority :: send_priority
  tm_encrypted :: bool
  tm_max_retries :: int
  tm_u_key :: unique_key

text \<open>\<^verbatim>\<open>payload.get(a..b)\<close> and \<^verbatim>\<open>payload.get(i)\<close>.\<close>

definition get_range :: "nat \<Rightarrow> nat \<Rightarrow> bytes \<Rightarrow> bytes option" where
  "get_range a b d = (if b \<le> length d then Some (slice a b d) else None)"

definition get_at :: "nat \<Rightarrow> bytes \<Rightarrow> byte option" where
  "get_at i d = (if i < length d then Some (d ! i) else None)"

definition payload_header_uid :: "bytes \<Rightarrow> u64 option" where
  "payload_header_uid payload = map_option from_le (get_range 3 11 payload)"

text \<open>The flag word of a full strategy snapshot, behind the snapshot body.\<close>

definition snapshot_flags :: "bytes \<Rightarrow> u32" where
  "snapshot_flags payload =
     (let size = unat (from_le (slice 27 31 payload) :: u32); tail = drop 32 payload
      in if size \<le> length tail
         then (case get_range 8 12 (drop size tail) of Some bs \<Rightarrow> from_le bs | None \<Rightarrow> 0)
         else 0)"

definition descriptor_u_key :: "command_descriptor \<Rightarrow> bytes \<Rightarrow> unique_key option \<Rightarrow> unique_key option" where
  "descriptor_u_key desc payload explicit_u_key =
     (case explicit_u_key of
        Some u_key \<Rightarrow> Some u_key
      | None \<Rightarrow>
          if cd_unique_kind desc = UK_NONE then Some unique_key_none
          else (case cd_ukey desc of
                  UKR_None \<Rightarrow> Some unique_key_none
                | UKR_Explicit \<Rightarrow> None
                | UKR_HeaderUid \<Rightarrow>
                    map_option (\<lambda>uid. \<lparr>uk_kind = cd_unique_kind desc, uk_uid = uid\<rparr>) (payload_header_uid payload)
                | UKR_Singleton uid \<Rightarrow> Some \<lparr>uk_kind = cd_unique_kind desc, uk_uid = uid\<rparr>
                | UKR_StrategySnapshot \<Rightarrow>
                    (case get_at 31 payload of
                       None \<Rightarrow> None
                     | Some full \<Rightarrow>
                         if full = 0 then Some unique_key_none
                         else Some (if snapshot_flags payload = 0
                                    then \<lparr>uk_kind = cd_unique_kind desc, uk_uid = 1\<rparr> else unique_key_none))
                | UKR_MarketIndex \<Rightarrow> None
                | UKR_StrategyId \<Rightarrow> None
                | UKR_SendContextClientId \<Rightarrow> None
                | UKR_CandleUpdate \<Rightarrow> None
                | UKR_CandleTimeframeState \<Rightarrow> None))"

definition typed_send_metadata :: "command \<Rightarrow> bytes \<Rightarrow> unique_key option \<Rightarrow> send_metadata option" where
  "typed_send_metadata outer payload explicit_u_key =
     (case payload of
        [] \<Rightarrow> None
      | cmd_id # _ \<Rightarrow>
          (case find_descriptor outer cmd_id of
             None \<Rightarrow> None
           | Some desc \<Rightarrow>
               map_option
                 (\<lambda>u_key.
                    \<lparr>tm_priority = send_priority_from (cd_priority desc),
                     tm_encrypted = cd_default_encrypted desc,
                     tm_max_retries =
                       (if outer = Command_Order \<and> cmd_id = 47 \<and>
                           (get_at 11 payload = Some 14 \<or> get_at 11 payload = Some 15)
                        then 1 else cd_max_retries desc),
                     tm_u_key = u_key\<rparr>)
                 (descriptor_u_key desc payload explicit_u_key)))"

section \<open>Queues\<close>

record send_item =
  si_data :: bytes
  si_cmd :: u8
  si_encrypted :: bool
  si_priority :: send_priority
  si_retry_left :: int
  si_max_retries :: int
  si_msg_num :: u64
  si_last_sent_at :: millis
  si_u_key :: unique_key

definition initial_retry_left :: "bool \<Rightarrow> int \<Rightarrow> int" where
  "initial_retry_left encrypted max_retries = (if encrypted then max (max_retries - 1) 0 else 0)"

record send_queues =
  q_sliced :: "send_item list"
  q_high :: "send_item list"
  q_low :: "send_item list"

definition send_queues_default :: send_queues where
  "send_queues_default = \<lparr>q_sliced = [], q_high = [], q_low = []\<rparr>"

text \<open>\<^verbatim>\<open>position\<close> followed by \<^verbatim>\<open>remove\<close>: the first element that satisfies the test goes.\<close>

definition push_item :: "send_item \<Rightarrow> send_item list \<Rightarrow> send_item list" where
  "push_item item queue =
     (if \<not> key_is_none (si_u_key item) \<and> si_priority item \<noteq> SP_Low
      then remove_first (\<lambda>queued. si_u_key queued = si_u_key item) queue else queue) @ [item]"

definition push_send_cmd_int :: "send_queues \<Rightarrow> send_item \<Rightarrow> send_queues" where
  "push_send_cmd_int q item =
     (case si_priority item of
        SP_Sliced \<Rightarrow> q\<lparr>q_sliced := push_item item (q_sliced q)\<rparr>
      | SP_High \<Rightarrow> q\<lparr>q_high := push_item item (q_high q)\<rparr>
      | SP_Low \<Rightarrow> q\<lparr>q_low := push_item item (q_low q)\<rparr>)"

text \<open>The three drained queues appended to the writer's lists, and the emptied state.\<close>

definition take_into ::
  "send_queues \<Rightarrow> send_item list \<Rightarrow> send_item list \<Rightarrow> send_item list
     \<Rightarrow> (send_item list \<times> send_item list \<times> send_item list) \<times> send_queues" where
  "take_into q sliced high low =
     ((sliced @ q_sliced q, high @ q_high q, low @ q_low q), send_queues_default)"

definition queues_empty :: "send_queues \<Rightarrow> bool" where
  "queues_empty q \<longleftrightarrow> q_sliced q = [] \<and> q_high q = [] \<and> q_low q = []"

section \<open>The lock state\<close>

record sliced_ack =
  ak_flags :: bytes
  ak_datagram_num :: u16
  ak_session :: u32

record send_lock_state =
  ls_send_queues :: send_queues
  ls_incoming_sliced_acks :: "sliced_ack list"
  ls_tmp_slider :: slider

definition send_lock_default :: send_lock_state where
  "send_lock_default =
     \<lparr>ls_send_queues = send_queues_default, ls_incoming_sliced_acks = [], ls_tmp_slider = slider_new\<rparr>"

definition lock_push_send_cmd_int :: "send_lock_state \<Rightarrow> send_item \<Rightarrow> send_lock_state" where
  "lock_push_send_cmd_int s item = s\<lparr>ls_send_queues := push_send_cmd_int (ls_send_queues s) item\<rparr>"

definition copy_tmp_slider :: "send_lock_state \<Rightarrow> slider option \<times> send_lock_state" where
  "copy_tmp_slider s =
     (if has_new_data (ls_tmp_slider s) then Some (ls_tmp_slider s) else None,
      s\<lparr>ls_tmp_slider := (ls_tmp_slider s)\<lparr>has_new_data := False\<rparr>\<rparr>)"

definition take_send_snapshot ::
  "send_lock_state \<Rightarrow> send_item list \<Rightarrow> send_item list \<Rightarrow> send_item list \<Rightarrow> sliced_ack list
     \<Rightarrow> ((send_item list \<times> send_item list \<times> send_item list) \<times> sliced_ack list \<times> slider option) \<times> send_lock_state" where
  "take_send_snapshot s sliced high low acks =
     (let (taken, q) = take_into (ls_send_queues s) sliced high low;
          acks = acks @ ls_incoming_sliced_acks s;
          (copied, s) = copy_tmp_slider (s\<lparr>ls_send_queues := q, ls_incoming_sliced_acks := []\<rparr>)
      in ((taken, acks, copied), s))"

definition push_sliced_ack :: "send_lock_state \<Rightarrow> sliced_ack \<Rightarrow> send_lock_state" where
  "push_sliced_ack s ack = s\<lparr>ls_incoming_sliced_acks := ls_incoming_sliced_acks s @ [ack]\<rparr>"

definition ack_words :: "bytes \<Rightarrow> nat \<Rightarrow> nat \<Rightarrow> u64 list" where
  "ack_words payload offset rc =
     map (\<lambda>i. from_le (slice (offset + i * 8) (offset + i * 8 + 8) payload)) [0..<rc]"

definition apply_ping_ack_bitmap :: "send_lock_state \<Rightarrow> bytes \<Rightarrow> nat \<Rightarrow> send_lock_state" where
  "apply_ping_ack_bitmap s payload ack_words_offset =
     (if length payload > ack_words_offset \<and> ack_words_offset \<ge> PING_SIZE
      then let srv_ack_start = from_le (slice 42 50 payload);
               ack_data_len = length payload - ack_words_offset;
               rc = min (ack_data_len div 8) 64;
               bits = ack_words payload ack_words_offset rc @ replicate (64 - rc) 0
           in s\<lparr>ls_tmp_slider := (ls_tmp_slider s)\<lparr>bit_field := bits, start_num := srv_ack_start,
                                                  has_new_data := True, r_count := int rc\<rparr>\<rparr>
      else s)"

definition reset_tmp_slider :: "send_lock_state \<Rightarrow> send_lock_state" where
  "reset_tmp_slider s = s\<lparr>ls_tmp_slider := slider_new\<rparr>"

definition lock_is_empty :: "send_lock_state \<Rightarrow> bool" where
  "lock_is_empty s \<longleftrightarrow> queues_empty (ls_send_queues s)"

section \<open>Metadata\<close>

text \<open>Every command that gets send metadata is encrypted and has a retry budget between one and
  six; the market-closing order buttons get exactly one attempt.\<close>

theorem send_metadata_bounds:
  assumes "typed_send_metadata outer payload key = Some md"
  shows "tm_encrypted md \<and> 1 \<le> tm_max_retries md \<and> tm_max_retries md \<le> 6 \<and>
    (outer = Command_Order \<and> payload ! 0 = 47 \<and> 11 < length payload \<and> payload ! 11 \<in> {14, 15}
       \<longrightarrow> tm_max_retries md = 1 \<and> initial_retry_left (tm_encrypted md) (tm_max_retries md) = 0)"
proof -
  obtain c rest d where p: "payload = c # rest" and d: "find_descriptor outer c = Some d"
    using assms by (auto simp: typed_send_metadata_def split: list.splits option.splits)
  have "row_ok d" by (rule find_descriptor_row(1) [OF d])
  moreover have "3 \<le> default_retries (cd_priority d)" by (cases "cd_priority d") simp_all
  ultimately have "cd_default_encrypted d" "3 \<le> cd_max_retries d" "cd_max_retries d \<le> 6"
    by (auto simp: row_ok_def)
  with assms d show ?thesis
    by (auto simp: typed_send_metadata_def p get_at_def initial_retry_left_def)
qed

theorem send_metadata_bounds_witness:
  "tm_max_retries (the (typed_send_metadata Command_Order [47, 4, 0, 1, 0, 0, 0, 0, 0, 0, 0, 14] None)) = 1"
proof -
  have "find_descriptor Command_Order 47 \<noteq> None" by code_simp
  moreover have "cd_unique_kind (the (find_descriptor Command_Order 47)) = UK_NONE" by code_simp
  ultimately obtain md where
    "typed_send_metadata Command_Order [47, 4, 0, 1, 0, 0, 0, 0, 0, 0, 0, 14] None = Some md"
    by (auto simp: typed_send_metadata_def descriptor_u_key_def)
  from send_metadata_bounds [OF this] this show ?thesis by simp
qed

text \<open>A unique order command without an explicit key: the descriptor's rule is the explicit one, but its
  kind is \<^const>\<open>UK_NONE\<close>, so the command is queued without a key.\<close>

text \<open>The order command falls back to no key at all when its caller gives none, although its rule
  requires an explicit key.\<close>

theorem order_command_key_fallback:
  "map_option tm_u_key (typed_send_metadata Command_Order (47 # rest) None) = Some unique_key_none
   \<and> map_option cd_ukey (find_descriptor Command_Order 47) = Some UKR_Explicit"
proof -
  have "map_option cd_unique_kind (find_descriptor Command_Order 47) = Some UK_NONE" by code_simp
  moreover have "map_option cd_ukey (find_descriptor Command_Order 47) = Some UKR_Explicit" by code_simp
  ultimately show ?thesis
    by (auto simp: typed_send_metadata_def descriptor_u_key_def)
qed

section \<open>The queues keep the latest item of every key\<close>

text \<open>The reference: an item is superseded by a later one with the same key.\<close>

definition supersedes :: "send_item \<Rightarrow> send_item \<Rightarrow> bool" where
  "supersedes y x \<longleftrightarrow> \<not> key_is_none (si_u_key y) \<and> si_u_key y = si_u_key x"

primrec latest :: "send_item list \<Rightarrow> send_item list" where
  "latest [] = []"
| "latest (x # xs) = (if \<exists>y \<in> set xs. supersedes y x then latest xs else x # latest xs)"

lemma set_latest: "set (latest xs) \<subseteq> set xs"
  by (induction xs) auto

lemma remove_first_latest:
  assumes "\<not> key_is_none k"
  shows "remove_first (\<lambda>q. si_u_key q = k) (latest xs) = filter (\<lambda>q. si_u_key q \<noteq> k) (latest xs)"
proof (induction xs)
  case (Cons x xs)
  show ?case
  proof (cases "\<exists>y \<in> set xs. supersedes y x")
    case False
    then have "\<forall>y \<in> set (latest xs). si_u_key x = k \<longrightarrow> si_u_key y \<noteq> k"
      using assms set_latest [of xs] by (fastforce simp: supersedes_def)
    then have "si_u_key x = k \<Longrightarrow> filter (\<lambda>q. si_u_key q \<noteq> k) (latest xs) = latest xs"
      by (simp add: filter_id_conv)
    with Cons False show ?thesis by simp
  qed (use Cons in simp)
qed simp

lemma latest_snoc:
  "latest (xs @ [x]) = (if key_is_none (si_u_key x) then latest xs
                        else filter (\<lambda>q. si_u_key q \<noteq> si_u_key x) (latest xs)) @ [x]"
  by (induction xs) (auto simp: supersedes_def)

lemma push_item_latest:
  "si_priority item \<noteq> SP_Low \<Longrightarrow> push_item item (latest xs) = latest (xs @ [item])"
  by (simp add: push_item_def latest_snoc remove_first_latest)

lemma push_item_low: "si_priority item = SP_Low \<Longrightarrow> push_item item xs = xs @ [item]"
  by (simp add: push_item_def)

text \<open>C26: After any sequence of pushes, the sliced and the high queue hold, in push order, exactly the
  items of their priority that no later item of the same key has replaced, and the low queue holds
  all of its items.\<close>

theorem queues_hold_latest:
  "foldl push_send_cmd_int send_queues_default items =
     \<lparr>q_sliced = latest (filter (\<lambda>i. si_priority i = SP_Sliced) items),
      q_high = latest (filter (\<lambda>i. si_priority i = SP_High) items),
      q_low = filter (\<lambda>i. si_priority i = SP_Low) items\<rparr>"
proof (induction items rule: rev_induct)
  case (snoc x xs)
  then show ?case
    by (cases "si_priority x") (simp_all add: push_send_cmd_int_def push_item_latest push_item_low)
qed (simp add: send_queues_default_def)

section \<open>The acknowledgement bitmap\<close>

lemma ack_words_concat:
  assumes "length words \<le> 64"
  shows "ack_words (hdr @ concat (map (le_bytes 8) words)) (length hdr) (length words) = words"
proof -
  have l: "length (concat (map (le_bytes 8) ws)) = 8 * length ws" for ws :: "u64 list"
    by (induction ws) auto
  have "slice (length hdr + i * 8) (length hdr + i * 8 + 8) (hdr @ concat (map (le_bytes 8) words)) =
      le_bytes 8 (words ! i)" if "i < length words" for i
  proof -
    have "concat (map (le_bytes 8) words) =
        concat (map (le_bytes 8) (take i words)) @ le_bytes 8 (words ! i) @ concat (map (le_bytes 8) (drop (Suc i) words))"
      using that by (metis concat.simps(2) concat_append id_take_nth_drop list.simps(9) map_append)
    then show ?thesis using l [of "take i words"] that by (simp add: slice_def min_def mult.commute)
  qed
  then show ?thesis
    by (intro nth_equalityI) (simp_all add: ack_words_def)
qed

lemma apply_ping_ack_words:
  assumes "words \<noteq> []" "length words \<le> 64" "PING_SIZE \<le> length hdr"
  shows "ls_tmp_slider (apply_ping_ack_bitmap s (hdr @ concat (map (le_bytes 8) words)) (length hdr)) =
    (ls_tmp_slider s)\<lparr>bit_field := words @ replicate (64 - length words) 0, start_num := from_le (slice 42 50 hdr),
       has_new_data := True, r_count := int (length words)\<rparr>"
proof -
  have l: "length (concat (map (le_bytes 8) words)) = 8 * length words"
    by (induction words) auto
  moreover have "slice 42 50 (hdr @ r) = slice 42 50 hdr" for r
    using assms(3) by (simp add: slice_def PING_SIZE_def)
  moreover have "0 < length words" using assms(1) by simp
  ultimately show ?thesis
    using assms by (simp add: apply_ping_ack_bitmap_def Let_def ack_words_concat)
qed

end
