(* ===== verification/Crypto.thy ===== *)
theory Crypto
  imports Moon_Prelude
begin

text \<open>
  Payload encryption (\<^verbatim>\<open>crypto/aes_gcm_codec.rs\<close>) and key derivation (\<^verbatim>\<open>crypto/keys.rs\<close>).

  The AES-128-GCM and SHAKE-128 primitives are external crates.  A cipher is a record of its two
  in-place operations, with the documented behaviour as the predicate \<open>aead_correct\<close>; SHAKE-128 is
  a function from the absorbed bytes and the number of bytes to squeeze.  The atomic nonce
  counter, the process-wide mask and the CPU time stamp are explicit arguments.
\<close>

section \<open>The AEAD primitive\<close>

text \<open>\<open>cph_seal nonce aad p\<close> is \<^verbatim>\<open>encrypt_in_place_detached\<close>: the ciphertext and the tag;
  \<open>cph_open nonce aad c tag\<close> is \<^verbatim>\<open>decrypt_in_place_detached\<close>.\<close>

record cipher =
  cph_seal :: "bytes \<Rightarrow> bytes \<Rightarrow> bytes \<Rightarrow> bytes \<times> bytes"
  cph_open :: "bytes \<Rightarrow> bytes \<Rightarrow> bytes \<Rightarrow> bytes \<Rightarrow> bytes option"

definition aead_correct :: "cipher \<Rightarrow> bool" where
  "aead_correct k \<longleftrightarrow>
     (\<forall>n a p. length (fst (cph_seal k n a p)) = length p \<and> length (snd (cph_seal k n a p)) = 16 \<and>
              cph_open k n a (fst (cph_seal k n a p)) (snd (cph_seal k n a p)) = Some p) \<and>
     (\<forall>n a c t p. cph_open k n a c t = Some p \<longrightarrow> length p = length c)"

section \<open>AES-GCM envelope\<close>

definition IV_SIZE :: nat where
  "IV_SIZE = 12"

definition GCM_TAG_SIZE :: nat where
  "GCM_TAG_SIZE = 16"

definition PKCS7_BLOCK_SIZE :: nat where
  "PKCS7_BLOCK_SIZE = 16"

definition MAX_PKCS7_PADDING :: nat where
  "MAX_PKCS7_PADDING = PKCS7_BLOCK_SIZE"

definition wire_iv :: "u64 \<Rightarrow> u32 \<Rightarrow> bytes" where
  "wire_iv r1 r2 = le_bytes 8 r1 @ le_bytes 4 r2"

definition pkcs7_padding_len :: "nat \<Rightarrow> nat" where
  "pkcs7_padding_len len =
     (let padding = PKCS7_BLOCK_SIZE - (len AND (PKCS7_BLOCK_SIZE - 1))
      in if padding = 0 then PKCS7_BLOCK_SIZE else padding)"

definition check_pkcs7_padding :: "bytes \<Rightarrow> nat option" where
  "check_pkcs7_padding buf =
     (if buf = [] then None
      else let padding = unat (last buf)
           in if padding = 0 \<or> padding > PKCS7_BLOCK_SIZE \<or> padding > length buf then None
              else if list_all (\<lambda>b. unat b = padding) (drop (length buf - padding) buf)
                   then Some padding else None)"

text \<open>\<open>counter\<close> is the value \<^verbatim>\<open>IV_COUNTER.fetch_add(1)\<close> returns, \<open>iv_mask\<close> the process-wide
  \<^verbatim>\<open>IV_MASK\<close>, \<open>tsc\<close> the time stamp counter.\<close>

definition encrypt_iv :: "u64 \<Rightarrow> u64 \<Rightarrow> u64 \<Rightarrow> bytes" where
  "encrypt_iv iv_mask counter tsc = wire_iv (counter XOR iv_mask) (ucast (tsc AND 0xFFFFFFFF))"

definition encrypt_with_cipher :: "cipher \<Rightarrow> u64 \<Rightarrow> u64 \<Rightarrow> u64 \<Rightarrow> bytes \<Rightarrow> bytes \<Rightarrow> bytes" where
  "encrypt_with_cipher k iv_mask counter tsc plaintext aad =
     (let iv = encrypt_iv iv_mask counter tsc;
          padding = pkcs7_padding_len (length plaintext);
          padded = plaintext @ replicate padding (of_nat padding);
          (ct, tag) = cph_seal k iv aad padded
      in iv @ tag @ ct)"

definition decrypt_with_cipher :: "cipher \<Rightarrow> bytes \<Rightarrow> bytes \<Rightarrow> bytes option" where
  "decrypt_with_cipher k data aad =
     (if length data < IV_SIZE + GCM_TAG_SIZE then None
      else let iv = slice 0 IV_SIZE data;
               tag = slice IV_SIZE (IV_SIZE + GCM_TAG_SIZE) data;
               ciphertext = drop (IV_SIZE + GCM_TAG_SIZE) data
           in if ciphertext = [] then None
              else case cph_open k iv aad ciphertext tag of
                     None \<Rightarrow> None
                   | Some buf \<Rightarrow>
                       (case check_pkcs7_padding buf of
                          None \<Rightarrow> None
                        | Some padding \<Rightarrow> Some (take (length buf - padding) buf)))"

text \<open>\<^verbatim>\<open>decrypt_in_place\<close>: the buffer is rewritten behind the IV and the tag, and the range of the
  plaintext in it is returned.  On failure the source leaves unspecified bytes behind, which no
  caller reads; only the successful buffer is returned here.\<close>

definition decrypt_in_place :: "cipher \<Rightarrow> bytes \<Rightarrow> bytes \<Rightarrow> (bytes \<times> nat \<times> nat) option" where
  "decrypt_in_place k data aad =
     (let offset = IV_SIZE + GCM_TAG_SIZE
      in if length data \<le> offset then None
         else let header = take offset data; ciphertext = drop offset data;
                  iv = take IV_SIZE header; tag = drop IV_SIZE header
              in case cph_open k iv aad ciphertext tag of
                   None \<Rightarrow> None
                 | Some plain \<Rightarrow>
                     (case check_pkcs7_padding plain of
                        None \<Rightarrow> None
                      | Some padding \<Rightarrow>
                          Some (header @ plain, offset, offset + length ciphertext - padding)))"

section \<open>Key derivation\<close>

definition KEY_LEN :: nat where
  "KEY_LEN = 16"

definition XOR_CONST_ENCODE :: u64 where
  "XOR_CONST_ENCODE = 0xE59DA7C3B8D49E25"

definition XOR_CONST_DECODE :: u64 where
  "XOR_CONST_DECODE = 0xA3DE5C49E365A5D7"

definition ACK_SESSION_SALT :: u64 where
  "ACK_SESSION_SALT = 0x31535345534B4341"

definition OBFUSCATION_KEY_TOKEN :: u64 where
  "OBFUSCATION_KEY_TOKEN = 0x4F42465553434154"

text \<open>Rounds 2 to 5 of both key generators: hash the previous output again and fold it in.\<close>

primrec xor_fold_rounds :: "(bytes \<Rightarrow> nat \<Rightarrow> bytes) \<Rightarrow> bytes \<Rightarrow> nat \<Rightarrow> bytes \<Rightarrow> bytes \<Rightarrow> bytes" where
  "xor_fold_rounds shake first 0 tmp result = result"
| "xor_fold_rounds shake first (Suc n) tmp result =
     (let tmp' = shake (first @ tmp) KEY_LEN
      in xor_fold_rounds shake first n tmp' (map2 (XOR) result tmp'))"

definition generate_sub_key :: "(bytes \<Rightarrow> nat \<Rightarrow> bytes) \<Rightarrow> bytes \<Rightarrow> u64 \<Rightarrow> bytes" where
  "generate_sub_key shake master_key token =
     (let tmp = shake (master_key @ le_bytes 8 token) KEY_LEN
      in xor_fold_rounds shake master_key 4 tmp tmp)"

definition generate_session_sub_key ::
  "(bytes \<Rightarrow> nat \<Rightarrow> bytes) \<Rightarrow> bytes \<Rightarrow> u64 \<Rightarrow> u64 \<Rightarrow> bytes \<Rightarrow> u64 \<Rightarrow> bytes" where
  "generate_session_sub_key shake master_key client_id server_token session_rnd direction_token =
     (let tmp = shake (master_key @ le_bytes 8 client_id @ le_bytes 8 server_token @ session_rnd @
                       le_bytes 8 direction_token) KEY_LEN
      in xor_fold_rounds shake master_key 4 tmp tmp)"

definition generate_session_sub_keys ::
  "(bytes \<Rightarrow> nat \<Rightarrow> bytes) \<Rightarrow> bytes \<Rightarrow> u64 \<Rightarrow> u64 \<Rightarrow> bytes \<Rightarrow> bytes \<times> bytes" where
  "generate_session_sub_keys shake master_key client_id server_token session_rnd =
     (let key_true = generate_session_sub_key shake master_key client_id server_token session_rnd
                       XOR_CONST_ENCODE;
          key_false = generate_session_sub_key shake master_key client_id server_token session_rnd
                        XOR_CONST_DECODE
      in (key_false, key_true))"

definition fold_key :: "bytes \<Rightarrow> u64" where
  "fold_key sk = from_le (slice 0 8 sk) + from_le (slice 8 16 sk)"

definition ack_session32 :: "(bytes \<Rightarrow> nat \<Rightarrow> bytes) \<Rightarrow> bytes \<Rightarrow> u64 \<Rightarrow> u64 \<Rightarrow> bytes \<Rightarrow> u32" where
  "ack_session32 shake mac_key client_id server_token session_rnd =
     (if server_token = 0 then 0
      else ucast (fold_key (generate_session_sub_key shake mac_key client_id server_token session_rnd
                              ACK_SESSION_SALT)))"

definition derive_obfuscation_key :: "(bytes \<Rightarrow> nat \<Rightarrow> bytes) \<Rightarrow> bytes \<Rightarrow> bytes" where
  "derive_obfuscation_key shake mac_key = generate_sub_key shake mac_key OBFUSCATION_KEY_TOKEN"

definition calculate_hello_again_peer_mix ::
  "(bytes \<Rightarrow> nat \<Rightarrow> bytes) \<Rightarrow> bytes \<Rightarrow> u64 \<Rightarrow> u64 \<Rightarrow> bytes \<Rightarrow> u64" where
  "calculate_hello_again_peer_mix shake rnd mix_ts server_token session_rnd =
     fold_key (shake (rnd @ le_bytes 8 mix_ts @ le_bytes 8 server_token @ session_rnd) KEY_LEN)"

section \<open>Envelope properties\<close>

lemmas crypto_sizes = IV_SIZE_def GCM_TAG_SIZE_def PKCS7_BLOCK_SIZE_def MAX_PKCS7_PADDING_def

lemma pkcs7_padding_eq: "pkcs7_padding_len n = 16 - n mod 16"
proof -
  have "n AND 15 = n mod 16"
    using take_bit_eq_mask [of 4 n] by (simp add: take_bit_eq_mod mask_eq_exp_minus_1)
  then show ?thesis
    by (simp add: pkcs7_padding_len_def PKCS7_BLOCK_SIZE_def Let_def)
qed

lemma pkcs7_padding_bounds: "1 \<le> pkcs7_padding_len n" "pkcs7_padding_len n \<le> 16"
  by (simp_all add: pkcs7_padding_eq Suc_le_eq)

lemma pkcs7_padded_aligned: "(n + pkcs7_padding_len n) mod 16 = 0"
proof -
  have "n + pkcs7_padding_len n = 16 * (n div 16) + 16"
    unfolding pkcs7_padding_eq using mod_less_divisor [of 16 n] div_mult_mod_eq [of n 16] by linarith
  then show ?thesis by simp
qed

lemma check_pkcs7_padded:
  assumes "1 \<le> p" "p \<le> 16"
  shows "check_pkcs7_padding (xs @ replicate p (of_nat p)) = Some p"
proof -
  have "unat (of_nat p :: byte) = p"
    using assms by (simp add: unat_of_nat)
  then show ?thesis
    using assms
    by (auto simp: check_pkcs7_padding_def Let_def PKCS7_BLOCK_SIZE_def list_all_iff last_append)
qed

lemma check_pkcs7_le: "check_pkcs7_padding buf = Some p \<Longrightarrow> p \<le> length buf \<and> 1 \<le> p"
  by (auto simp: check_pkcs7_padding_def Let_def split: if_splits)

lemma length_wire_iv [simp]: "length (wire_iv a b) = 12"
  by (simp add: wire_iv_def)

lemma length_encrypt_iv [simp]: "length (encrypt_iv m c t) = 12"
  by (simp add: encrypt_iv_def)

lemma length_encrypt_with_cipher:
  "aead_correct k \<Longrightarrow> length (encrypt_with_cipher k m c t p a) = 28 + length p + pkcs7_padding_len (length p)"
  by (simp add: encrypt_with_cipher_def Let_def case_prod_unfold aead_correct_def)

lemma envelope_decrypts:
  assumes "aead_correct k"
  shows "decrypt_with_cipher k (encrypt_with_cipher k iv_mask counter tsc plaintext aad) aad = Some plaintext"
proof -
  let ?p = "pkcs7_padding_len (length plaintext)"
  let ?buf = "plaintext @ replicate ?p (of_nat ?p)"
  let ?iv = "encrypt_iv iv_mask counter tsc"
  obtain ct tag where s: "cph_seal k ?iv aad ?buf = (ct, tag)"
    by (cases "cph_seal k ?iv aad ?buf")
  have k: "length ct = length ?buf" "length tag = 16" "cph_open k ?iv aad ct tag = Some ?buf"
    using assms [unfolded aead_correct_def, THEN conjunct1, rule_format, of ?iv aad ?buf] s by simp_all
  then have "ct \<noteq> []"
    using pkcs7_padding_bounds(1) [of "length plaintext"] by auto
  with k s show ?thesis
    by (simp add: encrypt_with_cipher_def decrypt_with_cipher_def Let_def crypto_sizes slice_def
          check_pkcs7_padded [OF pkcs7_padding_bounds])
qed

text \<open>C25: The AES-GCM envelope round trip: with any correct AEAD, any nonce material and any
  associated data, decryption of an encrypted payload returns exactly that payload, including the
  empty one and payloads that are already a multiple of the block size; behind the 28 bytes of IV
  and tag, the ciphertext is block-aligned as the peer's implementation requires.\<close>

theorem envelope_roundtrip:
  assumes "aead_correct k"
  shows "decrypt_with_cipher k (encrypt_with_cipher k iv_mask counter tsc plaintext aad) aad = Some plaintext
     \<and> length (encrypt_with_cipher k iv_mask counter tsc plaintext aad) mod 16 = 12"
proof -
  have "length (encrypt_with_cipher k iv_mask counter tsc plaintext aad)
          = 28 + (length plaintext + pkcs7_padding_len (length plaintext))"
    using length_encrypt_with_cipher [OF assms] by simp
  moreover have "(28 + (length plaintext + pkcs7_padding_len (length plaintext))) mod 16 = 12"
  proof -
    obtain q where "length plaintext + pkcs7_padding_len (length plaintext) = 16 * q"
      using pkcs7_padded_aligned [of "length plaintext"] by (auto simp: mod_eq_0_iff_dvd elim: dvdE)
    then show ?thesis by simp
  qed
  ultimately show ?thesis using envelope_decrypts [OF assms] by simp
qed

text \<open>A cipher that satisfies the hypothesis: the identity with a constant tag.\<close>

definition null_cipher :: cipher where
  "null_cipher = \<lparr>cph_seal = (\<lambda>n a p. (p, replicate 16 7)),
                  cph_open = (\<lambda>n a c t. if t = replicate 16 7 then Some c else None)\<rparr>"

lemma null_cipher_correct: "aead_correct null_cipher"
  by (simp add: aead_correct_def null_cipher_def)

theorem envelope_roundtrip_witness:
  "decrypt_with_cipher null_cipher (encrypt_with_cipher null_cipher 9 1 5 [1, 2, 3] []) [] = Some [1, 2, 3]"
  using envelope_roundtrip [OF null_cipher_correct, of 9 1 5 "[1, 2, 3]" "[]"] by (rule conjunct1)

lemma decrypt_in_place_eq:
  assumes "aead_correct k"
  shows "map_option (\<lambda>(buf, a, b). slice a b buf) (decrypt_in_place k data aad) = decrypt_with_cipher k data aad"
proof -
  have len: "cph_open k n a c t = Some p \<Longrightarrow> length p = length c" for n a c t p
    using assms by (auto simp: aead_correct_def)
  show ?thesis
    by (auto simp: decrypt_in_place_def decrypt_with_cipher_def Let_def crypto_sizes slice_def
          take_drop min_def add.commute split: option.splits dest!: len check_pkcs7_le)
qed

text \<open>Nonces never repeat.  The first 64 bits of a nonce are the counter under a fixed mask, so
  as long as the counter has not wrapped, two encryptions of one process never use the same nonce,
  whatever the time stamps are.\<close>

theorem nonces_distinct:
  assumes "c1 \<noteq> c2"
  shows "encrypt_iv iv_mask c1 t1 \<noteq> encrypt_iv iv_mask c2 t2"
proof
  assume "encrypt_iv iv_mask c1 t1 = encrypt_iv iv_mask c2 t2"
  then have "le_bytes 8 (c1 XOR iv_mask) = le_bytes 8 (c2 XOR iv_mask)"
    by (simp add: encrypt_iv_def wire_iv_def)
  then have "c1 XOR iv_mask = c2 XOR iv_mask"
    by (auto dest: arg_cong [where f = "from_le :: bytes \<Rightarrow> u64"])
  then have "(c1 XOR iv_mask) XOR iv_mask = (c2 XOR iv_mask) XOR iv_mask" by (rule arg_cong)
  then have "c1 = c2" by (simp add: xor.assoc)
  with assms show False by simp
qed

theorem nonces_distinct_witness: "encrypt_iv 0xABCD 1 77 \<noteq> encrypt_iv 0xABCD 2 77"
  by (rule nonces_distinct) simp

section \<open>Key properties\<close>

lemma length_xor_fold_rounds:
  "(\<And>m n. length (shake m n) = n) \<Longrightarrow> length result = KEY_LEN \<Longrightarrow>
     length (xor_fold_rounds shake first n tmp result) = KEY_LEN"
  by (induction n arbitrary: tmp result) (simp_all add: Let_def)

lemma length_derive_obfuscation_key:
  "(\<And>m n. length (shake m n) = n) \<Longrightarrow> length (derive_obfuscation_key shake key) = 16"
  using length_xor_fold_rounds [of shake]
  by (simp add: derive_obfuscation_key_def generate_sub_key_def Let_def KEY_LEN_def)

lemma session_keys_roles:
  "generate_session_sub_keys shake mk cid tok rnd =
     (generate_session_sub_key shake mk cid tok rnd XOR_CONST_DECODE,
      generate_session_sub_key shake mk cid tok rnd XOR_CONST_ENCODE)"
  by (simp add: generate_session_sub_keys_def Let_def)

end
