(* ===== verification/Crypted.thy ===== *)
theory Crypted
  imports Crypto Slider Wire
begin

text \<open>
  The \<^verbatim>\<open>MPC_Crypted\<close> envelope (\<^verbatim>\<open>protocol/crypted.rs\<close>): the 12-byte crypto header in front of an
  encrypted command, decryption with and without replay protection, on a borrowed slice and in
  place, and the header the sending side (\<^verbatim>\<open>client/protocol_direct_send.rs\<close>,
  \<^verbatim>\<open>client/protocol_sliced_send.rs\<close>) writes.
\<close>

section \<open>Model\<close>

definition CRYPTO_HEADER_SIZE :: nat where
  "CRYPTO_HEADER_SIZE = 12"

record crypto_header =
  cr_rnd :: u16
  cr_msg_num :: u64
  cr_cmd :: u8
  cr_want_ack :: bool

definition crypto_header_from_bytes :: "bytes \<Rightarrow> crypto_header option" where
  "crypto_header_from_bytes data =
     (if length data < CRYPTO_HEADER_SIZE then None
      else Some \<lparr>cr_rnd = from_le (slice 0 2 data), cr_msg_num = from_le (slice 2 10 data),
                 cr_cmd = data ! 10, cr_want_ack = (data ! 11 \<noteq> 0)\<rparr>)"

text \<open>The sender's header: 12 zero bytes into which number, command and the acknowledgement wish
  are copied.\<close>

definition crypto_hdr_bytes :: "u16 \<Rightarrow> u64 \<Rightarrow> u8 \<Rightarrow> bool \<Rightarrow> bytes" where
  "crypto_hdr_bytes rnd msg_num cmd want_ack =
     (overwrite 2 (le_bytes 8 msg_num) (overwrite 0 (le_bytes 2 rnd) (replicate 12 0)))
       [10 := cmd, 11 := (if want_ack then 1 else 0)]"

definition decrypt_command_no_replay :: "cipher \<Rightarrow> bytes \<Rightarrow> (crypto_header \<times> bytes) option" where
  "decrypt_command_no_replay k encrypted_data =
     (case decrypt_with_cipher k encrypted_data [] of
        None \<Rightarrow> None
      | Some plaintext \<Rightarrow>
          (if length plaintext < CRYPTO_HEADER_SIZE then None
           else case crypto_header_from_bytes plaintext of
                  None \<Rightarrow> None
                | Some hdr \<Rightarrow> Some (hdr, plaintext)))"

definition decrypt_command :: "cipher \<Rightarrow> bytes \<Rightarrow> slider \<Rightarrow> (u8 \<times> bytes \<times> bool) option \<times> slider" where
  "decrypt_command k encrypted_data s =
     (case decrypt_command_no_replay k encrypted_data of
        None \<Rightarrow> (None, s)
      | Some (hdr, plaintext) \<Rightarrow>
          (let (is_new, s1) = check_revd s (cr_msg_num hdr)
           in if \<not> is_new then (None, s1)
              else (Some (cr_cmd hdr, drop CRYPTO_HEADER_SIZE plaintext, cr_want_ack hdr), s1)))"

definition decrypt_command_owned ::
  "cipher \<Rightarrow> payload \<Rightarrow> slider \<Rightarrow> (u8 \<times> payload \<times> bool) option \<times> slider" where
  "decrypt_command_owned k p s =
     (case decrypt_in_place k (payload_deref p) [] of
        None \<Rightarrow> (None, s)
      | Some (buf, a, b) \<Rightarrow>
          (case payload_restrict (p\<lparr>pl_bytes := take (pl_start p) (pl_bytes p) @ buf\<rparr>) a b of
             None \<Rightarrow> (None, s)
           | Some q \<Rightarrow>
               (if length (payload_deref q) < CRYPTO_HEADER_SIZE then (None, s)
                else case crypto_header_from_bytes (payload_deref q) of
                       None \<Rightarrow> (None, s)
                     | Some hdr \<Rightarrow>
                         (let (is_new, s1) = check_revd s (cr_msg_num hdr)
                          in if \<not> is_new then (None, s1)
                             else (map_option (\<lambda>r. (cr_cmd hdr, r, cr_want_ack hdr))
                                     (payload_restrict q CRYPTO_HEADER_SIZE (length (payload_deref q))), s1)))))"

section \<open>Properties\<close>

lemma crypto_hdr_bytes_eq:
  "crypto_hdr_bytes rnd n cmd want =
     le_bytes 2 rnd @ le_bytes 8 n @ [cmd, if want then 1 else 0]"
proof -
  have "overwrite 2 (le_bytes 8 n) (overwrite 0 (le_bytes 2 rnd) (replicate 12 0)) =
      (le_bytes 2 rnd @ le_bytes 8 n) @ [0, 0]"
    by (simp add: overwrite_def numeral_eq_Suc)
  then show ?thesis
    unfolding crypto_hdr_bytes_def by (simp add: list_update_append)
qed

lemma length_crypto_hdr_bytes [simp]: "length (crypto_hdr_bytes rnd n cmd want) = 12"
  by (simp add: crypto_hdr_bytes_eq)

lemma crypto_header_roundtrip:
  "crypto_header_from_bytes (crypto_hdr_bytes rnd n cmd want @ data) =
     Some \<lparr>cr_rnd = rnd, cr_msg_num = n, cr_cmd = cmd, cr_want_ack = want\<rparr>"
  by (auto simp: crypto_hdr_bytes_eq crypto_header_from_bytes_def CRYPTO_HEADER_SIZE_def slice_def nth_append)

text \<open>The message numbers that authenticate, in arrival order.\<close>

definition auth_nums :: "cipher \<Rightarrow> bytes list \<Rightarrow> u64 list" where
  "auth_nums k packets = map (cr_msg_num \<circ> fst) (List.map_filter (decrypt_command_no_replay k) packets)"

primrec decrypt_run :: "cipher \<Rightarrow> slider \<Rightarrow> bytes list \<Rightarrow> bytes list \<times> slider" where
  "decrypt_run k s [] = ([], s)"
| "decrypt_run k s (p # ps) =
     (let (r, s1) = decrypt_command k p s; (acc, s2) = decrypt_run k s1 ps
      in (if r = None then acc else p # acc, s2))"

lemma decrypt_run_filter:
  "map (\<lambda>p. cr_msg_num (fst (the (decrypt_command_no_replay k p)))) (fst (decrypt_run k s ps)) =
     fst (filter_run check_revd s (auth_nums k ps)) \<and>
   snd (decrypt_run k s ps) = snd (filter_run check_revd s (auth_nums k ps))"
proof (induction ps arbitrary: s)
  case (Cons p ps)
  show ?case
  proof (cases "decrypt_command_no_replay k p")
    case None
    with Cons show ?thesis
      by (simp add: auth_nums_def decrypt_command_def map_filter_simps Let_def case_prod_unfold)
  next
    case (Some r)
    then show ?thesis
      using Cons [of "snd (check_revd s (cr_msg_num (fst r)))"]
      by (simp add: auth_nums_def decrypt_command_def map_filter_simps Let_def case_prod_unfold)
  qed
qed (simp add: auth_nums_def map_filter_simps)

lemma decrypt_run_delivered:
  "p \<in> set (fst (decrypt_run k s ps)) \<Longrightarrow> p \<in> set ps \<and> decrypt_command_no_replay k p \<noteq> None"
proof (induction ps arbitrary: s)
  case (Cons q ps)
  have "fst (decrypt_command k q s) \<noteq> None \<Longrightarrow> decrypt_command_no_replay k q \<noteq> None"
    by (auto simp: decrypt_command_def split: option.splits)
  with Cons.IH [of "snd (decrypt_command k q s)"] Cons.prems show ?case
    by (auto simp: Let_def case_prod_unfold split: if_splits)
qed simp

text \<open>Replay protection of the encrypted channel.  For any cipher and any sequence of encrypted
  packets (duplicates, replays, forgeries, in any order), the commands delivered from a fresh
  session all passed authentication and carry pairwise different message numbers.\<close>

theorem crypted_no_replay:
  "distinct (map (\<lambda>p. cr_msg_num (fst (the (decrypt_command_no_replay k p)))) (fst (decrypt_run k slider_new ps)))
   \<and> list_all (\<lambda>p. decrypt_command_no_replay k p \<noteq> None) (fst (decrypt_run k slider_new ps))"
  using slider_filter.run_accepts_once [OF slider_new_wf, of "auth_nums k ps"]
  by (auto simp: decrypt_run_filter list_all_iff dest: decrypt_run_delivered)

lemma payload_rewrite:
  assumes "length buf = length (payload_deref p)" "pl_start p \<le> length (pl_bytes p)" "a \<le> b" "b \<le> length buf"
  shows "\<exists>q. payload_restrict (p\<lparr>pl_bytes := take (pl_start p) (pl_bytes p) @ buf\<rparr>) a b = Some q
             \<and> payload_deref q = slice a b buf"
  using assms by (auto simp: payload_restrict_def payload_deref_def slice_def take_drop add.commute)

lemma decrypt_in_place_shape:
  assumes "aead_correct k" "decrypt_in_place k data aad = Some (buf, a, b)"
  shows "length buf = length data" "a \<le> b" "b \<le> length buf"
proof -
  have len: "cph_open k n x c t = Some p \<Longrightarrow> length p = length c" for n x c t p
    using assms(1) by (auto simp: aead_correct_def)
  show "length buf = length data" "a \<le> b" "b \<le> length buf"
    using assms(2)
    by (auto simp: decrypt_in_place_def Let_def crypto_sizes split: option.splits if_splits
          dest!: len check_pkcs7_le)
qed

lemma payload_restrict_tail:
  "n \<le> length (payload_deref q) \<Longrightarrow>
     \<exists>r. payload_restrict q n (length (payload_deref q)) = Some r \<and> payload_deref r = drop n (payload_deref q)"
  by (auto simp: payload_restrict_def payload_deref_def add.commute)

text \<open>The in-place decryption of owned buffers agrees with the allocating one.\<close>

lemma decrypt_owned_same:
  assumes "aead_correct k" "pl_start p \<le> length (pl_bytes p)"
  shows "map_option (\<lambda>(c, q, w). (c, payload_deref q, w)) (fst (decrypt_command_owned k p s)) =
           fst (decrypt_command k (payload_deref p) s)
       \<and> snd (decrypt_command_owned k p s) = snd (decrypt_command k (payload_deref p) s)"
proof (cases "decrypt_in_place k (payload_deref p) []")
  case None
  then show ?thesis
    using decrypt_in_place_eq [OF assms(1), of "payload_deref p" "[]"]
    by (simp add: decrypt_command_owned_def decrypt_command_def decrypt_command_no_replay_def)
next
  case (Some r)
  then obtain buf a b where r: "decrypt_in_place k (payload_deref p) [] = Some (buf, a, b)"
    by (cases r) auto
  obtain q where q: "payload_restrict (p\<lparr>pl_bytes := take (pl_start p) (pl_bytes p) @ buf\<rparr>) a b = Some q"
      "payload_deref q = slice a b buf"
    using payload_rewrite [OF _ assms(2)] decrypt_in_place_shape [OF assms(1) r] by metis
  have d: "decrypt_with_cipher k (payload_deref p) [] = Some (payload_deref q)"
    using decrypt_in_place_eq [OF assms(1), of "payload_deref p" "[]"] r q(2) by simp
  show ?thesis
  proof (cases "length (payload_deref q) < CRYPTO_HEADER_SIZE")
    case False
    then obtain x where x: "payload_restrict q CRYPTO_HEADER_SIZE (length (payload_deref q)) = Some x"
        "payload_deref x = drop CRYPTO_HEADER_SIZE (payload_deref q)"
      using payload_restrict_tail [of CRYPTO_HEADER_SIZE q] by auto
    with False d r q show ?thesis
      by (auto simp: decrypt_command_owned_def decrypt_command_def decrypt_command_no_replay_def
            crypto_header_from_bytes_def Let_def case_prod_unfold)
  qed (use d r q in \<open>simp add: decrypt_command_owned_def decrypt_command_def decrypt_command_no_replay_def\<close>)
qed

text \<open>C15: Delivery on the encrypted channel.  A command sealed by the sender with a message number the
  window does not block is delivered with exactly its command byte, payload and acknowledgement
  wish.\<close>

theorem crypted_delivery:
  assumes "aead_correct k" "slider_wf s" "\<not> slider_blocked s n"
  shows "fst (decrypt_command k (encrypt_with_cipher k iv_mask counter tsc (crypto_hdr_bytes rnd n cmd want @ data) []) s)
           = Some (cmd, data, want)"
  using check_revd_spec(1) [OF assms(2), of n] assms(3)
  by (simp add: decrypt_command_def decrypt_command_no_replay_def envelope_decrypts [OF assms(1)]
        crypto_header_roundtrip CRYPTO_HEADER_SIZE_def Let_def case_prod_unfold)

theorem crypted_delivery_witness:
  "fst (decrypt_command null_cipher (encrypt_with_cipher null_cipher 3 1 2 (crypto_hdr_bytes 5 2048 28 True @ [9, 8]) []) slider_new)
     = Some (28, [9, 8], True)"
  by (rule crypted_delivery) (simp_all add: null_cipher_correct)

end
