(* ===== verification/Compression.thy ===== *)
theory Compression
  imports Moon_Prelude
begin

text \<open>
  SynLZ compression and decompression (\<^verbatim>\<open>compression.rs\<close>), the run-length second pass, and the
  size policy of \<^verbatim>\<open>mp_compress\<close>.

  The thread-local scratch tables are reset before every call, so they are initial values here: the
  decoder's offsets start at 0, the encoder's at \<^const>\<open>None\<close> (the sentinel \<^verbatim>\<open>usize::MAX\<close>) and its
  cache at 0.  The output buffer of the decoder is the zero-filled vector of the source, written by
  index; every index the model uses is guarded as in the source.
\<close>

section \<open>Model\<close>

definition MAX_DECOMPRESSED_SIZE :: nat where
  "MAX_DECOMPRESSED_SIZE = 512 * 1024 * 1024"

definition read_u32 :: "bytes \<Rightarrow> nat \<Rightarrow> u32" where
  "read_u32 bs p = from_le (slice p (p + 4) bs)"

text \<open>\<^verbatim>\<open>((v >> 12) ^ v) as usize & 4095\<close>\<close>

definition synlz_hash :: "u32 \<Rightarrow> nat" where
  "synlz_hash v = unat ((drop_bit 12 v XOR v) AND 4095)"

subsection \<open>Decoder\<close>

datatype decompress_result = DOk nat | Corrupt

text \<open>One hash-table update at position \<open>lh\<close>.\<close>

definition hash_at :: "bytes \<Rightarrow> nat \<Rightarrow> (nat \<Rightarrow> nat) \<Rightarrow> (nat \<Rightarrow> nat)" where
  "hash_at dst lh off = (if lh + 4 \<le> length dst then off(synlz_hash (read_u32 dst lh) := lh) else off)"

text \<open>The single update after a literal, and the catch-up loop after a back-reference
  (\<^verbatim>\<open>while last_hashed < target\<close>).\<close>

definition hash_literal :: "bytes \<Rightarrow> nat \<Rightarrow> int \<Rightarrow> (nat \<Rightarrow> nat) \<Rightarrow> int \<times> (nat \<Rightarrow> nat)" where
  "hash_literal dst dst_pos last_hashed off =
     (if last_hashed < int dst_pos - 3 then (last_hashed + 1, hash_at dst (nat (last_hashed + 1)) off)
      else (last_hashed, off))"

definition hash_upto :: "bytes \<Rightarrow> nat \<Rightarrow> int \<Rightarrow> (nat \<Rightarrow> nat) \<Rightarrow> (nat \<Rightarrow> nat)" where
  "hash_upto dst target last_hashed off = fold (hash_at dst) [nat (last_hashed + 1)..<target + 1] off"

text \<open>\<^verbatim>\<open>MoveByOne\<close>: the copy is byte by byte, so it may read bytes it has just written; when the
  ranges do not overlap this is \<^verbatim>\<open>copy_within\<close>.\<close>

primrec move_by_one :: "nat \<Rightarrow> nat \<Rightarrow> nat \<Rightarrow> bytes \<Rightarrow> bytes" where
  "move_by_one copy_from dst_pos 0 dst = dst"
| "move_by_one copy_from dst_pos (Suc t) dst =
     (let dst' = move_by_one copy_from dst_pos t dst in dst'[dst_pos + t := dst' ! (copy_from + t)])"

definition copy_match :: "nat \<Rightarrow> nat \<Rightarrow> nat \<Rightarrow> bytes \<Rightarrow> bytes" where
  "copy_match copy_from dst_pos t dst =
     (if dst_pos - copy_from < t then move_by_one copy_from dst_pos t dst
      else overwrite dst_pos (slice copy_from (copy_from + t) dst) dst)"

function synlz_tokens and synlz_outer where
  "synlz_tokens src out_size cw cwbit pos dst dst_pos last_hashed off =
     (if pos \<ge> length src then (DOk dst_pos, dst)
      else if cw AND cwbit = (0 :: u32)
      then if dst_pos \<ge> out_size then (DOk dst_pos, dst)
           else let dst = dst[dst_pos := src ! pos]; pos = pos + 1; dst_pos = dst_pos + 1
                in if pos \<ge> length src then (DOk dst_pos, dst)
                   else let (last_hashed, off) = hash_literal dst dst_pos last_hashed off;
                            cwbit = push_bit 1 cwbit
                        in if cwbit = 0 then synlz_outer src out_size pos dst dst_pos last_hashed off
                           else synlz_tokens src out_size cw cwbit pos dst dst_pos last_hashed off
      else if pos + 2 > length src then (DOk dst_pos, dst)
      else let h_word = from_le (slice pos (pos + 2) src) :: u16;
               t0 = unat (h_word AND 15) + 2;
               pos2 = pos + 2
           in if t0 = 2 \<and> pos2 \<ge> length src then (DOk dst_pos, dst)
              else let (t, pos3) = (if t0 = 2 then (unat (src ! pos2) + 18, pos2 + 1) else (t0, pos2));
                       copy_from = off (unat (drop_bit 4 h_word))
                   in if dst_pos + t > out_size then (Corrupt, dst)
                      else if copy_from + t > length dst \<or> copy_from > dst_pos then (Corrupt, dst)
                      else let dst = copy_match copy_from dst_pos t dst
                           in if pos3 \<ge> length src then (DOk dst_pos, dst)
                              else let off = hash_upto dst dst_pos last_hashed off;
                                       dst_pos = dst_pos + t;
                                       last_hashed = int dst_pos - 1;
                                       cwbit = push_bit 1 cwbit
                                   in if cwbit = 0
                                      then synlz_outer src out_size pos3 dst dst_pos last_hashed off
                                      else synlz_tokens src out_size cw cwbit pos3 dst dst_pos last_hashed off)"
| "synlz_outer src out_size pos dst dst_pos last_hashed off =
     (if pos + 4 \<le> length src
      then synlz_tokens src out_size (read_u32 src pos) 1 (pos + 4) dst dst_pos last_hashed off
      else (DOk dst_pos, dst))"
  by pat_completeness auto
termination
  by (relation "measure (\<lambda>x. case x of
        Inl (src, _, _, _, pos, _) \<Rightarrow> length src - pos
      | Inr (src, _, pos, _) \<Rightarrow> length src - pos)")
    (auto split: if_splits)

declare synlz_tokens.simps [simp del] synlz_outer.simps [simp del]

definition synlz_decompress_bounded :: "bytes \<Rightarrow> nat \<Rightarrow> bytes option" where
  "synlz_decompress_bounded src max_output =
     (if length src < 2 then None
      else let first_word = from_le (slice 0 2 src) :: u16
           in if first_word = 0 then Some []
              else if first_word AND 0x8000 \<noteq> 0 \<and> length src < 4 then None
              else let (out_size, pos) =
                     (if first_word AND 0x8000 \<noteq> 0
                      then (unat (first_word AND 0x7FFF) + unat (from_le (slice 2 4 src) :: u16) * 2 ^ 15, 4)
                      else (unat first_word, 2))
                   in if out_size > max_output then None
                      else case synlz_outer src out_size pos (replicate out_size 0) 0 (- 1) (\<lambda>_. 0) of
                             (DOk final_pos, dst) \<Rightarrow> Some (take (min final_pos out_size) dst)
                           | (Corrupt, _) \<Rightarrow> None)"

definition synlz_decompress :: "bytes \<Rightarrow> bytes option" where
  "synlz_decompress src = synlz_decompress_bounded src MAX_DECOMPRESSED_SIZE"

definition mp_decompress :: "bytes \<Rightarrow> bytes option" where
  "mp_decompress data = synlz_decompress data"

subsection \<open>Run-length pass\<close>

text \<open>\<^verbatim>\<open>read_var_u32\<close>: up to five groups of seven bits, \<open>i\<close> being \<^verbatim>\<open>shift / 7\<close>; \<open>n\<close> groups are left.\<close>

primrec read_var_u32_from :: "bytes \<Rightarrow> nat \<Rightarrow> nat \<Rightarrow> u32 \<Rightarrow> (u32 \<times> nat) option" where
  "read_var_u32_from data i 0 value = None"
| "read_var_u32_from data i (Suc n) value =
     (if i \<ge> length data then None
      else let byte = data ! i; shift = 7 * i
           in if shift = 28 \<and> byte > 0x0f then None
              else let value = value OR push_bit shift (ucast (byte AND 0x7f))
                   in if byte AND 0x80 = 0 then Some (value, i + 1)
                      else read_var_u32_from data (i + 1) n value)"

definition read_var_u32 :: "bytes \<Rightarrow> (u32 \<times> nat) option" where
  "read_var_u32 data = read_var_u32_from data 0 5 0"

definition RLE_CONTROL :: byte where
  "RLE_CONTROL = 0x5a"

fun rle_loop :: "bytes \<Rightarrow> nat \<Rightarrow> bytes \<Rightarrow> bytes option" where
  "rle_loop [] expected_len out = Some out"
| "rle_loop (value # rest) expected_len out =
     (if value \<noteq> RLE_CONTROL
      then if length out = expected_len then None
           else rle_loop rest expected_len (out @ [value])
      else case rest of
             count_byte # repeated # rest' \<Rightarrow>
               (let count = unat count_byte
                in if count = 0 \<or> count > expected_len - length out then None
                   else rle_loop rest' expected_len (out @ replicate count repeated))
           | _ \<Rightarrow> None)"

definition rle_decompress_exact :: "bytes \<Rightarrow> nat \<Rightarrow> bytes option" where
  "rle_decompress_exact data expected_len =
     (case rle_loop data expected_len [] of
        None \<Rightarrow> None
      | Some out \<Rightarrow> if length out = expected_len then Some out else None)"

definition rlelz_decompress_exact :: "bytes \<Rightarrow> nat \<Rightarrow> bytes option" where
  "rlelz_decompress_exact data expected_len =
     (if expected_len > MAX_DECOMPRESSED_SIZE then None
      else case read_var_u32 data of
             None \<Rightarrow> None
           | Some (declared_len, pos) \<Rightarrow>
               (if unat declared_len \<noteq> expected_len then None
                else case drop pos data of
                       [] \<Rightarrow> None
                     | rle_mode # synlz \<Rightarrow>
                         (case synlz_decompress_bounded synlz expected_len of
                            None \<Rightarrow> None
                          | Some intermediate \<Rightarrow>
                              (if rle_mode = 0
                               then if length intermediate = expected_len then Some intermediate else None
                               else if rle_mode = 1 then rle_decompress_exact intermediate expected_len
                               else None))))"

subsection \<open>Encoder\<close>

text \<open>The match extension loop: \<^verbatim>\<open>while t < tmax && o_pos + t < srcend && src[o_pos + t] == src[src_pos + t]\<close>.\<close>

function match_len :: "bytes \<Rightarrow> nat \<Rightarrow> nat \<Rightarrow> nat \<Rightarrow> nat \<Rightarrow> nat" where
  "match_len src o_pos src_pos tmax t =
     (if t < tmax \<and> o_pos + t < length src \<and> src ! (o_pos + t) = src ! (src_pos + t)
      then match_len src o_pos src_pos tmax (t + 1) else t)"
  by pat_completeness auto
termination
  by (relation "measure (\<lambda>(src, o_pos, src_pos, tmax, t). tmax - t)") auto

declare match_len.simps [simp del]

record compress_state =
  cs_src_pos :: nat
  cs_cwbit :: nat
  cs_cw_pos :: nat
  cs_dst :: bytes
  cs_offset :: "nat \<Rightarrow> nat option"
  cs_cache :: "nat \<Rightarrow> u32"

text \<open>The bytes of a back-reference token and the control-word patch.\<close>

definition backref_bytes :: "nat \<Rightarrow> nat \<Rightarrow> bytes" where
  "backref_bytes h t =
     (let h_shifted = push_bit 4 (of_nat h :: u16)
      in if t \<le> 15 then le_bytes 2 (of_nat t OR h_shifted)
         else le_bytes 2 h_shifted @ [of_nat (t - 16)])"

definition set_cw_bit :: "nat \<Rightarrow> nat \<Rightarrow> bytes \<Rightarrow> bytes" where
  "set_cw_bit cw_pos cwbit dst =
     overwrite cw_pos (le_bytes 4 (read_u32 dst cw_pos OR push_bit cwbit 1)) dst"

definition next_cw :: "compress_state \<Rightarrow> compress_state" where
  "next_cw st =
     (if cs_cwbit st < 31 then st\<lparr>cs_cwbit := cs_cwbit st + 1\<rparr>
      else st\<lparr>cs_cw_pos := length (cs_dst st), cs_dst := cs_dst st @ le_bytes 4 (0 :: u32), cs_cwbit := 0\<rparr>)"

text \<open>One iteration of the main loop.\<close>

definition compress_step :: "bytes \<Rightarrow> compress_state \<Rightarrow> compress_state" where
  "compress_step src st =
     (let src_pos = cs_src_pos st;
          v = read_u32 src src_pos;
          h = synlz_hash v;
          prev = cs_offset st h;
          cached = v XOR cs_cache st h;
          st = st\<lparr>cs_offset := (cs_offset st)(h := Some src_pos), cs_cache := (cs_cache st)(h := v)\<rparr>
      in case prev of
           Some o_at \<Rightarrow>
             if cached AND 0x00FFFFFF = 0 \<and> src_pos > o_at + 2
             then let dst = set_cw_bit (cs_cw_pos st) (cs_cwbit st) (cs_dst st);
                      src_pos = src_pos + 2;
                      tmax = min (length src - src_pos - 1) (255 + 16);
                      t = match_len src (o_at + 2) src_pos tmax 1
                  in next_cw (st\<lparr>cs_src_pos := src_pos + t, cs_dst := dst @ backref_bytes h t\<rparr>)
             else next_cw (st\<lparr>cs_src_pos := src_pos + 1, cs_dst := cs_dst st @ [src ! src_pos]\<rparr>)
         | None \<Rightarrow> next_cw (st\<lparr>cs_src_pos := src_pos + 1, cs_dst := cs_dst st @ [src ! src_pos]\<rparr>))"

definition srcendmatch :: "bytes \<Rightarrow> nat" where
  "srcendmatch src = length src - 11"

lemma next_cw_src_pos [simp]: "cs_src_pos (next_cw st) = cs_src_pos st"
  by (simp add: next_cw_def)

lemma compress_step_advances: "cs_src_pos st < cs_src_pos (compress_step src st)"
  by (auto simp: compress_step_def Let_def split: option.splits)

function compress_main :: "bytes \<Rightarrow> compress_state \<Rightarrow> compress_state" where
  "compress_main src st =
     (if cs_src_pos st \<le> srcendmatch src \<and> cs_src_pos st + 3 < length src
      then let st = compress_step src st
           in if cs_src_pos st > srcendmatch src then st else compress_main src st
      else st)"
  by pat_completeness auto

termination
  by (relation "measure (\<lambda>(src, st). length src - cs_src_pos st)")
    (use compress_step_advances in \<open>auto intro!: diff_less_mono2\<close>)

declare compress_main.simps [simp del]

text \<open>The remaining bytes are literals.\<close>

function compress_tail :: "bytes \<Rightarrow> compress_state \<Rightarrow> compress_state" where
  "compress_tail src st =
     (if cs_src_pos st < length src
      then compress_tail src
             (let st = st\<lparr>cs_dst := cs_dst st @ [src ! cs_src_pos st], cs_src_pos := cs_src_pos st + 1\<rparr>
              in if cs_cwbit st < 31 then st\<lparr>cs_cwbit := cs_cwbit st + 1\<rparr>
                 else st\<lparr>cs_dst := cs_dst st @ le_bytes 4 (0 :: u32), cs_cwbit := 0\<rparr>)
      else st)"
  by pat_completeness auto
termination
  by (relation "measure (\<lambda>(src, st). length src - cs_src_pos st)") (auto simp: Let_def)

declare compress_tail.simps [simp del]

definition synlz_header :: "nat \<Rightarrow> bytes" where
  "synlz_header n =
     (if n \<ge> 0x8000
      then le_bytes 2 (0x8000 OR (of_nat n AND 0x7FFF) :: u16) @ le_bytes 2 (of_nat (n div 2 ^ 15) :: u16)
      else le_bytes 2 (of_nat n :: u16))"

definition synlz_compress :: "bytes \<Rightarrow> bytes" where
  "synlz_compress src =
     (let dst = synlz_header (length src)
      in if length src = 0 then dst
         else cs_dst (compress_tail src (compress_main src
                \<lparr>cs_src_pos = 0, cs_cwbit = 0, cs_cw_pos = length dst, cs_dst = dst @ le_bytes 4 (0 :: u32),
                 cs_offset = (\<lambda>_. None), cs_cache = (\<lambda>_. 0)\<rparr>)))"

definition mp_compress :: "bytes \<Rightarrow> bytes option" where
  "mp_compress data =
     (if length data \<le> 64 then None
      else let compressed = synlz_compress data
           in if length compressed < length data * 95 div 100 then Some compressed else None)"

end
