(* ===== verification/Writer_State.thy ===== *)
theory Writer_State
  imports Complex_Main Send_Queue Crypted Compression
begin

text \<open>
  The sending half of the client: the state the writer tick works on (fields of \<^verbatim>\<open>Client\<close> used by
  \<^verbatim>\<open>client/protocol_sliced_send.rs\<close>, \<^verbatim>\<open>client/protocol_direct_send.rs\<close> and \<^verbatim>\<open>client/protocol_send.rs\<close>),
  the sealing of an encrypted command and the hand-over of a packet to the transport
  (\<^verbatim>\<open>client/protocol_io.rs\<close>).

  \<open>w_out\<close> is the sequence of command and payload pairs given to \<^verbatim>\<open>pack_client_packet\<close>, whose effect on
  the wire is the subject of the theory \<open>Transport\<close>.  The random header word and the time stamp
  counter of an encryption are read from the streams \<open>w_rnd\<close> and \<open>w_tsc\<close>.  The pacing variables that
  are \<^verbatim>\<open>f64\<close> in the source are rationals here: floating point rounding is not modelled, \<^verbatim>\<open>round\<close> is.
\<close>

definition round_away :: "rat \<Rightarrow> int" where
  "round_away x = (if x < 0 then - \<lfloor>- x + 1 / 2\<rfloor> else \<lfloor>x + 1 / 2\<rfloor>)"

definition COMPRESSED_FLAG :: u8 where
  "COMPRESSED_FLAG = 0x80"

definition MIN_SIZE_TO_COMPRESS :: nat where
  "MIN_SIZE_TO_COMPRESS = 64"

definition UNKNOWN_RTT_SLICED_FLOOR_MS :: millis where
  "UNKNOWN_RTT_SLICED_FLOOR_MS = 200"

definition INITIAL_CRYPTED_MSG_COUNTER :: u64 where
  "INITIAL_CRYPTED_MSG_COUNTER = 64 * 64 div 2 - 1"

record sent_sliced =
  ss_datagram_num :: u16
  ss_slices :: "bytes list"
  ss_piece_last_checked :: "millis list"
  ss_ack_flags :: bytes
  ss_blocks_count :: nat
  ss_sent_count :: nat
  ss_last_checked :: millis
  ss_retry_count :: int
  ss_last_retry_inc :: millis
  ss_max_retry_count :: int
  ss_u_key :: unique_key

record writer =
  w_sending :: "sent_sliced list"
  w_send_datagram_num :: u16
  w_last_checked_slices :: millis
  w_last_set_trip_k :: millis
  w_trip_delay_k :: rat
  w_avg_dup_count :: rat
  w_avg_over_heat :: rat
  w_can_send_rate :: int
  w_used_sliced_limit :: bool
  w_actual_pmtu :: u16
  w_round_trip_delay :: millis
  w_actual_sleep_time :: rat
  w_crypt_msg_counter :: u64
  w_encode_cipher :: "cipher option"
  w_iv_mask :: u64
  w_iv_counter :: u64
  w_rnd :: "u64 \<Rightarrow> u16"
  w_tsc :: "u64 \<Rightarrow> u64"
  w_pending_h :: "send_item list"
  w_recvd_slider :: slider
  w_tmp_send_buf :: bytes
  w_tmp_send_count :: nat
  w_tmp_send_size :: nat
  w_server_addr :: bool
  w_out :: "(u8 \<times> bytes) list"

definition NEVER_TIME_MS :: millis where
  "NEVER_TIME_MS = - (2 ^ 63) div 2"

text \<open>The fields as \<^verbatim>\<open>Client::new\<close> sets them; the randomness and whether the server address resolves
  belong to the environment.  The nonce counter is a static of the process (\<^verbatim>\<open>IV_COUNTER\<close>, from 1); it stands in
  the one writer of the model.\<close>

definition writer_new :: "u64 \<Rightarrow> (u64 \<Rightarrow> u16) \<Rightarrow> (u64 \<Rightarrow> u64) \<Rightarrow> bool \<Rightarrow> writer" where
  "writer_new iv_mask rnd tsc server_addr =
     \<lparr>w_sending = [], w_send_datagram_num = 0, w_last_checked_slices = 0, w_last_set_trip_k = NEVER_TIME_MS,
      w_trip_delay_k = 11 / 10, w_avg_dup_count = 0, w_avg_over_heat = 0, w_can_send_rate = 2 * 1024 * 1024,
      w_used_sliced_limit = False, w_actual_pmtu = 508, w_round_trip_delay = 0, w_actual_sleep_time = 5,
      w_crypt_msg_counter = INITIAL_CRYPTED_MSG_COUNTER, w_encode_cipher = None, w_iv_mask = iv_mask,
      w_iv_counter = 1, w_rnd = rnd, w_tsc = tsc, w_pending_h = [], w_recvd_slider = slider_new,
      w_tmp_send_buf = [], w_tmp_send_count = 0, w_tmp_send_size = 0, w_server_addr = server_addr, w_out = []\<rparr>"

definition maybe_compress :: "u8 \<Rightarrow> bytes \<Rightarrow> u8 \<times> bytes" where
  "maybe_compress cmd data =
     (if cmd AND COMPRESSED_FLAG = 0 \<and> length data > MIN_SIZE_TO_COMPRESS
      then (case mp_compress data of Some c \<Rightarrow> (cmd OR COMPRESSED_FLAG, c) | None \<Rightarrow> (cmd, data))
      else (cmd, data))"

definition crypted_wire_cmd :: "u8 \<Rightarrow> u8" where
  "crypted_wire_cmd inner_cmd =
     (if inner_cmd AND COMPRESSED_FLAG \<noteq> 0 then to_byte Command_Crypted OR COMPRESSED_FLAG
      else to_byte Command_Crypted)"

definition send_raw_packet_cmd :: "writer \<Rightarrow> u8 \<Rightarrow> bytes \<Rightarrow> writer" where
  "send_raw_packet_cmd w cmd payload =
     (if w_server_addr w then w\<lparr>w_out := w_out w @ [(cmd, payload)]\<rparr> else w)"

definition send_raw_packet :: "writer \<Rightarrow> command \<Rightarrow> bytes \<Rightarrow> writer" where
  "send_raw_packet w cmd payload = send_raw_packet_cmd w (to_byte cmd) payload"

text \<open>The message number of an encrypted item: its own on a retry, otherwise \<^verbatim>\<open>fetch_add(1) + 1\<close>.\<close>

definition take_msg_num :: "writer \<Rightarrow> u64 \<Rightarrow> u64 \<times> writer" where
  "take_msg_num w msg_num =
     (if msg_num \<noteq> 0 then (msg_num, w)
      else (w_crypt_msg_counter w + 1, w\<lparr>w_crypt_msg_counter := w_crypt_msg_counter w + 1\<rparr>))"

text \<open>Header, plaintext and envelope of an encrypted command; \<open>None\<close> before the handshake.\<close>

definition seal_command :: "writer \<Rightarrow> u64 \<Rightarrow> u8 \<Rightarrow> bool \<Rightarrow> bytes \<Rightarrow> (bytes \<times> writer) option" where
  "seal_command w msg_num cmd want_ack data =
     (case w_encode_cipher w of
        None \<Rightarrow> None
      | Some k \<Rightarrow>
          (let n = w_iv_counter w;
               plaintext = crypto_hdr_bytes (w_rnd w n) msg_num cmd want_ack @ data
           in Some (encrypt_with_cipher k (w_iv_mask w) n (w_tsc w n) plaintext [],
                    w\<lparr>w_iv_counter := n + 1\<rparr>)))"

lemma or_flag_and_flag: "(c OR f) AND f = (f :: u8)"
  by (rule bit_word_eqI) (auto simp: bit_and_iff bit_or_iff)

lemma maybe_compress_cases:
  "maybe_compress cmd data = (cmd', data') \<Longrightarrow>
     cmd' = cmd \<and> data' = data \<or> cmd' = cmd OR COMPRESSED_FLAG \<and> mp_compress data = Some data' \<and> cmd' AND COMPRESSED_FLAG \<noteq> 0"
  by (auto simp: maybe_compress_def or_flag_and_flag split: if_splits option.splits) (simp add: COMPRESSED_FLAG_def)

lemma maybe_compress_again:
  "maybe_compress cmd data = (cmd', data') \<Longrightarrow> maybe_compress cmd' data' = (cmd', data')"
  using maybe_compress_cases [of cmd data cmd' data'] by (auto simp: maybe_compress_def)

text \<open>An envelope is opened by the peer to the sealed header and data, and no two envelopes of one writer
  share a nonce.\<close>

lemma seal_command_opens:
  assumes "aead_correct k" "w_encode_cipher w = Some k" "seal_command w n cmd want data = Some (env, w')"
  shows "decrypt_command_no_replay k env = Some (\<lparr>cr_rnd = w_rnd w (w_iv_counter w), cr_msg_num = n, cr_cmd = cmd,
            cr_want_ack = want\<rparr>, crypto_hdr_bytes (w_rnd w (w_iv_counter w)) n cmd want @ data)"
  using assms by (auto simp: seal_command_def Let_def decrypt_command_no_replay_def envelope_decrypts
      crypto_header_roundtrip CRYPTO_HEADER_SIZE_def)

lemma seal_command_length:
  assumes "\<And>k. w_encode_cipher w = Some k \<Longrightarrow> aead_correct k" "seal_command w n cmd want data = Some (env, w')"
  shows "length env \<le> length data + 56"
  using assms pkcs7_padding_bounds(2) [of "length data + 12"]
  by (auto simp: seal_command_def Let_def length_encrypt_with_cipher add.commute split: option.splits)

end
