(* ===== verification/Fragments.thy ===== *)
theory Fragments
  imports Moon_Prelude
begin

text \<open>
  The interface of a fragment collector: a store of numbered fragments with a fixed expected count,
  into which fragments arrive in any order and possibly more than once.  The sliced datagrams of the
  transport and the chunked responses of the engine API both satisfy it.  The client lemmas show
  what any such store holds after an arbitrary arrival sequence.
\<close>

locale fragment_collector =
  fixes inv :: "'s \<Rightarrow> bool"
    and total :: "'s \<Rightarrow> nat"
    and piece :: "'s \<Rightarrow> nat \<Rightarrow> 'd option"
    and content :: "'p \<Rightarrow> 'd"
    and add :: "'s \<Rightarrow> nat \<Rightarrow> 'p \<Rightarrow> 's"
  assumes add_inv: "inv s \<Longrightarrow> i < total s \<Longrightarrow> inv (add s i p)"
    and add_total: "inv s \<Longrightarrow> i < total s \<Longrightarrow> total (add s i p) = total s"
    and add_other: "inv s \<Longrightarrow> i < total s \<Longrightarrow> j \<noteq> i \<Longrightarrow> piece (add s i p) j = piece s j"
    and add_same: "inv s \<Longrightarrow> i < total s \<Longrightarrow>
      piece (add s i p) i = Some (content p) \<or> piece s i \<noteq> None \<and> piece (add s i p) i = piece s i"
begin

definition collect :: "'s \<Rightarrow> (nat \<times> 'p) list \<Rightarrow> 's" where
  "collect s ps = foldl (\<lambda>s (i, p). add s i p) s ps"

lemma collect_Nil [simp]: "collect s [] = s"
  by (simp add: collect_def)

lemma collect_Cons [simp]: "collect s ((i, p) # ps) = collect (add s i p) ps"
  by (simp add: collect_def)

lemma collect_inv:
  "inv s \<Longrightarrow> \<forall>(i, p) \<in> set ps. i < total s \<Longrightarrow> inv (collect s ps) \<and> total (collect s ps) = total s"
  by (induction ps arbitrary: s) (auto simp: add_inv add_total)

text \<open>When every fragment that arrives for an index is the fragment of the message at that index, the
  store holds exactly the fragments of the message whose index has arrived.\<close>

lemma collect_piece:
  "inv s \<Longrightarrow> \<forall>(i, p) \<in> set ps. i < total s \<and> content p = f i \<Longrightarrow> \<forall>i. piece s i \<noteq> None \<longrightarrow> piece s i = Some (f i) \<Longrightarrow>
     piece (collect s ps) i = (if piece s i \<noteq> None \<or> i \<in> fst ` set ps then Some (f i) else None)"
proof (induction ps arbitrary: s)
  case Nil
  then show ?case by (cases "piece s i") auto
next
  case (Cons q ps)
  obtain k p where q: "q = (k, p)" by (cases q)
  have k: "k < total s" "content p = f k" using Cons.prems(2) q by auto
  note a = add_inv [OF Cons.prems(1) k(1), of p] add_total [OF Cons.prems(1) k(1), of p]
    add_other [OF Cons.prems(1) k(1), where p = p] add_same [OF Cons.prems(1) k(1), of p]
  have "\<forall>i. piece (add s k p) i \<noteq> None \<longrightarrow> piece (add s k p) i = Some (f i)"
  proof (intro allI impI)
    fix j assume j: "piece (add s k p) j \<noteq> None"
    show "piece (add s k p) j = Some (f j)"
      using a(3) [of j] a(4) k(2) j Cons.prems(3) by (cases "j = k") auto
  qed
  with Cons.IH [of "add s k p"] Cons.prems(2) a(1,2) q
  have "piece (collect (add s k p) ps) i =
      (if piece (add s k p) i \<noteq> None \<or> i \<in> fst ` set ps then Some (f i) else None)"
    by auto
  moreover have "piece (add s k p) i \<noteq> None \<longleftrightarrow> piece s i \<noteq> None \<or> i = k"
    using a(3) [of i] a(4) by (cases "i = k") auto
  ultimately show ?case
    by (auto simp: q)
qed

lemma collect_all:
  assumes "inv s" "\<forall>(i, p) \<in> set ps. i < total s \<and> content p = f i" "\<forall>i. piece s i = None"
    and "{..<total s} \<subseteq> fst ` set ps" "i < total s"
  shows "piece (collect s ps) i = Some (f i)"
  using collect_piece [OF assms(1,2), of i] assms(3-5) by auto

end

end
