(* ===== verification/Slicing.thy ===== *)
theory Slicing
  imports Wire Fragments
begin

text \<open>
  The receive side of the slicing engine (\<^verbatim>\<open>protocol/slicing.rs\<close>): slice headers, the reassembly of
  one datagram, the acknowledgement record, and the receiver that tracks all datagrams in progress,
  with the handler of \<^verbatim>\<open>client/protocol_recv_handlers.rs\<close> that drives it.

  The span offsets and lengths (\<^verbatim>\<open>u32\<close> casts of vector lengths) are naturals: 256 blocks of at most
  65535 bytes stay far below \<open>2\<^sup>32\<close>.  The \<^verbatim>\<open>HashMap\<close> of datagrams is an association list whose order
  is its iteration order, and the array of 4096 time stamps is a function of the slot.
\<close>

section \<open>Slice headers and acknowledgements\<close>

record slice_header =
  sl_datagram_num :: u16
  sl_block_num :: u8
  sl_max_block_num :: u8

definition SLICE_HEADER_SIZE :: nat where
  "SLICE_HEADER_SIZE = 4"

definition slice_header_from_bytes :: "bytes \<Rightarrow> slice_header option" where
  "slice_header_from_bytes data =
     (if length data < SLICE_HEADER_SIZE then None
      else Some \<lparr>sl_datagram_num = from_le (slice 0 2 data), sl_block_num = data ! 2,
                 sl_max_block_num = data ! 3\<rparr>)"

definition slice_header_bytes :: "slice_header \<Rightarrow> bytes" where
  "slice_header_bytes h = le_bytes 2 (sl_datagram_num h) @ [sl_block_num h] @ [sl_max_block_num h]"

definition ACK256_WIRE_SIZE :: nat where
  "ACK256_WIRE_SIZE = 38"

definition build_ack_bytes :: "bytes \<Rightarrow> u16 \<Rightarrow> u32 \<Rightarrow> bytes" where
  "build_ack_bytes flags datagram_num session = flags @ le_bytes 2 datagram_num @ le_bytes 4 session"

definition parse_ack_bytes :: "bytes \<Rightarrow> (bytes \<times> u16 \<times> u32) option" where
  "parse_ack_bytes d =
     (if length d < ACK256_WIRE_SIZE then None
      else Some (slice 0 32 d, from_le (slice 32 34 d), from_le (slice 34 38 d)))"

text \<open>Membership in a 256-bit flag set: byte \<open>i div 8\<close>, bit \<open>i mod 8\<close>.\<close>

definition flag_bit :: "bytes \<Rightarrow> nat \<Rightarrow> bool" where
  "flag_bit flags i \<longleftrightarrow> flags ! (i div 8) AND push_bit (i mod 8) 1 \<noteq> 0"

definition set_flag :: "nat \<Rightarrow> bytes \<Rightarrow> bytes" where
  "set_flag i flags = flags[i div 8 := flags ! (i div 8) OR push_bit (i mod 8) 1]"

definition acked_count :: "bytes \<Rightarrow> nat \<Rightarrow> nat" where
  "acked_count flags blocks_count = length (filter (flag_bit flags) [0..<blocks_count])"

section \<open>One datagram\<close>

record block_span =
  sp_offset :: nat
  sp_len :: nat
  sp_present :: bool

definition block_span_default :: block_span where
  "block_span_default = \<lparr>sp_offset = 0, sp_len = 0, sp_present = False\<rparr>"

record sliced_data =
  sd_datagram_num :: u16
  blocks_count :: nat
  block_spans :: "block_span list"
  block_payloads :: bytes
  received_count :: nat
  completion_returned :: bool
  ack_flags :: bytes
  dup_count :: u8

definition sliced_data_new :: "u16 \<Rightarrow> u8 \<Rightarrow> sliced_data" where
  "sliced_data_new datagram_num max_block_num =
     \<lparr>sd_datagram_num = datagram_num, blocks_count = unat max_block_num + 1,
      block_spans = replicate 256 block_span_default, block_payloads = [], received_count = 0,
      completion_returned = False, ack_flags = replicate 32 0, dup_count = 0\<rparr>"

definition receive_piece :: "sliced_data \<Rightarrow> u8 \<Rightarrow> bytes \<Rightarrow> bool \<times> sliced_data" where
  "receive_piece s block_num data =
     (let idx = unat block_num
      in if idx \<ge> blocks_count s then (False, s)
         else let s = s\<lparr>ack_flags := set_flag idx (ack_flags s)\<rparr>;
                  s = (if sp_present (block_spans s ! idx) then s\<lparr>dup_count := sat_inc_u8 (dup_count s)\<rparr>
                       else let offset = length (block_payloads s)
                            in s\<lparr>block_payloads := block_payloads s @ data,
                                 block_spans := (block_spans s)[idx := \<lparr>sp_offset = offset, sp_len = length data,
                                                                      sp_present = True\<rparr>],
                                 received_count := received_count s + 1\<rparr>)
              in (received_count s = blocks_count s, s))"

definition is_complete :: "sliced_data \<Rightarrow> bool" where
  "is_complete s \<longleftrightarrow> received_count s = blocks_count s"

primrec spans_ordered :: "nat \<Rightarrow> block_span list \<Rightarrow> bool" where
  "spans_ordered offset [] = True"
| "spans_ordered offset (sp # sps) = (sp_offset sp = offset \<and> spans_ordered (offset + sp_len sp) sps)"

text \<open>The reordering loop: every span in index order, the command byte of block 0 skipped.\<close>

definition reorder_blocks :: "sliced_data \<Rightarrow> nat \<Rightarrow> bytes" where
  "reorder_blocks s skip =
     concat (map (\<lambda>(index, sp).
         slice (sp_offset sp + (if index = 0 then skip else 0)) (sp_offset sp + sp_len sp) (block_payloads s))
       (enumerate 0 (take (blocks_count s) (block_spans s))))"

definition assemble :: "sliced_data \<Rightarrow> (u8 \<times> payload) option \<times> sliced_data" where
  "assemble s =
     (if \<not> is_complete s then (None, s)
      else let first = block_spans s ! 0;
               cmd = (if sp_len first = 0 then 0 else block_payloads s ! sp_offset first);
               skip = (if sp_len first \<noteq> 0 then 1 else 0)
           in if spans_ordered 0 (take (blocks_count s) (block_spans s))
              then (map_option (Pair cmd)
                      (payload_restrict (payload_from (block_payloads s)) skip (length (block_payloads s))),
                    s\<lparr>block_payloads := []\<rparr>)
              else (Some (cmd, payload_from (reorder_blocks s skip)), s))"

section \<open>The receiver\<close>

definition LAST_RECVD_BUF_SIZE :: nat where
  "LAST_RECVD_BUF_SIZE = 4096"

definition TIME_WHEN_CAN_RECEIVE_RPT :: millis where
  "TIME_WHEN_CAN_RECEIVE_RPT = 9000"

definition NEVER_RECEIVED_MS :: millis where
  "NEVER_RECEIVED_MS = - TIME_WHEN_CAN_RECEIVE_RPT - 1"

record slicing_receiver =
  receiving :: "(u16 \<times> sliced_data) list"
  progress_epoch :: u64
  unique_payload_bytes :: u64
  duplicate_blocks :: u64
  last_progress_ms :: "millis option"
  last_recvd_ts :: "nat \<Rightarrow> millis"
  rx_last_online :: millis
  last_cleaned_received :: millis

definition receiver_new :: slicing_receiver where
  "receiver_new =
     \<lparr>receiving = [], progress_epoch = 0, unique_payload_bytes = 0, duplicate_blocks = 0,
      last_progress_ms = None, last_recvd_ts = (\<lambda>_. NEVER_RECEIVED_MS), rx_last_online = 0,
      last_cleaned_received = 0\<rparr>"

definition set_last_online :: "millis \<Rightarrow> slicing_receiver \<Rightarrow> slicing_receiver" where
  "set_last_online ms r = r\<lparr>rx_last_online := ms\<rparr>"

definition reset_session :: "slicing_receiver \<Rightarrow> slicing_receiver" where
  "reset_session r =
     receiver_new\<lparr>progress_epoch := progress_epoch r, unique_payload_bytes := unique_payload_bytes r,
                  duplicate_blocks := duplicate_blocks r, last_progress_ms := last_progress_ms r\<rparr>"

record receive_progress =
  rp_unique_blocks :: u64
  rp_unique_payload_bytes :: u64
  rp_duplicate_blocks :: u64
  rp_active_transfers :: nat
  rp_active_received_blocks :: nat
  rp_active_expected_blocks :: nat
  rp_last_progress_ms :: "millis option"

definition progress_snapshot :: "slicing_receiver \<Rightarrow> receive_progress" where
  "progress_snapshot r =
     \<lparr>rp_unique_blocks = progress_epoch r, rp_unique_payload_bytes = unique_payload_bytes r,
      rp_duplicate_blocks = duplicate_blocks r, rp_active_transfers = length (receiving r),
      rp_active_received_blocks = sum_list (map (received_count \<circ> snd) (receiving r)),
      rp_active_expected_blocks = sum_list (map (blocks_count \<circ> snd) (receiving r)),
      rp_last_progress_ms = last_progress_ms r\<rparr>"

definition slot :: "u16 \<Rightarrow> nat" where
  "slot num = unat num mod LAST_RECVD_BUF_SIZE"

text \<open>\<^verbatim>\<open>retain\<close> over the map, with the time stamp refresh of every removed datagram.\<close>

primrec clear_old_loop ::
  "millis \<Rightarrow> (u16 \<times> sliced_data) list \<Rightarrow> (nat \<Rightarrow> millis) \<Rightarrow> (u16 \<times> sliced_data) list \<times> (nat \<Rightarrow> millis)" where
  "clear_old_loop last_online [] ts = ([], ts)"
| "clear_old_loop last_online (e # es) ts =
     (if \<bar>last_online - ts (slot (fst e))\<bar> > TIME_WHEN_CAN_RECEIVE_RPT
      then clear_old_loop last_online es (ts(slot (fst e) := last_online))
      else let (kept, ts') = clear_old_loop last_online es ts in (e # kept, ts'))"

definition clear_old :: "slicing_receiver \<Rightarrow> slicing_receiver" where
  "clear_old r =
     (let (kept, ts) = clear_old_loop (rx_last_online r) (receiving r) (last_recvd_ts r)
      in r\<lparr>receiving := kept, last_recvd_ts := ts\<rparr>)"

definition do_cleanup :: "slicing_receiver \<Rightarrow> slicing_receiver" where
  "do_cleanup r =
     (if \<bar>last_cleaned_received r - rx_last_online r\<bar> > 5000
      then (clear_old r)\<lparr>last_cleaned_received := rx_last_online r\<rparr>
      else r)"

definition is_new_datagram :: "slicing_receiver \<Rightarrow> u16 \<Rightarrow> bool \<times> slicing_receiver" where
  "is_new_datagram r num =
     (let is_new = \<bar>rx_last_online r - last_recvd_ts r (slot num)\<bar> > TIME_WHEN_CAN_RECEIVE_RPT
      in (is_new, if is_new then r\<lparr>last_recvd_ts := (last_recvd_ts r)(slot num := rx_last_online r)\<rparr> else r))"

definition all_flags :: bytes where
  "all_flags = replicate 32 0xFF"

text \<open>The last part of \<^verbatim>\<open>on_new_sliced_with_session\<close>: the piece is added to its datagram, the progress
  counters move, and a completed datagram is assembled once.\<close>

definition add_piece ::
  "slicing_receiver \<Rightarrow> u32 \<Rightarrow> slice_header \<Rightarrow> bytes \<Rightarrow> sliced_data
     \<Rightarrow> ((u16 \<times> u8 \<times> payload \<times> u8 \<times> nat) option \<times> bytes) \<times> slicing_receiver" where
  "add_piece r ack_session hdr block_data sliced =
     (let d = sl_datagram_num hdr;
          (complete, sliced1) = receive_piece sliced (sl_block_num hdr) block_data;
          r = (if received_count sliced1 \<noteq> received_count sliced
               then r\<lparr>progress_epoch := progress_epoch r + 1,
                      unique_payload_bytes := sat_add_u64 (unique_payload_bytes r) (of_nat (length block_data)),
                      last_progress_ms := Some (rx_last_online r)\<rparr>
               else r);
          r = (if dup_count sliced1 \<noteq> dup_count sliced
               then r\<lparr>duplicate_blocks := sat_add_u64 (duplicate_blocks r) 1\<rparr> else r);
          ack = build_ack_bytes (ack_flags sliced1) d ack_session
      in if complete
         then let (assembled, sliced2) = assemble sliced1;
                  sliced3 = (if assembled \<noteq> None then sliced2\<lparr>completion_returned := True\<rparr> else sliced2)
              in ((map_option (\<lambda>(cmd, data). (d, cmd, data, dup_count sliced1, blocks_count sliced1)) assembled, ack),
                  r\<lparr>receiving := map_insert d sliced3 (receiving r)\<rparr>)
         else ((None, ack), r\<lparr>receiving := map_insert d sliced1 (receiving r)\<rparr>))"

definition on_new_sliced_with_session ::
  "slicing_receiver \<Rightarrow> bytes \<Rightarrow> u32 \<Rightarrow> ((u16 \<times> u8 \<times> payload \<times> u8 \<times> nat) option \<times> bytes) \<times> slicing_receiver" where
  "on_new_sliced_with_session r data ack_session =
     (case slice_header_from_bytes data of
        None \<Rightarrow> ((None, replicate ACK256_WIRE_SIZE 0), r)
      | Some hdr \<Rightarrow>
          (let block_data = drop SLICE_HEADER_SIZE data;
               d = sl_datagram_num hdr;
               fresh = sliced_data_new d (sl_max_block_num hdr);
               full_ack = build_ack_bytes all_flags d ack_session;
               (is_new, r) = is_new_datagram r d
           in case (if is_new then Some fresh
                    else case map_of (receiving r) d of
                           None \<Rightarrow> None
                         | Some existing \<Rightarrow>
                             Some (if blocks_count existing - 1 \<noteq> unat (sl_max_block_num hdr) then fresh else existing)) of
                None \<Rightarrow> ((None, full_ack), r\<lparr>duplicate_blocks := sat_add_u64 (duplicate_blocks r) 1\<rparr>)
              | Some sliced \<Rightarrow>
                  (let r = r\<lparr>receiving := map_insert d sliced (receiving r)\<rparr>
                   in if completion_returned sliced
                      then ((None, full_ack), r\<lparr>duplicate_blocks := sat_add_u64 (duplicate_blocks r) 1\<rparr>)
                      else add_piece r ack_session hdr block_data sliced)))"

text \<open>The packet path around it: every routed packet sets the clock and may clean up
  (\<^verbatim>\<open>route_command_inner\<close>); a sliced packet with a header is answered with an ACK, and a completed
  datagram is dispatched and then removed from the map (\<^verbatim>\<open>on_new_sliced\<close>).\<close>

definition rx_tick :: "millis \<Rightarrow> slicing_receiver \<Rightarrow> slicing_receiver" where
  "rx_tick ts r = do_cleanup (set_last_online ts r)"

definition rx_sliced ::
  "u32 \<Rightarrow> millis \<Rightarrow> bytes \<Rightarrow> slicing_receiver
     \<Rightarrow> ((u16 \<times> u8 \<times> payload \<times> u8 \<times> nat) option \<times> bytes option) \<times> slicing_receiver" where
  "rx_sliced ack_session ts data r =
     (let r = rx_tick ts r
      in if slice_header_from_bytes data = None then ((None, None), r)
         else let ((assembled, ack), r) = on_new_sliced_with_session r data ack_session
              in ((assembled, Some ack),
                  case assembled of
                    None \<Rightarrow> r
                  | Some (d, _) \<Rightarrow> r\<lparr>receiving := map_remove d (receiving r)\<rparr>))"

section \<open>Records\<close>

lemmas [wire_defs] =
  SLICE_HEADER_SIZE_def slice_header_from_bytes_def slice_header_bytes_def
  ACK256_WIRE_SIZE_def build_ack_bytes_def parse_ack_bytes_def

interpretation slice_hdr: wire_record SLICE_HEADER_SIZE "\<lambda>_. True" slice_header_bytes slice_header_from_bytes
proof (unfold_locales, goal_cases)
  case (4 bs)
  then show ?case by (simp add: wire_defs wire_put_get)
qed (simp_all add: wire_defs slice_def nth_append)

interpretation sliced_ack: wire_record ACK256_WIRE_SIZE "\<lambda>(flags, _, _). length flags = 32"
    "\<lambda>(flags, d, session). build_ack_bytes flags d session" parse_ack_bytes
proof (unfold_locales, goal_cases)
  case (4 bs)
  then show ?case by (simp add: wire_defs wire_put_get length_slice)
qed (auto simp add: wire_defs slice_def)

lemma flag_bit_alt: "flag_bit flags i \<longleftrightarrow> bit (flags ! (i div 8)) (i mod 8)"
proof -
  have "x AND push_bit b 1 = (if bit x b then push_bit b 1 else 0)" for x :: byte and b
    by (rule bit_word_eqI) (auto simp: bit_and_iff bit_exp_iff)
  moreover have "bit (push_bit (i mod 8) (1 :: byte)) (i mod 8)"
    by (simp add: bit_exp_iff)
  then have "push_bit (i mod 8) (1 :: byte) \<noteq> 0" by (metis bit_0_eq bot_apply bot_bool_def)
  ultimately show ?thesis by (simp add: flag_bit_def)
qed

lemma length_set_flag [simp]: "length (set_flag i flags) = length flags"
  by (simp add: set_flag_def)

lemma flag_bit_set:
  assumes "i < 8 * length flags" "j < 8 * length flags"
  shows "flag_bit (set_flag i flags) j \<longleftrightarrow> j = i \<or> flag_bit flags j"
proof -
  have "i div 8 < length flags" "j div 8 < length flags"
    using assms by auto
  moreover have "j = i \<longleftrightarrow> j div 8 = i div 8 \<and> j mod 8 = i mod 8"
    using div_mult_mod_eq [of i 8] div_mult_mod_eq [of j 8] by metis
  moreover have "bit (push_bit (i mod 8) (1 :: byte)) (j mod 8) \<longleftrightarrow> j mod 8 = i mod 8"
    by (auto simp: bit_exp_iff)
  ultimately show ?thesis
    by (auto simp: flag_bit_alt set_flag_def nth_list_update bit_or_iff)
qed

lemma flag_bit_all: "i < 256 \<Longrightarrow> flag_bit all_flags i"
proof -
  assume "i < 256"
  then have "all_flags ! (i div 8) = 0xFF" by (simp add: all_flags_def)
  moreover have "(0xFF :: byte) = - 1" by simp
  ultimately show ?thesis by (simp only: flag_bit_alt) simp
qed

section \<open>Invariant of one datagram\<close>

definition sd_wf :: "sliced_data \<Rightarrow> bool" where
  "sd_wf s \<longleftrightarrow>
     length (block_spans s) = 256 \<and> length (ack_flags s) = 32 \<and> 1 \<le> blocks_count s \<and> blocks_count s \<le> 256 \<and>
     (\<forall>i < 256. sp_present (block_spans s ! i) \<longrightarrow>
        i < blocks_count s \<and> sp_offset (block_spans s ! i) + sp_len (block_spans s ! i) \<le> length (block_payloads s)) \<and>
     (\<forall>i < 256. flag_bit (ack_flags s) i \<longleftrightarrow> sp_present (block_spans s ! i)) \<and>
     (\<forall>i < 256. \<not> sp_present (block_spans s ! i) \<longrightarrow> sp_len (block_spans s ! i) = 0) \<and>
     received_count s = length (filter sp_present (take (blocks_count s) (block_spans s))) \<and>
     sum_list (map sp_len (take (blocks_count s) (block_spans s))) = length (block_payloads s)"

definition sd_piece :: "sliced_data \<Rightarrow> nat \<Rightarrow> bytes option" where
  "sd_piece s i =
     (if i < 256 \<and> sp_present (block_spans s ! i)
      then Some (slice (sp_offset (block_spans s ! i)) (sp_offset (block_spans s ! i) + sp_len (block_spans s ! i))
                   (block_payloads s))
      else None)"

lemma filter_replicate_none: "\<not> P x \<Longrightarrow> filter P (replicate n x) = []"
  by (induction n) auto

lemma sd_wf_new: "sd_wf (sliced_data_new d m)"
proof -
  have "unat m < 256" using unat_lt_power [of 8 m] by simp
  moreover have "i < 256 \<Longrightarrow> \<not> flag_bit (replicate 32 0) i" for i
    by (simp add: flag_bit_alt)
  ultimately show ?thesis
    by (simp add: sd_wf_def sliced_data_new_def block_span_default_def filter_replicate_none
          sum_list_replicate)
qed

lemma sd_piece_new: "sd_piece (sliced_data_new d m) i = None"
  by (simp add: sd_piece_def sliced_data_new_def block_span_default_def)

lemma length_filter_update:
  "i < length xs \<Longrightarrow> \<not> P (xs ! i) \<Longrightarrow> P y \<Longrightarrow> length (filter P (xs[i := y])) = Suc (length (filter P xs))"
  by (induction xs arbitrary: i) (auto split: nat.splits)

lemma length_filter_all: "length (filter P xs) = length xs \<longleftrightarrow> (\<forall>x \<in> set xs. P x)"
  by (metis filter_True length_filter_less less_irrefl)

lemma receive_piece_dup:
  assumes "unat b < blocks_count s" "sp_present (block_spans s ! unat b)"
  shows "snd (receive_piece s b p) = s\<lparr>ack_flags := set_flag (unat b) (ack_flags s), dup_count := sat_inc_u8 (dup_count s)\<rparr>"
  using assms by (simp add: receive_piece_def Let_def)

lemma receive_piece_first:
  assumes "unat b < blocks_count s" "\<not> sp_present (block_spans s ! unat b)"
  shows "snd (receive_piece s b p) =
    s\<lparr>ack_flags := set_flag (unat b) (ack_flags s),
      block_payloads := block_payloads s @ p,
      block_spans := (block_spans s)[unat b := \<lparr>sp_offset = length (block_payloads s), sp_len = length p, sp_present = True\<rparr>],
      received_count := received_count s + 1\<rparr>"
  using assms by (simp add: receive_piece_def Let_def)

lemma receive_piece_complete: "fst (receive_piece s b p) \<longleftrightarrow> unat b < blocks_count s \<and> is_complete (snd (receive_piece s b p))"
  by (simp add: receive_piece_def is_complete_def Let_def)

lemma receive_piece_count [simp]: "blocks_count (snd (receive_piece s b p)) = blocks_count s"
  by (simp add: receive_piece_def Let_def)

lemma receive_piece_returned [simp]: "completion_returned (snd (receive_piece s b p)) = completion_returned s"
  by (simp add: receive_piece_def Let_def)

lemma receive_piece_out_of_range: "blocks_count s \<le> unat b \<Longrightarrow> receive_piece s b p = (False, s)"
  by (simp add: receive_piece_def Let_def)

lemma sd_wf_dup:
  assumes "sd_wf s" "unat b < blocks_count s" "sp_present (block_spans s ! unat b)"
  shows "sd_wf (snd (receive_piece s b p))"
proof -
  have "i < 256 \<Longrightarrow> flag_bit (set_flag (unat b) (ack_flags s)) i \<longleftrightarrow> flag_bit (ack_flags s) i" for i
    using assms by (auto simp: sd_wf_def flag_bit_set)
  with assms show ?thesis
    unfolding receive_piece_dup [OF assms(2,3)] sd_wf_def by simp
qed

lemma sd_wf_first:
  assumes wf: "sd_wf s" and b: "unat b < blocks_count s" and np: "\<not> sp_present (block_spans s ! unat b)"
  shows "sd_wf (snd (receive_piece s b p))"
proof -
  let ?i = "unat b" and ?sp = "\<lparr>sp_offset = length (block_payloads s), sp_len = length p, sp_present = True\<rparr>"
  let ?n = "blocks_count s"
  have i: "?i < 256" "?i < length (take ?n (block_spans s))" and z: "sp_len (block_spans s ! ?i) = 0"
    using wf b np by (auto simp: sd_wf_def)
  have flags: "j < 256 \<Longrightarrow> flag_bit (set_flag ?i (ack_flags s)) j \<longleftrightarrow> j = ?i \<or> sp_present (block_spans s ! j)" for j
    using wf i by (auto simp: sd_wf_def flag_bit_set)
  have cnt: "length (filter sp_present ((take ?n (block_spans s))[?i := ?sp])) =
      Suc (length (filter sp_present (take ?n (block_spans s))))"
    using i b np by (intro length_filter_update) auto
  have len: "sum_list (map sp_len ((take ?n (block_spans s))[?i := ?sp])) =
      sum_list (map sp_len (take ?n (block_spans s))) + length p"
    using i b z by (simp add: map_update sum_list_update)
  have spans: "j < 256 \<Longrightarrow> sp_present ((block_spans s)[?i := ?sp] ! j) \<Longrightarrow>
      j < ?n \<and> sp_offset ((block_spans s)[?i := ?sp] ! j) + sp_len ((block_spans s)[?i := ?sp] ! j) \<le> length (block_payloads s) + length p"
    for j using wf b i by (cases "j = ?i") (auto simp: sd_wf_def nth_list_update intro: trans_le_add1)
  show ?thesis
    unfolding receive_piece_first [OF b np] sd_wf_def
    using wf i flags cnt len spans
    by (auto simp: sd_wf_def take_update_swap nth_list_update)
qed

lemma sd_wf_receive: "sd_wf s \<Longrightarrow> sd_wf (snd (receive_piece s b p))"
  using sd_wf_dup sd_wf_first receive_piece_out_of_range
  by (cases "unat b < blocks_count s"; cases "sp_present (block_spans s ! unat b)") auto

lemma sd_piece_receive:
  assumes "sd_wf s" "unat b < blocks_count s"
  shows "sd_piece (snd (receive_piece s b p)) i =
    (if i = unat b \<and> sd_piece s i = None then Some p else sd_piece s i)"
proof (cases "sp_present (block_spans s ! unat b)")
  case True
  have "unat b < 256" using assms by (auto simp: sd_wf_def)
  with True show ?thesis
    unfolding receive_piece_dup [OF assms(2) True] by (auto simp: sd_piece_def)
next
  case False
  have b: "unat b < 256" "length (block_spans s) = 256" using assms by (auto simp: sd_wf_def)
  show ?thesis
    unfolding receive_piece_first [OF assms(2) False]
    using assms(1) b False
    by (auto simp: sd_piece_def nth_list_update slice_append_left sd_wf_def) (simp add: slice_def)
qed

interpretation sliced_frag: fragment_collector sd_wf blocks_count sd_piece "\<lambda>p. p"
    "\<lambda>s i p. snd (receive_piece s (of_nat i) p)"
proof
  fix s i p j
  assume wf: "sd_wf s" and i: "i < blocks_count s"
  then have u: "unat (of_nat i :: u8) = i" by (simp add: sd_wf_def unat_of_nat)
  show "sd_wf (snd (receive_piece s (of_nat i) p))" by (rule sd_wf_receive [OF wf])
  show "blocks_count (snd (receive_piece s (of_nat i) p)) = blocks_count s" by simp
  show "sd_piece (snd (receive_piece s (of_nat i) p)) i = Some p \<or>
      sd_piece s i \<noteq> None \<and> sd_piece (snd (receive_piece s (of_nat i) p)) i = sd_piece s i"
    using sd_piece_receive [OF wf, of "of_nat i"] u i by auto
  assume "j \<noteq> i"
  then show "sd_piece (snd (receive_piece s (of_nat i) p)) j = sd_piece s j"
    using sd_piece_receive [OF wf, of "of_nat i"] u i by auto
qed

section \<open>Reassembly\<close>

lemma is_complete_iff:
  assumes "sd_wf s"
  shows "is_complete s \<longleftrightarrow> (\<forall>i < blocks_count s. sd_piece s i \<noteq> None)"
proof -
  let ?xs = "take (blocks_count s) (block_spans s)"
  have len: "length ?xs = blocks_count s" and n: "blocks_count s \<le> 256"
    using assms by (auto simp: sd_wf_def)
  have "is_complete s \<longleftrightarrow> (\<forall>x \<in> set ?xs. sp_present x)"
    using assms len length_filter_all [of sp_present ?xs] by (simp add: is_complete_def sd_wf_def)
  also have "\<dots> \<longleftrightarrow> (\<forall>i < blocks_count s. sp_present (block_spans s ! i))"
    using len by (auto simp: all_set_conv_all_nth)
  finally show ?thesis
    using n by (auto simp: sd_piece_def)
qed

definition span_bytes :: "bytes \<Rightarrow> block_span \<Rightarrow> bytes" where
  "span_bytes bs sp = slice (sp_offset sp) (sp_offset sp + sp_len sp) bs"

lemma spans_ordered_concat:
  "spans_ordered off sps \<Longrightarrow> off + sum_list (map sp_len sps) = length bs \<Longrightarrow>
     concat (map (span_bytes bs) sps) = drop off bs"
proof (induction sps arbitrary: off)
  case (Cons sp sps)
  then have "concat (map (span_bytes bs) sps) = drop (off + sp_len sp) bs"
    by (simp add: add.assoc)
  moreover have "take (sp_len sp) (drop off bs) @ drop (off + sp_len sp) bs = drop off bs"
    by (metis add.commute append_take_drop_id drop_drop)
  moreover have "span_bytes bs sp = take (sp_len sp) (drop off bs)"
    using Cons.prems by (simp add: span_bytes_def slice_def)
  ultimately show ?case by simp
qed simp

lemma reorder_blocks_eq:
  assumes "take (blocks_count s) (block_spans s) = sp # sps" "skip \<le> sp_len sp"
  shows "reorder_blocks s skip = drop skip (span_bytes (block_payloads s) sp) @ concat (map (span_bytes (block_payloads s)) sps)"
proof -
  have "map (\<lambda>(index, sp). slice (sp_offset sp + (if index = 0 then skip else 0)) (sp_offset sp + sp_len sp) bs)
      (enumerate (Suc 0) sps) = map (span_bytes bs) sps" for bs
    by (rule nth_equalityI) (auto simp: span_bytes_def nth_enumerate_eq)
  then show ?thesis
    using assms by (simp add: reorder_blocks_def span_bytes_def slice_def drop_take add.commute)
qed

lemma piece_list:
  assumes "sd_wf s" "is_complete s"
  shows "map (the \<circ> sd_piece s) [0..<blocks_count s] =
           map (span_bytes (block_payloads s)) (take (blocks_count s) (block_spans s))"
proof (rule nth_equalityI)
  show "length (map (the \<circ> sd_piece s) [0..<blocks_count s]) =
      length (map (span_bytes (block_payloads s)) (take (blocks_count s) (block_spans s)))"
    using assms(1) by (simp add: sd_wf_def)
  fix i assume "i < length (map (the \<circ> sd_piece s) [0..<blocks_count s])"
  then have i: "i < blocks_count s" by simp
  then have "sd_piece s i \<noteq> None" using is_complete_iff [OF assms(1)] assms(2) by blast
  with i assms(1) show "map (the \<circ> sd_piece s) [0..<blocks_count s] ! i =
      map (span_bytes (block_payloads s)) (take (blocks_count s) (block_spans s)) ! i"
    by (auto simp: sd_piece_def span_bytes_def sd_wf_def split: if_splits)
qed

text \<open>The message a list of blocks stands for: block 0 starts with the command byte (an empty block 0
  stands for command 0).\<close>

definition message_of :: "bytes list \<Rightarrow> u8 \<times> bytes" where
  "message_of blocks =
     (if hd blocks = [] then (0, concat blocks) else (hd (hd blocks), tl (concat blocks)))"

lemma assemble_message:
  assumes wf: "sd_wf s" and c: "is_complete s"
  shows "map_option (apsnd payload_deref) (fst (assemble s)) =
           Some (message_of (map (the \<circ> sd_piece s) [0..<blocks_count s]))"
proof -
  obtain sp sps where sp: "take (blocks_count s) (block_spans s) = sp # sps"
    using wf by (cases "take (blocks_count s) (block_spans s)") (auto simp: sd_wf_def)
  then have s0: "block_spans s ! 0 = sp"
    using wf by (metis nth_Cons_0 nth_take sd_wf_def Suc_le_eq One_nat_def)
  have "sd_piece s 0 \<noteq> None"
    using is_complete_iff [OF wf] c wf by (auto simp: sd_wf_def)
  then have "sp_present sp"
    using s0 by (auto simp: sd_piece_def split: if_splits)
  then have le: "sp_offset sp + sp_len sp \<le> length (block_payloads s)"
    using wf s0 by (auto simp: sd_wf_def)
  let ?bs = "block_payloads s" and ?skip = "if sp_len sp \<noteq> 0 then 1 else 0 :: nat"
  have tot: "sum_list (map sp_len (sp # sps)) = length ?bs"
    using wf sp by (simp add: sd_wf_def)
  have len0: "length (span_bytes ?bs sp) = sp_len sp"
    using le by (simp add: span_bytes_def length_slice)
  have cmd: "sp_len sp \<noteq> 0 \<Longrightarrow> hd (span_bytes ?bs sp) = ?bs ! sp_offset sp"
    using le by (simp add: span_bytes_def slice_def hd_drop_conv_nth)
  have data: "map_option payload_deref
      (if spans_ordered 0 (sp # sps) then payload_restrict (payload_from ?bs) ?skip (length ?bs)
       else Some (payload_from (reorder_blocks s ?skip))) = Some (drop ?skip (concat (map (span_bytes ?bs) (sp # sps))))"
  proof (cases "spans_ordered 0 (sp # sps)")
    case True
    then have "concat (map (span_bytes ?bs) (sp # sps)) = ?bs"
      using spans_ordered_concat [of 0 "sp # sps" ?bs] tot by simp
    moreover have "?skip \<le> length ?bs" using le by auto
    ultimately show ?thesis
      using True by (simp add: payload_restrict_def payload_from_def payload_deref_def)
  next
    case False
    have "reorder_blocks s ?skip = drop ?skip (concat (map (span_bytes ?bs) (sp # sps)))"
      by (subst reorder_blocks_eq [OF sp]) (simp_all add: len0)
    with False show ?thesis
      by (simp only: if_not_P option.map) (simp add: payload_from_def payload_deref_def)
  qed
  define M where "M = concat (map (span_bytes ?bs) (sp # sps))"
  have out: "map_option (apsnd payload_deref) (fst (assemble s)) =
      Some (if sp_len sp = 0 then 0 else ?bs ! sp_offset sp, drop ?skip M)"
    using c data [folded M_def]
    by (cases "spans_ordered 0 (sp # sps)") (auto simp: assemble_def Let_def s0 sp)
  have "span_bytes ?bs sp = [] \<longleftrightarrow> sp_len sp = 0" using len0 by auto
  then have "message_of (map (the \<circ> sd_piece s) [0..<blocks_count s]) =
      (if sp_len sp = 0 then (0, M) else (hd (span_bytes ?bs sp), tl M))"
    unfolding piece_list [OF wf c] message_of_def sp M_def by simp
  with out cmd show ?thesis
    by (cases "sp_len sp = 0") (simp_all add: drop_Suc)
qed

lemma collect_blocks:
  "foldl (\<lambda>s i. snd (receive_piece s (of_nat i) (blocks ! i))) s order =
     sliced_frag.collect s (map (\<lambda>i. (i, blocks ! i)) order)"
  by (induction order arbitrary: s) simp_all

lemma blocks_count_new: "length blocks \<le> 256 \<Longrightarrow> 1 \<le> length blocks \<Longrightarrow>
    blocks_count (sliced_data_new d (of_nat (length blocks - 1))) = length blocks"
  using unat_of_nat_byte [of "length blocks - 1"] by (simp add: sliced_data_new_def del: of_nat_diff)

lemma collected:
  fixes d :: u16 and blocks :: "bytes list" and order :: "nat list"
  defines "s \<equiv> foldl (\<lambda>s i. snd (receive_piece s (of_nat i) (blocks ! i)))
              (sliced_data_new d (of_nat (length blocks - 1))) order"
  assumes "1 \<le> length blocks" "length blocks \<le> 256" "set order \<subseteq> {..<length blocks}"
  shows "sd_wf s" "blocks_count s = length blocks"
    "sd_piece s i = (if i \<in> set order then Some (blocks ! i) else None)"
proof -
  define s0 where "s0 = sliced_data_new d (of_nat (length blocks - 1))"
  define ps where "ps = map (\<lambda>i. (i, blocks ! i)) order"
  have s: "s = sliced_frag.collect s0 ps"
    unfolding s_def collect_blocks s0_def ps_def ..
  have n: "blocks_count s0 = length blocks"
    unfolding s0_def by (rule blocks_count_new [OF assms(3,2)])
  have wf0: "sd_wf s0" unfolding s0_def by (rule sd_wf_new)
  have ps: "\<forall>(i, p) \<in> set ps. i < blocks_count s0 \<and> p = blocks ! i"
    using assms(4) n by (auto simp: ps_def)
  then have "\<forall>(i, p) \<in> set ps. i < blocks_count s0" by auto
  from sliced_frag.collect_inv [OF wf0 this] n
  show "sd_wf s" "blocks_count s = length blocks" by (simp_all add: s)
  have "\<forall>i. sd_piece s0 i \<noteq> None \<longrightarrow> sd_piece s0 i = Some (blocks ! i)"
    by (simp add: s0_def sd_piece_new)
  from sliced_frag.collect_piece [OF wf0 ps this, of i]
  show "sd_piece s i = (if i \<in> set order then Some (blocks ! i) else None)"
    unfolding s by (simp add: s0_def sd_piece_new image_image ps_def)
qed

text \<open>C23: Reassembly.  However the blocks of a datagram arrive, in any order and with any number of
  duplicates, once every block has arrived the assembled message is the concatenation of the blocks
  in index order with the command byte taken from block 0; the in-order fast path and the
  reordering path agree.\<close>

theorem sliced_reassembly:
  assumes "1 \<le> length blocks" "length blocks \<le> 256" "set order = {..<length blocks}"
  shows "map_option (apsnd payload_deref) (fst (assemble
           (foldl (\<lambda>s i. snd (receive_piece s (of_nat i) (blocks ! i)))
              (sliced_data_new d (of_nat (length blocks - 1))) order))) = Some (message_of blocks)"
proof -
  have sub: "set order \<subseteq> {..<length blocks}" using assms(3) by simp
  define s where "s = foldl (\<lambda>s i. snd (receive_piece s (of_nat i) (blocks ! i)))
      (sliced_data_new d (of_nat (length blocks - 1))) order"
  note c = collected [OF assms(1,2) sub, of d, folded s_def]
  have piece: "sd_piece s i = Some (blocks ! i)" if "i < length blocks" for i
    using c(3) [of i] that assms(3) by simp
  then have "is_complete s" using is_complete_iff [OF c(1)] c(2) by simp
  moreover have "map (the \<circ> sd_piece s) [0..<length blocks] = map ((!) blocks) [0..<length blocks]"
    by (rule map_cong) (simp_all add: piece)
  ultimately have "map_option (apsnd payload_deref) (fst (assemble s)) = Some (message_of blocks)"
    using assemble_message [OF c(1)] c(2) by (simp only: map_nth)
  then show ?thesis unfolding s_def .
qed

theorem sliced_reassembly_witness:
  "map_option (apsnd payload_deref) (fst (assemble
     (foldl (\<lambda>s i. snd (receive_piece s (of_nat i) ([[28, 1], [2, 3], [4]] ! i)))
        (sliced_data_new 7 (of_nat (length [[28, 1], [2, 3], [4 :: byte]] - 1))) [2, 0, 0, 1])))
   = Some (28, [1, 2, 3, 4])"
proof -
  have "set [2, 0, 0, 1] = {..<length [[28, 1], [2, 3], [4 :: byte]]}" by auto
  from sliced_reassembly [OF _ _ this, of 7] show ?thesis
    by (simp add: message_of_def)
qed

text \<open>C24: Acknowledgements are truthful.  After any sequence of block arrivals for one datagram, the
  flag of a block is set exactly when that block has arrived.\<close>

theorem ack_flags_exact:
  assumes "1 \<le> length blocks" "length blocks \<le> 256" "set order \<subseteq> {..<length blocks}" "i < 256"
  shows "flag_bit (ack_flags (foldl (\<lambda>s i. snd (receive_piece s (of_nat i) (blocks ! i)))
              (sliced_data_new d (of_nat (length blocks - 1))) order)) i \<longleftrightarrow> i \<in> set order"
proof -
  define s where "s = foldl (\<lambda>s i. snd (receive_piece s (of_nat i) (blocks ! i)))
      (sliced_data_new d (of_nat (length blocks - 1))) order"
  note c = collected [OF assms(1-3), of d, folded s_def]
  have "flag_bit (ack_flags s) i \<longleftrightarrow> i \<in> set order"
    using c(1) c(3) [of i] assms(4) by (auto simp: sd_wf_def sd_piece_def split: if_splits)
  then show ?thesis unfolding s_def .
qed

theorem ack_flags_exact_witness:
  "flag_bit (ack_flags (foldl (\<lambda>s i. snd (receive_piece s (of_nat i) ([[28, 1], [2, 3], [4]] ! i)))
        (sliced_data_new 7 (of_nat (length [[28, 1], [2, 3], [4 :: byte]] - 1))) [2, 2])) 2"
  using ack_flags_exact [of "[[28, 1], [2, 3], [4]]" "[2, 2]" 2 7] by simp

section \<open>Exactly-once delivery\<close>

definition slice_packet :: "u16 \<Rightarrow> bytes list \<Rightarrow> nat \<Rightarrow> bytes" where
  "slice_packet d blocks i =
     slice_header_bytes \<lparr>sl_datagram_num = d, sl_block_num = of_nat i, sl_max_block_num = of_nat (length blocks - 1)\<rparr>
       @ blocks ! i"

text \<open>A run of routed packets, each with its time stamp; a packet that is not sliced only moves the
  clock.\<close>

primrec rx_run ::
  "u32 \<Rightarrow> (millis \<times> bytes option) list \<Rightarrow> slicing_receiver
     \<Rightarrow> (u16 \<times> u8 \<times> payload \<times> u8 \<times> nat) list \<times> slicing_receiver" where
  "rx_run session [] r = ([], r)"
| "rx_run session (e # es) r =
     (let (out, r1) = (case snd e of
                         None \<Rightarrow> (None, rx_tick (fst e) r)
                       | Some data \<Rightarrow> (let ((a, _), r1) = rx_sliced session (fst e) data r in (a, r1)));
          (outs, r2) = rx_run session es r1
      in (case out of None \<Rightarrow> outs | Some a \<Rightarrow> a # outs, r2))"

text \<open>Packets of the window \<open>t0 \<le> t \<le> t0 + 9000\<close> in which everything sent under number \<open>d\<close> is a slice
  of one datagram and no other datagram uses the time stamp slot of \<open>d\<close>.\<close>

definition event_ok :: "u16 \<Rightarrow> bytes list \<Rightarrow> millis \<Rightarrow> millis \<times> bytes option \<Rightarrow> bool" where
  "event_ok d blocks t0 e \<longleftrightarrow>
     t0 \<le> fst e \<and> fst e \<le> t0 + TIME_WHEN_CAN_RECEIVE_RPT \<and>
     (case snd e of
        None \<Rightarrow> True
      | Some data \<Rightarrow>
          (case slice_header_from_bytes data of
             None \<Rightarrow> True
           | Some h \<Rightarrow>
               if sl_datagram_num h = d then data \<in> set (map (slice_packet d blocks) [0..<length blocks])
               else slot (sl_datagram_num h) \<noteq> slot d))"

definition blocks_seen :: "u16 \<Rightarrow> bytes list \<Rightarrow> (millis \<times> bytes option) list \<Rightarrow> nat set" where
  "blocks_seen d blocks es = {i. i < length blocks \<and> Some (slice_packet d blocks i) \<in> snd ` set es}"

definition sd_holds :: "bytes list \<Rightarrow> nat set \<Rightarrow> sliced_data \<Rightarrow> bool" where
  "sd_holds blocks S sd \<longleftrightarrow>
     sd_wf sd \<and> \<not> completion_returned sd \<and> blocks_count sd = length blocks \<and>
     (\<forall>i. sd_piece sd i = (if i \<in> S then Some (blocks ! i) else None))"

definition rx_inv :: "u16 \<Rightarrow> bytes list \<Rightarrow> millis \<Rightarrow> nat set \<Rightarrow> slicing_receiver \<Rightarrow> bool" where
  "rx_inv d blocks t0 S r \<longleftrightarrow>
     S \<subseteq> {..<length blocks} \<and>
     (\<forall>e \<in> set (receiving r). fst e \<noteq> d \<longrightarrow> slot (fst e) \<noteq> slot d) \<and>
     (if S = {} then map_of (receiving r) d = None \<and> last_recvd_ts r (slot d) < t0 - TIME_WHEN_CAN_RECEIVE_RPT
      else t0 \<le> last_recvd_ts r (slot d) \<and> last_recvd_ts r (slot d) \<le> t0 + TIME_WHEN_CAN_RECEIVE_RPT \<and>
           (if S = {..<length blocks} then map_of (receiving r) d = None
            else \<exists>sd. map_of (receiving r) d = Some sd \<and> sd_holds blocks S sd))"

lemma clear_old_loop_keeps:
  assumes "clear_old_loop now es ts = (kept, ts')"
    and "\<forall>e \<in> set es. fst e \<noteq> d \<longrightarrow> slot (fst e) \<noteq> slot d"
    and "map_of es d = None \<or> \<bar>now - ts (slot d)\<bar> \<le> TIME_WHEN_CAN_RECEIVE_RPT"
  shows "set kept \<subseteq> set es \<and> map_of kept d = map_of es d \<and> ts' (slot d) = ts (slot d)"
  using assms
proof (induction es arbitrary: ts kept)
  case (Cons e es)
  show ?case
  proof (cases "\<bar>now - ts (slot (fst e))\<bar> > TIME_WHEN_CAN_RECEIVE_RPT")
    case True
    then have "fst e \<noteq> d" using Cons.prems(3) by (cases e) (auto split: if_splits)
    moreover from this have "slot (fst e) \<noteq> slot d" using Cons.prems(2) by simp
    moreover define ts1 where "ts1 = ts(slot (fst e) := now)"
    ultimately have "clear_old_loop now es ts1 = (kept, ts')" "ts1 (slot d) = ts (slot d)"
        "map_of (e # es) d = map_of es d"
      using Cons.prems(1) True by (cases e, simp_all)+
    with Cons.IH [of ts1 kept] Cons.prems(2,3) show ?thesis by auto
  next
    case False
    then show ?thesis
      using Cons.IH [of ts "tl kept"] Cons.prems
      by (cases e) (auto simp: case_prod_unfold Let_def split: if_splits)
  qed
qed simp

text \<open>What a packet does outside its own datagram: nothing.\<close>

lemma add_piece_frame:
  assumes "add_piece r session h block sd = ((out, ack), r')"
  shows "(\<exists>v. receiving r' = map_insert (sl_datagram_num h) v (receiving r)) \<and> last_recvd_ts r' = last_recvd_ts r \<and>
    (out \<noteq> None \<longrightarrow> fst (the out) = sl_datagram_num h)"
proof -
  obtain c s1 where p: "receive_piece sd (sl_block_num h) block = (c, s1)" by (metis surj_pair)
  obtain a s2 where a: "assemble s1 = (a, s2)" by (metis surj_pair)
  show ?thesis
    using assms by (cases a; cases c) (auto simp: add_piece_def Let_def p a)
qed

lemma on_new_sliced_frame:
  assumes "slice_header_from_bytes data = Some h" "sl_datagram_num h = k"
    and "on_new_sliced_with_session r data session = ((out, ack), r')"
  shows "set (receiving r') \<subseteq> {e. fst e = k} \<union> set (receiving r)"
    "j \<noteq> k \<Longrightarrow> map_of (receiving r') j = map_of (receiving r) j"
    "i \<noteq> slot k \<Longrightarrow> last_recvd_ts r' i = last_recvd_ts r i"
    "out \<noteq> None \<Longrightarrow> fst (the out) = k"
proof -
  obtain new r1 where new: "is_new_datagram r k = (new, r1)" by (metis surj_pair)
  then have r1: "receiving r1 = receiving r" "i \<noteq> slot k \<Longrightarrow> last_recvd_ts r1 i = last_recvd_ts r i" for i
    by (auto simp: is_new_datagram_def Let_def)
  have "receiving r' = receiving r \<and> last_recvd_ts r' = last_recvd_ts r1 \<and> out = None
    \<or> (\<exists>v. receiving r' = map_insert k v (receiving r) \<and> last_recvd_ts r' = last_recvd_ts r1 \<and> out = None)
    \<or> (\<exists>v. add_piece (r1\<lparr>receiving := map_insert k v (receiving r)\<rparr>) session h
             (drop SLICE_HEADER_SIZE data) v = ((out, ack), r'))"
    using assms(3) unfolding on_new_sliced_with_session_def
    by (simp add: assms(1,2) new r1 Let_def split: option.split_asm if_split_asm) (auto simp: r1)
  then have "(\<exists>v. receiving r' = map_insert k v (receiving r) \<or> receiving r' = receiving r
      \<or> (\<exists>w. receiving r' = map_insert k w (map_insert k v (receiving r))))
    \<and> last_recvd_ts r' = last_recvd_ts r1 \<and> (out \<noteq> None \<longrightarrow> fst (the out) = k)"
    using add_piece_frame [where r' = r' and out = out and ack = ack and h = h and session = session
        and block = "drop SLICE_HEADER_SIZE data"] assms(2) by fastforce
  then show "set (receiving r') \<subseteq> {e. fst e = k} \<union> set (receiving r)"
    "j \<noteq> k \<Longrightarrow> map_of (receiving r') j = map_of (receiving r) j"
    "i \<noteq> slot k \<Longrightarrow> last_recvd_ts r' i = last_recvd_ts r i"
    "out \<noteq> None \<Longrightarrow> fst (the out) = k"
    using r1 by (auto simp: map_of_insert set_map_insert)
qed

lemma rx_tick_inv:
  assumes "rx_inv d blocks t0 S r" "t0 \<le> t" "t \<le> t0 + TIME_WHEN_CAN_RECEIVE_RPT"
  shows "rx_inv d blocks t0 S (rx_tick t r)" "rx_last_online (rx_tick t r) = t"
proof -
  obtain kept ts where l: "clear_old_loop t (receiving r) (last_recvd_ts r) = (kept, ts)"
    by (metis surj_pair)
  have "map_of (receiving r) d = None \<or> \<bar>t - last_recvd_ts r (slot d)\<bar> \<le> TIME_WHEN_CAN_RECEIVE_RPT"
    using assms by (auto simp: rx_inv_def split: if_splits)
  with clear_old_loop_keeps [OF l, of d] assms(1)
  have k: "set kept \<subseteq> set (receiving r)" "map_of kept d = map_of (receiving r) d"
      "ts (slot d) = last_recvd_ts r (slot d)"
    by (auto simp: rx_inv_def)
  show "rx_last_online (rx_tick t r) = t"
    by (simp add: rx_tick_def do_cleanup_def set_last_online_def clear_old_def l)
  show "rx_inv d blocks t0 S (rx_tick t r)"
    using assms(1) k
    by (auto simp: rx_inv_def rx_tick_def do_cleanup_def set_last_online_def clear_old_def l)
qed

lemma rx_other:
  assumes "rx_inv d blocks t0 S r" "t0 \<le> t" "t \<le> t0 + TIME_WHEN_CAN_RECEIVE_RPT"
    and "slice_header_from_bytes data = Some h" "slot (sl_datagram_num h) \<noteq> slot d"
    and "rx_sliced session t data r = ((out, ack), r')"
  shows "rx_inv d blocks t0 S r'" "out \<noteq> None \<Longrightarrow> fst (the out) \<noteq> d"
proof -
  let ?k = "sl_datagram_num h" and ?r = "rx_tick t r"
  obtain o1 a1 r1 where on: "on_new_sliced_with_session ?r data session = ((o1, a1), r1)"
    by (metis surj_pair)
  note fr = on_new_sliced_frame [OF assms(4) refl on]
  have k: "?k \<noteq> d" using assms(5) by auto
  have out: "out = o1" and r': "r' = (case o1 of None \<Rightarrow> r1 | Some (k, _) \<Rightarrow> r1\<lparr>receiving := map_remove k (receiving r1)\<rparr>)"
    using assms(6) by (auto simp: rx_sliced_def Let_def assms(4) on)
  show "out \<noteq> None \<Longrightarrow> fst (the out) \<noteq> d" using fr(4) k out by simp
  have "set (receiving r') \<subseteq> {e. fst e = ?k} \<union> set (receiving ?r)"
      "map_of (receiving r') d = map_of (receiving ?r) d" "last_recvd_ts r' (slot d) = last_recvd_ts ?r (slot d)"
    using fr(1,4) fr(2) [of d] fr(3) [of "slot d"] k assms(5)
    by (auto simp: r' set_map_remove map_of_remove split: option.splits)
  with rx_tick_inv(1) [OF assms(1-3)] assms(5) show "rx_inv d blocks t0 S r'"
    by (auto simp: rx_inv_def)
qed

lemma slice_packet_header:
  "slice_header_from_bytes (slice_packet d blocks i) =
     Some \<lparr>sl_datagram_num = d, sl_block_num = of_nat i, sl_max_block_num = of_nat (length blocks - 1)\<rparr>"
  "drop SLICE_HEADER_SIZE (slice_packet d blocks i) = blocks ! i"
  by (simp_all add: slice_packet_def wire_defs slice_def nth_append)

lemma sd_holds_new:
  "1 \<le> length blocks \<Longrightarrow> length blocks \<le> 256 \<Longrightarrow>
     sd_holds blocks {} (sliced_data_new d (of_nat (length blocks - 1)))"
  unfolding sd_holds_def sd_piece_new using blocks_count_new [of blocks d]
  by (simp add: sd_wf_new del: of_nat_diff) (simp add: sliced_data_new_def)

lemma sd_holds_receive:
  assumes "sd_holds blocks S sd" "i < length blocks" "length blocks \<le> 256"
  shows "sd_holds blocks (insert i S) (snd (receive_piece sd (of_nat i) (blocks ! i)))"
    "S \<subseteq> {..<length blocks} \<Longrightarrow>
       fst (receive_piece sd (of_nat i) (blocks ! i)) \<longleftrightarrow> insert i S = {..<length blocks}"
proof -
  let ?s = "snd (receive_piece sd (of_nat i) (blocks ! i))"
  have i: "unat (of_nat i :: byte) = i" using assms by (intro unat_of_nat_byte) simp
  show *: "sd_holds blocks (insert i S) ?s"
    using assms i sd_wf_receive [of sd "of_nat i" "blocks ! i"]
      sd_piece_receive [of sd "of_nat i" "blocks ! i"]
    by (auto simp: sd_holds_def)
  assume S: "S \<subseteq> {..<length blocks}"
  have "is_complete ?s \<longleftrightarrow> (\<forall>j < length blocks. j \<in> insert i S)"
    using * is_complete_iff [of ?s] by (auto simp: sd_holds_def)
  also have "\<dots> \<longleftrightarrow> insert i S = {..<length blocks}" using S assms(2) by auto
  finally show "fst (receive_piece sd (of_nat i) (blocks ! i)) \<longleftrightarrow> insert i S = {..<length blocks}"
    using assms i unfolding receive_piece_complete sd_holds_def by simp
qed

lemma add_piece_holds:
  assumes hd: "sd_holds blocks S sd" and i: "i < length blocks" "length blocks \<le> 256" and S: "S \<subseteq> {..<length blocks}"
    and h: "sl_datagram_num h = d" "sl_block_num h = of_nat i"
    and run: "add_piece r session h (blocks ! i) sd = ((out, ack), r')"
  shows "map_option (\<lambda>(d, cmd, data, _). (d, cmd, payload_deref data)) out =
      (if insert i S = {..<length blocks} then Some (d, message_of blocks) else None)"
    "\<exists>sd'. receiving r' = map_insert d sd' (receiving r) \<and>
       (insert i S \<noteq> {..<length blocks} \<longrightarrow> sd_holds blocks (insert i S) sd')"
    "last_recvd_ts r' = last_recvd_ts r"
proof -
  obtain c s1 where p: "receive_piece sd (of_nat i) (blocks ! i) = (c, s1)" by (metis surj_pair)
  have c: "c \<longleftrightarrow> insert i S = {..<length blocks}" and s1: "sd_holds blocks (insert i S) s1"
    using sd_holds_receive [OF hd i] S p by simp_all
  obtain a s2 where a: "assemble s1 = (a, s2)" by (metis surj_pair)
  have msg: "map_option (apsnd payload_deref) a = Some (message_of blocks)" if "insert i S = {..<length blocks}"
  proof -
    have piece: "sd_piece s1 j = Some (blocks ! j)" if "j < length blocks" for j
      using s1 that \<open>insert i S = _\<close> by (simp add: sd_holds_def)
    have "is_complete s1" using s1 is_complete_iff [of s1] piece by (simp add: sd_holds_def)
    moreover have "map (the \<circ> sd_piece s1) [0..<length blocks] = map ((!) blocks) [0..<length blocks]"
      by (rule map_cong) (simp_all add: piece)
    ultimately show ?thesis
      using assemble_message [of s1] s1 a by (simp add: sd_holds_def map_nth)
  qed
  show "map_option (\<lambda>(d, cmd, data, _). (d, cmd, payload_deref data)) out =
      (if insert i S = {..<length blocks} then Some (d, message_of blocks) else None)"
    using run c msg by (cases a) (auto simp: add_piece_def Let_def h p a split: if_splits)
  show "\<exists>sd'. receiving r' = map_insert d sd' (receiving r) \<and>
       (insert i S \<noteq> {..<length blocks} \<longrightarrow> sd_holds blocks (insert i S) sd')"
    using run c s1 by (auto simp: add_piece_def Let_def h p a split: if_splits)
  show "last_recvd_ts r' = last_recvd_ts r"
    using run by (auto simp: add_piece_def Let_def h p a split: if_splits)
qed

lemma on_new_sliced_done:
  "slice_header_from_bytes data = Some h \<Longrightarrow> is_new_datagram r (sl_datagram_num h) = (False, r1) \<Longrightarrow>
   map_of (receiving r1) (sl_datagram_num h) = None \<Longrightarrow>
   on_new_sliced_with_session r data session =
     ((None, build_ack_bytes all_flags (sl_datagram_num h) session),
      r1\<lparr>duplicate_blocks := sat_add_u64 (duplicate_blocks r1) 1\<rparr>)"
  by (simp add: on_new_sliced_with_session_def Let_def)

lemma on_new_sliced_add:
  "slice_header_from_bytes data = Some h \<Longrightarrow> is_new_datagram r (sl_datagram_num h) = (new, r1) \<Longrightarrow>
   new \<and> sd = sliced_data_new (sl_datagram_num h) (sl_max_block_num h) \<or>
     \<not> new \<and> map_of (receiving r1) (sl_datagram_num h) = Some sd \<and> blocks_count sd - 1 = unat (sl_max_block_num h) \<Longrightarrow>
   \<not> completion_returned sd \<Longrightarrow>
   on_new_sliced_with_session r data session =
     add_piece (r1\<lparr>receiving := map_insert (sl_datagram_num h) sd (receiving r1)\<rparr>) session h
       (drop SLICE_HEADER_SIZE data) sd"
  by (cases new) (auto simp: on_new_sliced_with_session_def Let_def)

lemma rx_own:
  assumes inv: "rx_inv d blocks t0 S r" and t: "t0 \<le> t" "t \<le> t0 + TIME_WHEN_CAN_RECEIVE_RPT"
    and n: "length blocks \<le> 256" and i: "i < length blocks"
    and run: "rx_sliced session t (slice_packet d blocks i) r = ((out, ack), r')"
  shows "rx_inv d blocks t0 (insert i S) r'"
    "map_option (\<lambda>(d, cmd, data, _). (d, cmd, payload_deref data)) out =
       (if S \<noteq> {..<length blocks} \<and> insert i S = {..<length blocks} then Some (d, message_of blocks) else None)"
proof -
  let ?r = "rx_tick t r" and ?n = "length blocks"
  let ?h = "\<lparr>sl_datagram_num = d, sl_block_num = of_nat i, sl_max_block_num = of_nat (length blocks - 1)\<rparr>"
  note inv1 = rx_tick_inv(1) [OF inv t] and now = rx_tick_inv(2) [OF inv t]
  obtain o1 a1 r1 where on: "on_new_sliced_with_session ?r (slice_packet d blocks i) session = ((o1, a1), r1)"
    by (metis surj_pair)
  have out: "out = o1" and r': "r' = (case o1 of None \<Rightarrow> r1 | Some (k, _) \<Rightarrow> r1\<lparr>receiving := map_remove k (receiving r1)\<rparr>)"
    using run by (auto simp: rx_sliced_def Let_def slice_packet_header(1) on)
  obtain new r2 where new: "is_new_datagram ?r d = (new, r2)" by (metis surj_pair)
  have S: "S \<subseteq> {..<?n}" using inv by (simp add: rx_inv_def)
  have new_iff: "new \<longleftrightarrow> S = {}"
    and r2: "receiving r2 = receiving ?r" "t0 \<le> last_recvd_ts r2 (slot d)"
      "last_recvd_ts r2 (slot d) \<le> t0 + TIME_WHEN_CAN_RECEIVE_RPT"
    using new inv1 t now by (auto simp: is_new_datagram_def Let_def rx_inv_def split: if_splits)
  have others: "\<forall>e \<in> set (receiving ?r). fst e \<noteq> d \<longrightarrow> slot (fst e) \<noteq> slot d"
    using inv1 by (simp add: rx_inv_def)
  show "rx_inv d blocks t0 (insert i S) r'"
    "map_option (\<lambda>(d, cmd, data, _). (d, cmd, payload_deref data)) out =
       (if S \<noteq> {..<?n} \<and> insert i S = {..<?n} then Some (d, message_of blocks) else None)"
  proof (atomize (full), cases "S = {..<?n}")
    case True
    then have ne: "S \<noteq> {}" and "insert i S = S" using i by auto
    moreover have none: "map_of (receiving r2) d = None"
      using inv1 True ne r2(1) by (simp add: rx_inv_def)
    ultimately show "rx_inv d blocks t0 (insert i S) r' \<and>
      map_option (\<lambda>(d, cmd, data, _). (d, cmd, payload_deref data)) out =
       (if S \<noteq> {..<?n} \<and> insert i S = {..<?n} then Some (d, message_of blocks) else None)"
      using True on on_new_sliced_done [OF slice_packet_header(1) [of d blocks i], of ?r r2 session] new new_iff r2 others
      unfolding out r' rx_inv_def by auto
  next
    case False
    have "unat (of_nat (?n - 1) :: byte) = ?n - 1" using n i by (intro unat_of_nat_byte) simp
    with inv1 False new_iff r2(1) sd_holds_new [of blocks d] n i
    obtain sd where sd: "sd_holds blocks S sd"
      and "new \<and> sd = sliced_data_new d (of_nat (?n - 1)) \<or>
        \<not> new \<and> map_of (receiving r2) d = Some sd \<and> blocks_count sd - 1 = unat (of_nat (?n - 1) :: byte)"
      by (cases "S = {}") (auto simp: rx_inv_def sd_holds_def simp del: of_nat_diff)
    with on on_new_sliced_add [OF slice_packet_header(1) [of d blocks i], of ?r new r2 sd session] new
    have add: "add_piece (r2\<lparr>receiving := map_insert d sd (receiving r2)\<rparr>) session ?h (blocks ! i) sd = ((o1, a1), r1)"
      by (simp add: sd_holds_def slice_packet_header(2) del: of_nat_diff)
    from add_piece_holds [OF sd i n S _ _ add] obtain sd'
      where rec: "receiving r1 = map_insert d sd' (map_insert d sd (receiving ?r))"
        "insert i S \<noteq> {..<?n} \<Longrightarrow> sd_holds blocks (insert i S) sd'"
      and ts: "last_recvd_ts r1 = last_recvd_ts r2"
      and res: "map_option (\<lambda>(d, cmd, data, _). (d, cmd, payload_deref data)) o1 =
        (if insert i S = {..<?n} then Some (d, message_of blocks) else None)"
      by (auto simp: r2(1))
    have oth: "\<forall>e \<in> set (receiving r1). fst e \<noteq> d \<longrightarrow> slot (fst e) \<noteq> slot d"
      using others unfolding rec(1) set_map_insert by auto
    have iS: "insert i S \<subseteq> {..<?n}" using S i by simp
    have "rx_inv d blocks t0 (insert i S) r'"
    proof (cases "insert i S = {..<?n}")
      case True
      then obtain c x y where "o1 = Some (d, c, x, y)" using res by (cases o1) auto
      then have "r' = r1\<lparr>receiving := map_remove d (receiving r1)\<rparr>" using r' by simp
      then show ?thesis
        using True oth ts r2 i unfolding rx_inv_def
        by (auto simp: map_of_remove set_map_remove)
    next
      case nfull: False
      then have "r' = r1" using res r' by (cases o1) auto
      then show ?thesis
        using nfull oth iS ts r2 rec unfolding rx_inv_def by (simp add: map_of_insert)
    qed
    with res False show "rx_inv d blocks t0 (insert i S) r' \<and>
      map_option (\<lambda>(d, cmd, data, _). (d, cmd, payload_deref data)) out =
       (if S \<noteq> {..<?n} \<and> insert i S = {..<?n} then Some (d, message_of blocks) else None)"
      unfolding out by simp
  qed
qed

lemma slice_packet_inj:
  assumes "i < length blocks" "j < length blocks" "length blocks \<le> 256"
  shows "slice_packet d blocks i = slice_packet d blocks j \<longleftrightarrow> i = j"
proof
  assume "slice_packet d blocks i = slice_packet d blocks j"
  from arg_cong [OF this, of "\<lambda>p. map_option sl_block_num (slice_header_from_bytes p)"]
  have "(of_nat i :: byte) = of_nat j"
    by (simp only: slice_packet_header option.map option.inject slice_header.simps)
  then show "i = j" using assms by (metis order.strict_trans2 unat_of_nat_byte)
qed simp

lemma blocks_seen_Cons:
  assumes "length blocks \<le> 256"
  shows "blocks_seen d blocks ((t, None) # es) = blocks_seen d blocks es"
    "i < length blocks \<Longrightarrow>
       blocks_seen d blocks ((t, Some (slice_packet d blocks i)) # es) = insert i (blocks_seen d blocks es)"
    "map_option sl_datagram_num (slice_header_from_bytes data) \<noteq> Some d \<Longrightarrow>
       blocks_seen d blocks ((t, Some data) # es) = blocks_seen d blocks es"
  using assms by (auto simp: blocks_seen_def slice_packet_inj slice_packet_header)

text \<open>The outputs of a run that belong to datagram \<open>d\<close>, as command byte and data.\<close>

definition outputs_for :: "u16 \<Rightarrow> (u16 \<times> u8 \<times> payload \<times> u8 \<times> nat) list \<Rightarrow> (u8 \<times> bytes) list" where
  "outputs_for d outs = map (\<lambda>(_, cmd, data, _). (cmd, payload_deref data)) (filter (\<lambda>out. fst out = d) outs)"

lemma outputs_for_Cons:
  "outputs_for d (case out of None \<Rightarrow> outs | Some a \<Rightarrow> a # outs) =
     (if out \<noteq> None \<and> fst (the out) = d then [case the out of (_, cmd, data, _) \<Rightarrow> (cmd, payload_deref data)] else [])
       @ outputs_for d outs"
  by (cases out) (auto simp: outputs_for_def)

lemma rx_run_outputs:
  assumes n: "length blocks \<le> 256"
  shows "rx_inv d blocks t0 S r \<Longrightarrow> \<forall>e \<in> set es. event_ok d blocks t0 e \<Longrightarrow>
    outputs_for d (fst (rx_run session es r)) =
      (if S \<noteq> {..<length blocks} \<and> S \<union> blocks_seen d blocks es = {..<length blocks} then [message_of blocks] else [])"
proof (induction es arbitrary: S r)
  case Nil
  then show ?case by (simp add: blocks_seen_def outputs_for_def)
next
  case (Cons e es)
  obtain t p where e: "e = (t, p)" by (cases e)
  have t: "t0 \<le> t" "t \<le> t0 + TIME_WHEN_CAN_RECEIVE_RPT" and ok: "event_ok d blocks t0 e"
    and oks: "\<forall>e \<in> set es. event_ok d blocks t0 e"
    using Cons.prems(2) by (simp_all add: event_ok_def e)
  note IH = Cons.IH [OF _ oks] and tick = rx_tick_inv(1) [OF Cons.prems(1) t]
  show ?case
  proof (cases p)
    case None
    then show ?thesis
      using IH [OF tick] by (simp add: e blocks_seen_Cons(1) [OF n] case_prod_unfold Let_def)
  next
    case (Some data)
    obtain out ack r' where run: "rx_sliced session t data r = ((out, ack), r')" by (metis surj_pair)
    then have step: "outputs_for d (fst (rx_run session (e # es) r)) =
        outputs_for d (case out of None \<Rightarrow> fst (rx_run session es r') | Some a \<Rightarrow> a # fst (rx_run session es r'))"
      by (cases out) (simp_all add: e Some case_prod_unfold Let_def)
    show ?thesis
    proof (cases "slice_header_from_bytes data")
      case None
      with run have "out = None" "r' = rx_tick t r" by (simp_all add: rx_sliced_def Let_def)
      with IH [OF tick] step None show ?thesis
        by (simp add: e Some blocks_seen_Cons(3) [OF n])
    next
      case (Some h)
      show ?thesis
      proof (cases "sl_datagram_num h = d")
        case True
        with ok Some e \<open>p = Some data\<close> obtain i where i: "i < length blocks" "data = slice_packet d blocks i"
          by (auto simp: event_ok_def)
        note own = rx_own [OF Cons.prems(1) t n i(1) run [unfolded i(2)]]
        have seen: "S \<union> blocks_seen d blocks (e # es) = insert i S \<union> blocks_seen d blocks es"
          unfolding e \<open>p = Some data\<close> i(2) blocks_seen_Cons(2) [OF n i(1)] by simp
        have full: "S = {..<length blocks} \<Longrightarrow> insert i S = {..<length blocks}" using i(1) by auto
        have sub: "blocks_seen d blocks es \<subseteq> {..<length blocks}" by (auto simp: blocks_seen_def)
        show ?thesis
        proof (cases "S \<noteq> {..<length blocks} \<and> insert i S = {..<length blocks}")
          case True
          with own(2) obtain c x y where "out = Some (d, c, x, y)" "(c, payload_deref x) = message_of blocks"
            by (cases out) auto
          with IH [OF own(1)] step sub True seen show ?thesis
            unfolding outputs_for_Cons by (simp add: Un_absorb2)
        next
          case False
          with own(2) have "out = None" by (cases out) auto
          with IH [OF own(1)] step False seen full show ?thesis
            unfolding outputs_for_Cons by (simp only: seen) auto
        qed
      next
        case False
        with ok Some e \<open>p = Some data\<close> have "slot (sl_datagram_num h) \<noteq> slot d"
          by (simp add: event_ok_def)
        note oth = rx_other [OF Cons.prems(1) t Some this run]
        have "blocks_seen d blocks (e # es) = blocks_seen d blocks es"
          unfolding e \<open>p = Some data\<close> using False Some by (intro blocks_seen_Cons(3) [OF n]) simp
        with IH [OF oth(1)] oth(2) step show ?thesis unfolding outputs_for_Cons by auto
      qed
    qed
  qed
qed

text \<open>C3: Exactly-once delivery.  Take a receiver with no trace of datagram number \<open>d\<close> within the
  repeat window, and any interleaving of packets in the nine seconds from \<open>t0\<close>: slices of one
  message under \<open>d\<close>, in any order and with duplicates, before and after completion, and slices of
  other datagrams (which may complete or expire), as long as they do not use the time stamp slot of
  \<open>d\<close>.  The message is handed to the application exactly once if all its blocks occur in the run, and
  never otherwise.\<close>

theorem sliced_exactly_once:
  assumes "1 \<le> length blocks" "length blocks \<le> 256"
    and "\<forall>e \<in> set (receiving r). slot (fst e) \<noteq> slot d"
    and "last_recvd_ts r (slot d) < t0 - TIME_WHEN_CAN_RECEIVE_RPT"
    and "\<forall>e \<in> set es. event_ok d blocks t0 e"
  shows "outputs_for d (fst (rx_run session es r)) =
    (if blocks_seen d blocks es = {..<length blocks} then [message_of blocks] else [])"
proof -
  have "map_of (receiving r) d = None"
    using assms(3) by (auto simp: map_of_eq_None_iff)
  then have "rx_inv d blocks t0 {} r"
    using assms(3,4) by (simp add: rx_inv_def)
  moreover have "{} \<noteq> {..<length blocks}" using assms(1) lessThan_empty_iff by fastforce
  ultimately show ?thesis
    using rx_run_outputs [OF assms(2) _ assms(5), of "{}" r session] by simp
qed

theorem sliced_exactly_once_witness:
  "outputs_for 7 (fst (rx_run 1
       [(100, Some [7, 0, 1, 1, 5]), (101, Some [8, 0, 0, 0, 9]), (102, Some [7, 0, 0, 1, 28, 4]),
        (103, None), (104, Some [7, 0, 0, 1, 28, 4])] receiver_new)) = [(28, [4, 5])]"
proof -
  let ?blocks = "[[28, 4], [5 :: byte]]"
  let ?es = "[(100, Some [7, 0, 1, 1, 5]), (101, Some [8, 0, 0, 0, 9]), (102, Some [7, 0, 0, 1, 28, 4]),
        (103, None), (104, Some [7, 0, 0, 1, 28, 4])] :: (millis \<times> bytes option) list"
  have p: "slice_packet 7 ?blocks 0 = [7, 0, 0, 1, 28, 4]" "slice_packet 7 ?blocks (Suc 0) = [7, 0, 1, 1, 5]"
    by code_simp+
  have "\<forall>e \<in> set ?es. event_ok 7 ?blocks 0 e"
    by code_simp
  moreover have "blocks_seen 7 ?blocks ?es = {..<length ?blocks}"
    by (auto simp: blocks_seen_def p less_Suc_eq)
  ultimately show ?thesis
    using sliced_exactly_once [of ?blocks receiver_new 7 0 ?es 1]
    by (simp add: receiver_new_def NEVER_RECEIVED_MS_def TIME_WHEN_CAN_RECEIVE_RPT_def message_of_def)
qed

end
