(* ===== verification/Sliced_Send.thy ===== *)
theory Sliced_Send
  imports Writer_State Slicing
begin

text \<open>
  The send side of the slicing engine: a sent datagram and its acknowledgement state
  (\<^verbatim>\<open>client/transport_state.rs\<close>), slicing of a queued command, replacement by unique key and the paced
  retransmission loop (\<^verbatim>\<open>client/protocol_sliced_send.rs\<close>), and the application of a received
  acknowledgement (\<^verbatim>\<open>client/protocol_helpers.rs\<close>).  Time stamps are integers, so that the differences
  of the source do not wrap.
\<close>

section \<open>A sent datagram\<close>

definition is_block_acked :: "sent_sliced \<Rightarrow> nat \<Rightarrow> bool" where
  "is_block_acked s block_num = flag_bit (ss_ack_flags s) block_num"

definition merge_ack_flags :: "sent_sliced \<Rightarrow> bytes \<Rightarrow> bool \<times> sent_sliced" where
  "merge_ack_flags s flags =
     (let merged = map2 (OR) (ss_ack_flags s) flags
      in (list_ex (\<lambda>(before, after). before \<noteq> after) (zip (ss_ack_flags s) merged), s\<lparr>ss_ack_flags := merged\<rparr>))"

definition is_fully_acked :: "sent_sliced \<Rightarrow> bool" where
  "is_fully_acked s = list_all (is_block_acked s) [0..<ss_blocks_count s]"

definition sent_acked_count :: "sent_sliced \<Rightarrow> nat" where
  "sent_acked_count s = length (filter (is_block_acked s) [0..<ss_blocks_count s])"

definition block_due_for_retry :: "sent_sliced \<Rightarrow> nat \<Rightarrow> millis \<Rightarrow> millis \<Rightarrow> millis \<Rightarrow> bool" where
  "block_due_for_retry s block_num prev_last_checked cur_tm path_delay =
     (if is_block_acked s block_num then False
      else if ss_piece_last_checked s ! block_num \<noteq> prev_last_checked then False
      else \<bar>cur_tm - ss_piece_last_checked s ! block_num\<bar> > path_delay)"

definition mark_block_sent :: "sent_sliced \<Rightarrow> nat \<Rightarrow> millis \<Rightarrow> bool \<times> sent_sliced" where
  "mark_block_sent s block_num cur_tm =
     (ss_piece_last_checked s ! block_num > 0,
      s\<lparr>ss_piece_last_checked := (ss_piece_last_checked s)[block_num := cur_tm],
        ss_sent_count := ss_sent_count s + 1\<rparr>)"

definition should_increment_retry :: "sent_sliced \<Rightarrow> millis \<Rightarrow> millis \<Rightarrow> millis \<Rightarrow> bool \<Rightarrow> bool" where
  "should_increment_retry s prev_last_checked cur_tm path_delay sent_on_path_delay \<longleftrightarrow>
     prev_last_checked \<noteq> ss_last_checked s \<and> sent_on_path_delay \<and> \<bar>ss_last_retry_inc s - cur_tm\<bar> > path_delay"

definition refresh_last_checked_from_unacked :: "sent_sliced \<Rightarrow> millis \<Rightarrow> sent_sliced" where
  "refresh_last_checked_from_unacked s fallback =
     (let clocks = map (\<lambda>b. ss_piece_last_checked s ! b)
                     (filter (\<lambda>b. \<not> is_block_acked s b) [0..<ss_blocks_count s])
      in s\<lparr>ss_last_checked := (case clocks of [] \<Rightarrow> fallback | c # cs \<Rightarrow> fold min cs c)\<rparr>)"

section \<open>Acknowledgements\<close>

definition parse_sliced_ack_payload :: "bytes \<Rightarrow> sliced_ack option" where
  "parse_sliced_ack_payload payload =
     map_option (\<lambda>(flags, datagram_num, session).
        \<lparr>ak_flags = flags, ak_datagram_num = datagram_num, ak_session = session\<rparr>) (parse_ack_bytes payload)"

definition push_sliced_ack_payload :: "send_lock_state \<Rightarrow> bytes \<Rightarrow> u32 \<Rightarrow> send_lock_state" where
  "push_sliced_ack_payload s payload expected_session =
     (case parse_sliced_ack_payload payload of
        None \<Rightarrow> s
      | Some ack \<Rightarrow> if ak_session ack = expected_session then push_sliced_ack s ack else s)"

text \<open>The first datagram with the number takes the flags; a complete one is removed and counted in the
  overhead average.\<close>

primrec ack_first ::
  "sliced_ack \<Rightarrow> millis \<Rightarrow> sent_sliced list \<Rightarrow> rat option \<times> sent_sliced list" where
  "ack_first ack now [] = (None, [])"
| "ack_first ack now (s # ss) =
     (if ss_datagram_num s = ak_datagram_num ack
      then let (changed, s1) = merge_ack_flags s (ak_flags ack)
           in if changed
              then let s2 = s1\<lparr>ss_retry_count := 0\<rparr>
                   in if is_fully_acked s2
                      then (if ss_blocks_count s2 > 0
                            then Some ((of_nat (ss_sent_count s2) / of_nat (ss_blocks_count s2) - 1) * 100)
                            else None, ss)
                      else (None, refresh_last_checked_from_unacked s2 now # ss)
              else (None, s1 # ss)
      else let (r, rest) = ack_first ack now ss in (r, s # rest))"

definition apply_sliced_ack :: "writer \<Rightarrow> sliced_ack \<Rightarrow> millis \<Rightarrow> writer" where
  "apply_sliced_ack w ack now =
     (let (completed, sending) = ack_first ack now (w_sending w); w = w\<lparr>w_sending := sending\<rparr>
      in case completed of
           None \<Rightarrow> w
         | Some ratio \<Rightarrow>
             w\<lparr>w_avg_over_heat := (if w_avg_over_heat w = 0 then ratio
                                  else (w_avg_over_heat w * 9 + ratio) * (1 / 10))\<rparr>)"

definition apply_copy_acks :: "writer \<Rightarrow> sliced_ack list \<Rightarrow> millis \<Rightarrow> writer" where
  "apply_copy_acks w acks cur_tm = foldl (\<lambda>w ack. apply_sliced_ack w ack cur_tm) w acks"

section \<open>Slicing a command\<close>

definition apply_sliced_send_u_key_cleanup :: "writer \<Rightarrow> send_item list \<Rightarrow> writer" where
  "apply_sliced_send_u_key_cleanup w items =
     foldl (\<lambda>w item. if key_is_none (si_u_key item) then w
                     else w\<lparr>w_sending := remove_first (\<lambda>s. ss_u_key s = si_u_key item) (w_sending w)\<rparr>) w items"

text \<open>The slice loop from block \<open>b\<close> on, with \<open>k\<close> blocks to go and \<open>pos\<close> bytes of data consumed.\<close>

primrec slice_loop :: "nat \<Rightarrow> nat \<Rightarrow> nat \<Rightarrow> u16 \<Rightarrow> u8 \<Rightarrow> nat \<Rightarrow> u8 \<Rightarrow> bytes \<Rightarrow> bytes list" where
  "slice_loop 0 b pos datagram_num max_block_num pmtu wire_cmd wire_data = []"
| "slice_loop (Suc k) b pos datagram_num max_block_num pmtu wire_cmd wire_data =
     (let hdr = slice_header_bytes \<lparr>sl_datagram_num = datagram_num, sl_block_num = of_nat b,
                                    sl_max_block_num = max_block_num\<rparr>;
          write_size = min (if b = 0 then pmtu - 1 else pmtu) (length wire_data - pos)
      in (hdr @ (if b = 0 then [wire_cmd] else []) @ slice pos (pos + write_size) wire_data)
         # slice_loop k (Suc b) (pos + write_size) datagram_num max_block_num pmtu wire_cmd wire_data)"

definition n_blocks_for :: "nat \<Rightarrow> nat \<Rightarrow> nat" where
  "n_blocks_for pmtu total_size = max ((total_size + pmtu - 1) div pmtu) 1"

primrec insert_by_blocks :: "sent_sliced \<Rightarrow> sent_sliced list \<Rightarrow> sent_sliced list" where
  "insert_by_blocks n [] = [n]"
| "insert_by_blocks n (s # ss) =
     (if ss_blocks_count s > ss_blocks_count n then n # s # ss else s # insert_by_blocks n ss)"

text \<open>\<^verbatim>\<open>CreateSlicedObject\<close>: the wire bytes are cut into blocks and enqueued.\<close>

definition enqueue_sliced :: "writer \<Rightarrow> send_item \<Rightarrow> u8 \<Rightarrow> bytes \<Rightarrow> writer" where
  "enqueue_sliced w item wire_cmd wire_data =
     (let pmtu = unat (w_actual_pmtu w - 15 - 4);
          total_size = length wire_data + 1;
          n_blocks = n_blocks_for pmtu total_size;
          max_block_num = of_nat (n_blocks - 1);
          datagram_num = w_send_datagram_num w;
          sent_slices = slice_loop n_blocks 0 0 datagram_num max_block_num pmtu wire_cmd wire_data;
          new_sliced = \<lparr>ss_datagram_num = datagram_num, ss_slices = sent_slices,
                        ss_piece_last_checked = replicate n_blocks 0, ss_ack_flags = replicate 32 0,
                        ss_blocks_count = n_blocks, ss_sent_count = 0, ss_last_checked = 0, ss_retry_count = 0,
                        ss_last_retry_inc = 0, ss_max_retry_count = si_max_retries item, ss_u_key = si_u_key item\<rparr>
      in w\<lparr>w_send_datagram_num := datagram_num + 1,
           w_sending := insert_by_blocks new_sliced (w_sending w),
           w_last_checked_slices := 0\<rparr>)"

definition ENCRYPTED_FIXED_OVERHEAD :: nat where
  "ENCRYPTED_FIXED_OVERHEAD = CRYPTO_HEADER_SIZE + IV_SIZE + GCM_TAG_SIZE + MAX_PKCS7_PADDING + 1"

definition create_sliced_and_send :: "writer \<Rightarrow> send_item \<Rightarrow> writer" where
  "create_sliced_and_send w item =
     (let (send_cmd, send_data) = maybe_compress (si_cmd item) (si_data item);
          pmtu_for_check = int (unat (w_actual_pmtu w)) - 15 - 4
      in if pmtu_for_check \<le> 0 then w
         else let max_sliced_data_size = nat pmtu_for_check * 256 - ENCRYPTED_FIXED_OVERHEAD
              in if length send_data \<ge> max_sliced_data_size then w
                 else if send_data = [] then w
                 else if si_encrypted item
                 then let (msg_num, w) = take_msg_num w (si_msg_num item)
                      in case seal_command w msg_num send_cmd (si_retry_left item > 0) send_data of
                           None \<Rightarrow> w
                         | Some (encrypted_data, w) \<Rightarrow>
                             enqueue_sliced w item (crypted_wire_cmd send_cmd) encrypted_data
                 else enqueue_sliced w item send_cmd send_data)"

section \<open>Paced retransmission\<close>

definition sliced_retry_round_trip_delay :: "millis \<Rightarrow> millis" where
  "sliced_retry_round_trip_delay rtt = (if rtt \<le> 0 then UNKNOWN_RTT_SLICED_FLOOR_MS else rtt)"

definition sliced_path_delay :: "millis \<Rightarrow> rat \<Rightarrow> millis" where
  "sliced_path_delay rtt trip_delay_k = round_away (of_int rtt * trip_delay_k + 10)"

definition sliced_cycle_time_ms :: "rat \<Rightarrow> rat" where
  "sliced_cycle_time_ms actual_sleep_time = min (max 5 actual_sleep_time) 15"

definition sliced_client_limit :: "int \<Rightarrow> rat \<Rightarrow> nat" where
  "sliced_client_limit can_send_rate actual_sleep_time =
     nat (round_away (of_int can_send_rate * sliced_cycle_time_ms actual_sleep_time * (1 / 1000)))"

definition sliced_used_limit_threshold :: "nat \<Rightarrow> nat" where
  "sliced_used_limit_threshold client_limit = nat (round_away (of_nat client_limit * (8 / 10)))"

text \<open>The block loop of one datagram: the blocks still to visit, the datagram, whether a block was sent
  again, the blocks chosen so far and the bytes of the whole tick.\<close>

primrec retry_blocks ::
  "nat list \<Rightarrow> millis \<Rightarrow> millis \<Rightarrow> millis \<Rightarrow> nat \<Rightarrow> sent_sliced \<Rightarrow> bool \<Rightarrow> nat
     \<Rightarrow> sent_sliced \<times> bool \<times> nat list \<times> nat" where
  "retry_blocks [] prev cur_tm path_delay limit s sent bytes = (s, sent, [], bytes)"
| "retry_blocks (b # bs) prev cur_tm path_delay limit s sent bytes =
     (if \<not> block_due_for_retry s b prev cur_tm path_delay
      then retry_blocks bs prev cur_tm path_delay limit s sent bytes
      else if bytes \<ge> limit then (s, sent, [], bytes)
      else let (was_retry, s1) = mark_block_sent s b cur_tm;
               (s2, sent2, chosen, bytes2) =
                 retry_blocks bs prev cur_tm path_delay limit s1 (sent \<or> was_retry)
                   (bytes + length (ss_slices s ! b))
           in (s2, sent2, b # chosen, bytes2))"

definition retry_datagram ::
  "millis \<Rightarrow> millis \<Rightarrow> nat \<Rightarrow> sent_sliced \<Rightarrow> nat \<Rightarrow> sent_sliced \<times> nat list \<times> nat" where
  "retry_datagram cur_tm path_delay limit s bytes =
     (let prev = ss_last_checked s;
          (s, sent, chosen, bytes) =
            retry_blocks [0..<length (ss_slices s)] prev cur_tm path_delay limit (s\<lparr>ss_last_checked := cur_tm\<rparr>) False bytes;
          s = refresh_last_checked_from_unacked s cur_tm;
          s = (if should_increment_retry s prev cur_tm path_delay sent
               then s\<lparr>ss_retry_count := ss_retry_count s + 1, ss_last_retry_inc := cur_tm\<rparr> else s)
      in (s, chosen, bytes))"

text \<open>The loop over the sending list: the updated datagrams with their exhaustion flag, the payloads to
  send in order, the bytes chosen and the new \<^verbatim>\<open>last_checked_slices\<close>.\<close>

primrec retry_loop ::
  "millis \<Rightarrow> millis \<Rightarrow> nat \<Rightarrow> sent_sliced list \<Rightarrow> nat \<Rightarrow> millis
     \<Rightarrow> (sent_sliced \<times> bool) list \<times> bytes list \<times> nat \<times> millis" where
  "retry_loop cur_tm path_delay limit [] bytes lcs = ([], [], bytes, lcs)"
| "retry_loop cur_tm path_delay limit (s # ss) bytes lcs =
     (if \<bar>cur_tm - ss_last_checked s\<bar> \<le> path_delay
      then let (rs, sends, bytes, lcs) = retry_loop cur_tm path_delay limit ss bytes lcs
           in ((s, False) # rs, sends, bytes, lcs)
      else let (s1, chosen, bytes1) = retry_datagram cur_tm path_delay limit s bytes;
               (rs, sends, bytes2, lcs2) =
                 retry_loop cur_tm path_delay limit ss bytes1 (min lcs (ss_last_checked s1))
           in ((s1, ss_retry_count s1 > ss_max_retry_count s1) # rs,
               map (\<lambda>b. ss_slices s1 ! b) chosen @ sends, bytes2, lcs2))"

definition adapt_trip_delay_k :: "writer \<Rightarrow> millis \<Rightarrow> writer" where
  "adapt_trip_delay_k w cur_tm =
     (if \<bar>cur_tm - w_last_set_trip_k w\<bar> > 2000
      then let w = w\<lparr>w_last_set_trip_k := cur_tm\<rparr>;
               w = (if w_avg_dup_count w > 5
                    then w\<lparr>w_trip_delay_k := min (w_trip_delay_k w + 5 / 100) (125 / 100)\<rparr> else w)
           in if w_avg_dup_count w = 0
              then w\<lparr>w_trip_delay_k := max (w_trip_delay_k w - 1 / 100) (105 / 100)\<rparr> else w
      else w)"

definition retry_sliced :: "writer \<Rightarrow> millis \<Rightarrow> writer" where
  "retry_sliced w cur_tm =
     (if w_sending w = [] then w
      else let rtt = sliced_retry_round_trip_delay (w_round_trip_delay w)
           in if \<bar>cur_tm - w_last_checked_slices w\<bar> \<le> rtt then w
              else let w = adapt_trip_delay_k w cur_tm;
                       path_delay = sliced_path_delay rtt (w_trip_delay_k w);
                       limit = sliced_client_limit (w_can_send_rate w) (w_actual_sleep_time w);
                       (rs, sends, bytes, lcs) = retry_loop cur_tm path_delay limit (w_sending w) 0 cur_tm;
                       w = w\<lparr>w_last_checked_slices := lcs,
                             w_used_sliced_limit :=
                               (if bytes \<ge> sliced_used_limit_threshold limit then True else w_used_sliced_limit w)\<rparr>;
                       w = foldl (\<lambda>w p. send_raw_packet w Command_Sliced p) w sends
                   in w\<lparr>w_sending := map fst (filter (\<lambda>r. \<not> snd r) rs)\<rparr>)"

section \<open>The slices of a message\<close>

definition blocks_of :: "nat \<Rightarrow> bytes \<Rightarrow> nat \<Rightarrow> bytes list" where
  "blocks_of pmtu m n = map (\<lambda>i. slice (i * pmtu) (i * pmtu + pmtu) m) [0..<n]"

lemma slice_loop_eq:
  assumes "1 \<le> pmtu" and pos: "pos = (if b = 0 then 0 else min (b * pmtu - 1) (length data))"
  shows "slice_loop k b pos d mb pmtu cmd data =
    map (\<lambda>i. slice_header_bytes \<lparr>sl_datagram_num = d, sl_block_num = of_nat i, sl_max_block_num = mb\<rparr>
             @ slice (i * pmtu) (i * pmtu + pmtu) (cmd # data)) [b..<b + k]"
  using pos
proof (induction k arbitrary: b pos)
  case (Suc k)
  let ?size = "min (if b = 0 then pmtu - 1 else pmtu) (length data - pos)"
  have "pos + ?size = min (Suc b * pmtu - 1) (length data)"
    using Suc.prems assms(1) by (cases "b = 0") (auto simp: min_def algebra_simps)
  then have "slice_loop k (Suc b) (pos + ?size) d mb pmtu cmd data =
    map (\<lambda>i. slice_header_bytes \<lparr>sl_datagram_num = d, sl_block_num = of_nat i, sl_max_block_num = mb\<rparr>
             @ slice (i * pmtu) (i * pmtu + pmtu) (cmd # data)) [Suc b..<Suc b + k]"
    by (intro Suc.IH) simp
  moreover have "(if b = 0 then [cmd] else []) @ slice pos (pos + ?size) data =
      slice (b * pmtu) (b * pmtu + pmtu) (cmd # data)"
  proof (cases "b = 0")
    case True
    then show ?thesis
      using Suc.prems assms(1) by (cases pmtu) (auto simp: slice_def min_def)
  next
    case False
    then have "drop (b * pmtu) (cmd # data) = drop (b * pmtu - 1) data"
      using assms(1) by (simp add: drop_Cons')
    then show ?thesis
      using False Suc.prems by (cases "b * pmtu - 1 \<le> length data") (auto simp: slice_def min_def)
  qed
  ultimately show ?case
    by (simp add: Let_def upt_conv_Cons del: upt_Suc)
qed simp

lemma n_blocks_bounds:
  assumes "1 \<le> pmtu" "1 \<le> len"
  shows "1 \<le> n_blocks_for pmtu len" "len \<le> n_blocks_for pmtu len * pmtu"
    "len \<le> m * pmtu \<Longrightarrow> 1 \<le> m \<Longrightarrow> n_blocks_for pmtu len \<le> m"
proof -
  let ?q = "(len + pmtu - 1) div pmtu"
  have q: "len \<le> ?q * pmtu"
    using assms div_mult_mod_eq [of "len + pmtu - 1" pmtu] mod_less_divisor [of pmtu "len + pmtu - 1"] by linarith
  then show "len \<le> n_blocks_for pmtu len * pmtu"
    unfolding n_blocks_for_def by (meson le_trans max.cobounded1 mult_le_mono1)
  show "1 \<le> n_blocks_for pmtu len" by (simp add: n_blocks_for_def)
  assume m: "len \<le> m * pmtu" "1 \<le> m"
  have "len + pmtu - 1 < Suc m * pmtu" using m assms by simp
  then have "?q < Suc m" using assms by (simp only: div_less_iff_less_mult)
  with m show "n_blocks_for pmtu len \<le> m" by (simp add: n_blocks_for_def)
qed

lemma concat_blocks_of: "concat (blocks_of pmtu m n) = take (n * pmtu) m"
proof (induction n)
  case (Suc n)
  moreover have "take (Suc n * pmtu) m = take (n * pmtu) m @ take pmtu (drop (n * pmtu) m)"
    by (metis add.commute mult_Suc take_add)
  ultimately show ?case by (simp add: blocks_of_def slice_def)
qed (simp add: blocks_of_def)

lemma message_of_blocks:
  assumes "1 \<le> pmtu" "1 \<le> n" "Suc (length data) \<le> n * pmtu"
  shows "message_of (blocks_of pmtu (cmd # data) n) = (cmd, data)"
proof -
  have "concat (blocks_of pmtu (cmd # data) n) = cmd # data"
    using assms(3) by (simp add: concat_blocks_of)
  moreover have "blocks_of pmtu (cmd # data) n ! 0 = cmd # take (pmtu - 1) data" "blocks_of pmtu (cmd # data) n \<noteq> []"
    using assms(1,2) by (auto simp: blocks_of_def slice_def take_Cons')
  ultimately show ?thesis
    by (auto simp: message_of_def hd_conv_nth)
qed

section \<open>Invariant of the sending list\<close>

definition sent_wf :: "sent_sliced \<Rightarrow> bool" where
  "sent_wf s \<longleftrightarrow>
     1 \<le> ss_blocks_count s \<and> ss_blocks_count s \<le> 256 \<and> length (ss_slices s) = ss_blocks_count s \<and>
     length (ss_piece_last_checked s) = ss_blocks_count s \<and> length (ss_ack_flags s) = 32 \<and> \<not> is_fully_acked s"

definition sent_budget :: "sent_sliced \<Rightarrow> bool" where
  "sent_budget s \<longleftrightarrow> 0 \<le> ss_max_retry_count s \<and> ss_retry_count s \<le> ss_max_retry_count s"

definition sending_wf :: "sent_sliced list \<Rightarrow> bool" where
  "sending_wf ss \<longleftrightarrow> sorted (map ss_blocks_count ss) \<and> (\<forall>s \<in> set ss. sent_wf s \<and> sent_budget s)"

lemma set_insert_by_blocks [simp]: "set (insert_by_blocks n ss) = insert n (set ss)"
  by (induction ss) auto

lemma sorted_insert_by_blocks:
  "sorted (map ss_blocks_count ss) \<Longrightarrow> sorted (map ss_blocks_count (insert_by_blocks n ss))"
  by (induction ss) (auto simp: not_less)

lemma sending_wf_insert: "sending_wf ss \<Longrightarrow> sent_wf n \<Longrightarrow> sent_budget n \<Longrightarrow> sending_wf (insert_by_blocks n ss)"
  by (simp add: sending_wf_def sorted_insert_by_blocks)

lemma sorted_remove_first:
  "sorted (map f xs) \<Longrightarrow> sorted (map (f :: 'a \<Rightarrow> nat) (remove_first p xs))"
  using set_remove_first_subset by (induction xs) fastforce+

lemma sending_wf_remove: "sending_wf ss \<Longrightarrow> sending_wf (remove_first p ss)"
  using set_remove_first_subset [of p ss] by (auto simp: sending_wf_def sorted_remove_first)

lemma pmtu_room: "19 < unat (p :: u16) \<Longrightarrow> unat (p - 19) = unat p - 19"
  by (simp add: unat_sub word_le_nat_alt)

lemma enqueue_sliced_wf:
  assumes "sending_wf (w_sending w)" "19 < unat (w_actual_pmtu w)"
    and "length wire_data + 1 \<le> (unat (w_actual_pmtu w) - 19) * 256" "0 \<le> si_max_retries item"
  shows "sending_wf (w_sending (enqueue_sliced w item wire_cmd wire_data))"
proof -
  note p = pmtu_room [OF assms(2)]
  let ?n = "n_blocks_for (unat (w_actual_pmtu w) - 19) (length wire_data + 1)"
  have n: "1 \<le> ?n" "?n \<le> 256"
    using n_blocks_bounds(1,3) [of "unat (w_actual_pmtu w) - 19" "length wire_data + 1"] assms(2,3)
    by (auto simp: mult.commute)
  moreover have "length (slice_loop k b pos d mb pmtu cmd data) = k" for k b pos d mb pmtu cmd data
    by (induction k arbitrary: b pos) (simp_all add: Let_def)
  moreover have "\<not> flag_bit (replicate 32 0) 0" by (simp add: flag_bit_alt)
  ultimately show ?thesis
    using assms(1,4) by (auto simp: enqueue_sliced_def Let_def p sent_wf_def sent_budget_def is_fully_acked_def is_block_acked_def
        list_all_iff Bex_def intro!: sending_wf_insert exI [of _ 0])
qed

lemma overhead: "ENCRYPTED_FIXED_OVERHEAD = 57"
  by (simp add: ENCRYPTED_FIXED_OVERHEAD_def crypto_sizes CRYPTO_HEADER_SIZE_def)

text \<open>The two ways a command reaches the sending list, with the size bound its guard gives.\<close>

lemma create_sliced_cases:
  assumes "\<And>k. w_encode_cipher w = Some k \<Longrightarrow> aead_correct k"
    and "maybe_compress (si_cmd item) (si_data item) = (cmd, data)"
  obtains (drop) "w_sending (create_sliced_and_send w item) = w_sending w"
    | (plain) "19 < unat (w_actual_pmtu w)" "length data + 1 \<le> (unat (w_actual_pmtu w) - 19) * 256"
        "\<not> si_encrypted item" "data \<noteq> []" "create_sliced_and_send w item = enqueue_sliced w item cmd data"
    | (sealed) n w1 env w2 where "19 < unat (w_actual_pmtu w)" "length env + 1 \<le> (unat (w_actual_pmtu w) - 19) * 256"
        "si_encrypted item" "data \<noteq> []" "take_msg_num w (si_msg_num item) = (n, w1)"
        "seal_command w1 n cmd (si_retry_left item > 0) data = Some (env, w2)"
        "create_sliced_and_send w item = enqueue_sliced w2 item (crypted_wire_cmd cmd) env"
proof -
  define P where "P = unat (w_actual_pmtu w)"
  obtain n w1 where t: "take_msg_num w (si_msg_num item) = (n, w1)" by (metis surj_pair)
  have w1: "w_sending w1 = w_sending w" "w_encode_cipher w1 = w_encode_cipher w"
    using t by (auto simp: take_msg_num_def split: if_splits)
  note d = create_sliced_and_send_def assms(2) Let_def overhead P_def [symmetric] t
  show thesis
  proof (cases "19 < P \<and> length data < (P - 19) * 256 - 57 \<and> data \<noteq> []")
    case False
    then have "int P - 15 - 4 \<le> 0 \<or> nat (int P - 15 - 4) * 256 - 57 \<le> length data \<or> data = []"
      by (cases "19 < P") (simp_all add: nat_diff_distrib not_less)
    then show ?thesis by (intro drop) (auto simp: d)
  next
    case go: True
    then have g: "\<not> int P - 15 - 4 \<le> 0" "\<not> nat (int P - 15 - 4) * 256 - 57 \<le> length data"
      by (simp_all add: nat_diff_distrib)
    show ?thesis
    proof (cases "si_encrypted item")
      case False
      with g go show ?thesis by (intro plain) (auto simp: d)
    next
      case True
      show ?thesis
      proof (cases "seal_command w1 n cmd (si_retry_left item > 0) data")
        case None
        with True g go w1 show ?thesis by (intro drop) (simp add: d)
      next
        case (Some r)
        obtain env w2 where r: "r = (env, w2)" by (cases r)
        have "length env \<le> length data + 56"
          using seal_command_length [of w1 n cmd "si_retry_left item > 0" data env w2] assms(1) Some r w1(2) by simp
        with True g go Some r t show ?thesis by (intro sealed [of env n w1 w2]) (auto simp: d)
      qed
    qed
  qed
qed

lemma flag_bit_merge:
  "length f = 32 \<Longrightarrow> length g = 32 \<Longrightarrow> i < 256 \<Longrightarrow> flag_bit (map2 (OR) f g) i \<longleftrightarrow> flag_bit f i \<or> flag_bit g i"
  by (simp add: flag_bit_alt bit_or_iff)

lemma list_ex_zip_neq: "length xs = length ys \<Longrightarrow> list_ex (\<lambda>(a, b). a \<noteq> b) (zip xs ys) \<longleftrightarrow> xs \<noteq> ys"
  by (induction xs ys rule: list_induct2) auto

lemma merge_ack_flags_spec:
  assumes "length (ss_ack_flags s) = 32" "length flags = 32" "merge_ack_flags s flags = (changed, s')"
  shows "s' = s\<lparr>ss_ack_flags := map2 (OR) (ss_ack_flags s) flags\<rparr>" "changed \<longleftrightarrow> ss_ack_flags s' \<noteq> ss_ack_flags s"
  using assms by (auto simp: merge_ack_flags_def Let_def list_ex_zip_neq)

lemma refresh_keeps:
  "ss_datagram_num (refresh_last_checked_from_unacked s t) = ss_datagram_num s"
  "ss_slices (refresh_last_checked_from_unacked s t) = ss_slices s"
  "ss_ack_flags (refresh_last_checked_from_unacked s t) = ss_ack_flags s"
  "ss_blocks_count (refresh_last_checked_from_unacked s t) = ss_blocks_count s"
  "ss_piece_last_checked (refresh_last_checked_from_unacked s t) = ss_piece_last_checked s"
  "ss_sent_count (refresh_last_checked_from_unacked s t) = ss_sent_count s"
  "ss_retry_count (refresh_last_checked_from_unacked s t) = ss_retry_count s"
  "ss_max_retry_count (refresh_last_checked_from_unacked s t) = ss_max_retry_count s"
  "ss_last_retry_inc (refresh_last_checked_from_unacked s t) = ss_last_retry_inc s"
  "ss_u_key (refresh_last_checked_from_unacked s t) = ss_u_key s"
  by (simp_all add: refresh_last_checked_from_unacked_def Let_def)

definition acks_all :: "sent_sliced \<Rightarrow> bytes \<Rightarrow> bool" where
  "acks_all s flags \<longleftrightarrow> (\<forall>i < ss_blocks_count s. flag_bit (ss_ack_flags s) i \<or> flag_bit flags i)"

text \<open>An acknowledgement applied to its datagram: it completes the datagram exactly when every block is
  acknowledged before or now, and otherwise leaves a well-formed datagram with the union of flags.\<close>

definition acked_sliced :: "sent_sliced \<Rightarrow> sent_sliced \<Rightarrow> bytes \<Rightarrow> bool" where
  "acked_sliced s s' flags \<longleftrightarrow>
     sent_wf s' \<and> (sent_budget s \<longrightarrow> sent_budget s') \<and> ss_datagram_num s' = ss_datagram_num s \<and> ss_slices s' = ss_slices s \<and>
     ss_blocks_count s' = ss_blocks_count s \<and> ss_ack_flags s' = map2 (OR) (ss_ack_flags s) flags"

lemma ack_head:
  assumes wf: "sent_wf s" and l: "length (ak_flags ack) = 32" and d: "ss_datagram_num s = ak_datagram_num ack"
    and run: "ack_first ack now (s # ss) = (r, ss')"
  shows "if acks_all s (ak_flags ack) then ss' = ss else \<exists>s'. ss' = s' # ss \<and> acked_sliced s s' (ak_flags ack)"
proof -
  obtain c s1 where m: "merge_ack_flags s (ak_flags ack) = (c, s1)" by (metis surj_pair)
  have s1: "s1 = s\<lparr>ss_ack_flags := map2 (OR) (ss_ack_flags s) (ak_flags ack)\<rparr>" "c \<longleftrightarrow> ss_ack_flags s1 \<noteq> ss_ack_flags s"
    using merge_ack_flags_spec [OF _ l m] wf by (simp_all add: sent_wf_def)
  have all: "is_fully_acked s1 \<longleftrightarrow> acks_all s (ak_flags ack)"
    using wf l by (auto simp: is_fully_acked_def is_block_acked_def list_all_iff s1(1) acks_all_def
        flag_bit_merge sent_wf_def)
  have eq: "is_fully_acked (s1\<lparr>ss_retry_count := 0\<rparr>) = is_fully_acked s1"
    by (simp add: is_fully_acked_def is_block_acked_def [abs_def])
  have c: "c" if "acks_all s (ak_flags ack)"
    using that all wf s1 by (auto simp: sent_wf_def is_fully_acked_def is_block_acked_def [abs_def])
  define s2 where "s2 = (if c then refresh_last_checked_from_unacked (s1\<lparr>ss_retry_count := 0\<rparr>) now else s1)"
  have "ss' = (if acks_all s (ak_flags ack) then ss else s2 # ss)"
    using run d m all eq c by (auto simp: Let_def s2_def split: if_splits)
  moreover have "acked_sliced s s2 (ak_flags ack)" if "\<not> acks_all s (ak_flags ack)"
    using that wf all l unfolding s2_def acked_sliced_def
    by (auto simp: sent_wf_def sent_budget_def refresh_keeps is_fully_acked_def is_block_acked_def [abs_def] s1(1))
  ultimately show ?thesis by simp
qed

text \<open>What an acknowledgement does to the sending list: the first datagram with the number is removed
  when it is complete, and otherwise keeps its place.\<close>

lemma ack_first_spec:
  assumes "sending_wf ss" "length (ak_flags ack) = 32" "ack_first ack now ss = (r, ss')"
  shows "(\<forall>s \<in> set ss. ss_datagram_num s \<noteq> ak_datagram_num ack) \<and> ss' = ss \<or>
    (\<exists>as s bs. ss = as @ s # bs \<and> ss_datagram_num s = ak_datagram_num ack \<and>
       (\<forall>x \<in> set as. ss_datagram_num x \<noteq> ak_datagram_num ack) \<and>
       (if acks_all s (ak_flags ack) then ss' = as @ bs else \<exists>s'. ss' = as @ s' # bs \<and> acked_sliced s s' (ak_flags ack)))"
  using assms(1,3)
proof (induction ss arbitrary: ss')
  case (Cons s ss)
  show ?case
  proof (cases "ss_datagram_num s = ak_datagram_num ack")
    case True
    have "sent_wf s" using Cons.prems(1) by (simp add: sending_wf_def)
    from ack_head [OF this assms(2) True Cons.prems(2)] True show ?thesis
      by (intro disjI2 exI [of _ "[]"] exI [of _ s] exI [of _ ss]) simp
  next
    case False
    obtain ss1 where ss1: "ack_first ack now ss = (r, ss1)" "ss' = s # ss1"
      using Cons.prems(2) False by (cases "ack_first ack now ss") auto
    have "sending_wf ss" using Cons.prems(1) by (simp add: sending_wf_def)
    from Cons.IH [OF this ss1(1)] show ?thesis
    proof (elim disjE exE conjE)
      assume "\<forall>s \<in> set ss. ss_datagram_num s \<noteq> ak_datagram_num ack" "ss1 = ss"
      then show ?thesis using False ss1(2) by simp
    next
      fix as t bs
      assume "ss = as @ t # bs" "ss_datagram_num t = ak_datagram_num ack"
        "\<forall>x \<in> set as. ss_datagram_num x \<noteq> ak_datagram_num ack"
        "if acks_all t (ak_flags ack) then ss1 = as @ bs
         else \<exists>s'. ss1 = as @ s' # bs \<and> acked_sliced t s' (ak_flags ack)"
      then show ?thesis
        using False ss1(2) by (intro disjI2 exI [of _ "s # as"] exI [of _ t] exI [of _ bs]) (auto split: if_splits)
    qed
  qed
qed simp

lemma apply_sliced_ack_sending: "w_sending (apply_sliced_ack w ack now) = snd (ack_first ack now (w_sending w))"
  by (simp add: apply_sliced_ack_def Let_def case_prod_unfold split: option.split)

lemma apply_sliced_ack_wf:
  assumes "sending_wf (w_sending w)" "length (ak_flags ack) = 32"
  shows "sending_wf (w_sending (apply_sliced_ack w ack now))"
proof -
  obtain r ss' where a: "ack_first ack now (w_sending w) = (r, ss')" by (metis surj_pair)
  from ack_first_spec [OF assms a] assms(1) show ?thesis
    unfolding apply_sliced_ack_sending a
    by (auto simp: sending_wf_def sorted_append acked_sliced_def split: if_splits)
qed

section \<open>Retransmission\<close>

lemma retry_blocks_keeps:
  "retry_blocks bs prev t pd limit s sent bytes = (s', sent', chosen, bytes') \<Longrightarrow>
     ss_slices s' = ss_slices s \<and> ss_ack_flags s' = ss_ack_flags s \<and> ss_blocks_count s' = ss_blocks_count s \<and>
     length (ss_piece_last_checked s') = length (ss_piece_last_checked s) \<and> ss_datagram_num s' = ss_datagram_num s \<and>
     ss_max_retry_count s' = ss_max_retry_count s \<and> ss_retry_count s' = ss_retry_count s \<and>
     ss_last_retry_inc s' = ss_last_retry_inc s \<and> ss_u_key s' = ss_u_key s"
proof (induction bs arbitrary: s sent bytes s' sent' chosen bytes')
  case (Cons b bs)
  show ?case
  proof (cases "block_due_for_retry s b prev t pd \<and> bytes < limit")
    case True
    obtain s2 sent2 ch2 b2 where r: "retry_blocks bs prev t pd limit (snd (mark_block_sent s b t))
        (sent \<or> fst (mark_block_sent s b t)) (bytes + length (ss_slices s ! b)) = (s2, sent2, ch2, b2)"
      by (metis surj_pair)
    with Cons.prems True have "s' = s2" by (simp add: case_prod_unfold Let_def)
    with Cons.IH [OF r] show ?thesis by (simp add: mark_block_sent_def)
  next
    case False
    with Cons show ?thesis by (auto split: if_splits)
  qed
qed simp

lemma retry_datagram_wf:
  assumes "retry_datagram t pd limit s bytes = (s', chosen, bytes')"
  shows "ss_blocks_count s' = ss_blocks_count s" "ss_slices s' = ss_slices s" "ss_ack_flags s' = ss_ack_flags s"
    "ss_max_retry_count s' = ss_max_retry_count s" "sent_wf s \<Longrightarrow> sent_wf s'"
proof -
  obtain s1 sent where r: "retry_blocks [0..<length (ss_slices s)] (ss_last_checked s) t pd limit
      (s\<lparr>ss_last_checked := t\<rparr>) False bytes = (s1, sent, chosen, bytes')"
    using assms by (auto simp: retry_datagram_def Let_def case_prod_unfold prod_eq_iff)
  have "s' = (let s2 = refresh_last_checked_from_unacked s1 t
      in if should_increment_retry s2 (ss_last_checked s) t pd sent
         then s2\<lparr>ss_retry_count := ss_retry_count s2 + 1, ss_last_retry_inc := t\<rparr> else s2)"
    using assms r by (simp add: retry_datagram_def Let_def)
  with retry_blocks_keeps [OF r] show "ss_blocks_count s' = ss_blocks_count s" "ss_slices s' = ss_slices s"
      "ss_ack_flags s' = ss_ack_flags s" "ss_max_retry_count s' = ss_max_retry_count s" "sent_wf s \<Longrightarrow> sent_wf s'"
    by (auto simp: Let_def refresh_keeps sent_wf_def is_fully_acked_def is_block_acked_def [abs_def])
qed

lemma retry_loop_ConsE:
  assumes "retry_loop t pd limit (s # ss) bytes lcs = (rs, sends, bytes', lcs')"
  obtains (skip) rs1 where "\<bar>t - ss_last_checked s\<bar> \<le> pd" "rs = (s, False) # rs1"
      "retry_loop t pd limit ss bytes lcs = (rs1, sends, bytes', lcs')"
    | (visit) s1 chosen bytes1 rs1 sends1 where "\<bar>t - ss_last_checked s\<bar> > pd"
      "retry_datagram t pd limit s bytes = (s1, chosen, bytes1)"
      "retry_loop t pd limit ss bytes1 (min lcs (ss_last_checked s1)) = (rs1, sends1, bytes', lcs')"
      "rs = (s1, ss_retry_count s1 > ss_max_retry_count s1) # rs1" "sends = map (\<lambda>b. ss_slices s1 ! b) chosen @ sends1"
proof (cases "\<bar>t - ss_last_checked s\<bar> \<le> pd")
  case True
  obtain rs1 where "retry_loop t pd limit ss bytes lcs = (rs1, sends, bytes', lcs')" "rs = (s, False) # rs1"
    using assms True by (cases "retry_loop t pd limit ss bytes lcs") auto
  with True show ?thesis by (intro skip)
next
  case False
  obtain s1 chosen bytes1 where d: "retry_datagram t pd limit s bytes = (s1, chosen, bytes1)" by (metis surj_pair)
  obtain rs1 sends1 b1 l1 where "retry_loop t pd limit ss bytes1 (min lcs (ss_last_checked s1)) = (rs1, sends1, b1, l1)"
    by (metis surj_pair)
  with assms False d show ?thesis by (intro visit) auto
qed

lemma retry_loop_wf:
  assumes "retry_loop t pd limit ss bytes lcs = (rs, sends, bytes', lcs')"
  shows "map (ss_blocks_count \<circ> fst) rs = map ss_blocks_count ss \<and>
    ((\<forall>s \<in> set ss. sent_wf s) \<longrightarrow> (\<forall>r \<in> set rs. sent_wf (fst r))) \<and>
    ((\<forall>s \<in> set ss. sent_budget s) \<longrightarrow> (\<forall>r \<in> set rs. \<not> snd r \<longrightarrow> sent_budget (fst r)))"
  using assms
proof (induction ss arbitrary: rs sends bytes lcs)
  case (Cons s ss)
  from Cons.prems show ?case
  proof (cases rule: retry_loop_ConsE)
    case (skip rs1)
    with Cons.IH [OF skip(3)] show ?thesis by auto
  next
    case (visit s1 chosen bytes1 rs1 sends1)
    with Cons.IH [OF visit(3)] retry_datagram_wf [OF visit(2)] show ?thesis by (auto simp: sent_budget_def)
  qed
qed simp

lemma foldl_send_keeps: "w_sending (foldl (\<lambda>w p. send_raw_packet w c p) w ps) = w_sending w"
  by (induction ps arbitrary: w) (auto simp: send_raw_packet_def send_raw_packet_cmd_def)

text \<open>What a retransmission tick is, once its gates are open.\<close>

lemma retry_sliced_cases:
  obtains (idle) "retry_sliced w t = w"
    | (run) pd limit rs sends bytes lcs where
        "retry_loop t pd limit (w_sending w) 0 t = (rs, sends, bytes, lcs)"
        "w_sending (retry_sliced w t) = map fst (filter (\<lambda>r. \<not> snd r) rs)"
        "limit = sliced_client_limit (w_can_send_rate w) (w_actual_sleep_time w)"
        "w_out (retry_sliced w t) = w_out w @ (if w_server_addr w then map (Pair (to_byte Command_Sliced)) sends else [])"
proof (cases "w_sending w = [] \<or> \<bar>t - w_last_checked_slices w\<bar> \<le> sliced_retry_round_trip_delay (w_round_trip_delay w)")
  case True
  then show ?thesis by (intro idle) (auto simp: retry_sliced_def Let_def)
next
  case False
  let ?rtt = "sliced_retry_round_trip_delay (w_round_trip_delay w)" and ?v = "adapt_trip_delay_k w t"
  let ?limit = "sliced_client_limit (w_can_send_rate w) (w_actual_sleep_time w)"
  have v: "w_sending ?v = w_sending w" "w_can_send_rate ?v = w_can_send_rate w" "w_out ?v = w_out w"
      "w_actual_sleep_time ?v = w_actual_sleep_time w" "w_server_addr ?v = w_server_addr w"
    by (simp_all add: adapt_trip_delay_k_def Let_def)
  obtain rs sends bytes lcs where l:
    "retry_loop t (sliced_path_delay ?rtt (w_trip_delay_k ?v)) ?limit (w_sending w) 0 t = (rs, sends, bytes, lcs)"
    by (metis surj_pair)
  have out: "w_out (foldl (\<lambda>w p. send_raw_packet w c p) x ps) =
      w_out x @ (if w_server_addr x then map (Pair (to_byte c)) ps else [])" for c x ps
    by (induction ps arbitrary: x) (auto simp: send_raw_packet_def send_raw_packet_cmd_def)
  show ?thesis
    using False l by (intro run [OF l]) (simp_all add: retry_sliced_def Let_def v out)
qed

lemma retry_sliced_wf: "sending_wf (w_sending w) \<Longrightarrow> sending_wf (w_sending (retry_sliced w t))"
proof (cases rule: retry_sliced_cases [of w t])
  case (run pd limit rs sends bytes lcs)
  assume "sending_wf (w_sending w)"
  with retry_loop_wf [OF run(1)] show ?thesis
    unfolding run(2) sending_wf_def using sorted_filter [of "ss_blocks_count \<circ> fst" rs] by (auto simp: o_def)
qed simp

section \<open>Reachable sender states\<close>

text \<open>The operations on the sending list in any order, with the changes the receive path makes to the
  path estimates in between.\<close>

inductive sliced_reach :: "writer \<Rightarrow> bool" where
  init: "w_sending w = [] \<Longrightarrow> sliced_reach w"
| cleanup: "sliced_reach w \<Longrightarrow> sliced_reach (apply_sliced_send_u_key_cleanup w items)"
| create: "sliced_reach w \<Longrightarrow> (\<And>k. w_encode_cipher w = Some k \<Longrightarrow> aead_correct k) \<Longrightarrow> 0 \<le> si_max_retries item \<Longrightarrow>
    sliced_reach (create_sliced_and_send w item)"
| ack: "sliced_reach w \<Longrightarrow> length (ak_flags a) = 32 \<Longrightarrow> sliced_reach (apply_sliced_ack w a now)"
| retry: "sliced_reach w \<Longrightarrow> sliced_reach (retry_sliced w now)"
| env: "sliced_reach w \<Longrightarrow> w_sending w' = w_sending w \<Longrightarrow> sliced_reach w'"

lemma cleanup_wf: "sending_wf (w_sending w) \<Longrightarrow> sending_wf (w_sending (apply_sliced_send_u_key_cleanup w items))"
  unfolding apply_sliced_send_u_key_cleanup_def by (induction items arbitrary: w) (simp_all add: sending_wf_remove)

lemma create_sliced_wf:
  assumes "sending_wf (w_sending w)" "\<And>k. w_encode_cipher w = Some k \<Longrightarrow> aead_correct k" "0 \<le> si_max_retries item"
  shows "sending_wf (w_sending (create_sliced_and_send w item))"
proof -
  obtain cmd data where c: "maybe_compress (si_cmd item) (si_data item) = (cmd, data)" by (metis surj_pair)
  show ?thesis
  proof (rule create_sliced_cases [OF assms(2) c])
    fix n w1 env w2
    assume sealed: "19 < unat (w_actual_pmtu w)" "length env + 1 \<le> (unat (w_actual_pmtu w) - 19) * 256"
      "take_msg_num w (si_msg_num item) = (n, w1)"
      "seal_command w1 n cmd (si_retry_left item > 0) data = Some (env, w2)"
      "create_sliced_and_send w item = enqueue_sliced w2 item (crypted_wire_cmd cmd) env"
    have "w_sending w2 = w_sending w" "w_actual_pmtu w2 = w_actual_pmtu w"
      using sealed(3,4) by (auto simp: take_msg_num_def seal_command_def Let_def split: if_splits option.splits)
    with sealed assms(1,3) show ?thesis
      using enqueue_sliced_wf [of w2 env item] by simp
  qed (use assms enqueue_sliced_wf [of w data item] in simp_all)
qed

text \<open>C22: In every reachable state the datagrams awaiting acknowledgement are ordered by their number of
  blocks, each has between one and 256 blocks with one slice, one clock and one flag per block, is not
  yet fully acknowledged, and is within its retry budget.\<close>

theorem sliced_sender_invariant:
  "sliced_reach w \<Longrightarrow> sending_wf (w_sending w)"
proof (induction rule: sliced_reach.induct)
  case (init w)
  then show ?case by (simp add: sending_wf_def)
qed (auto simp: cleanup_wf create_sliced_wf apply_sliced_ack_wf retry_sliced_wf)

theorem sliced_sender_invariant_witness:
  "sending_wf (w_sending (create_sliced_and_send (writer_new 0 (\<lambda>_. 0) (\<lambda>_. 0) True)
     \<lparr>si_data = [1, 2, 3], si_cmd = 31, si_encrypted = False, si_priority = SP_Sliced, si_retry_left = 0,
      si_max_retries = 6, si_msg_num = 0, si_last_sent_at = 0, si_u_key = unique_key_none\<rparr>))"
  by (rule sliced_sender_invariant, rule sliced_reach.create, rule sliced_reach.init)
    (simp_all add: writer_new_def)

section \<open>The byte budget of a tick\<close>

lemma retry_blocks_budget:
  assumes "retry_blocks bs prev t pd limit s sent bytes = (s', sent', chosen, bytes')"
  shows "bytes' = bytes + sum_list (map (\<lambda>b. length (ss_slices s ! b)) chosen) \<and>
    (chosen \<noteq> [] \<longrightarrow> bytes + sum_list (map (\<lambda>b. length (ss_slices s ! b)) (butlast chosen)) < limit) \<and>
    set chosen \<subseteq> {b \<in> set bs. \<not> is_block_acked s b}"
  using assms
proof (induction bs arbitrary: s sent bytes chosen)
  case (Cons b bs)
  show ?case
  proof (cases "block_due_for_retry s b prev t pd \<and> bytes < limit")
    case True
    obtain was s1 where m: "mark_block_sent s b t = (was, s1)" by (metis surj_pair)
    then have s1: "ss_slices s1 = ss_slices s" "is_block_acked s1 = is_block_acked s"
      by (auto simp: mark_block_sent_def is_block_acked_def [abs_def])
    obtain ch2 where r: "retry_blocks bs prev t pd limit s1 (sent \<or> was) (bytes + length (ss_slices s ! b)) =
        (s', sent', ch2, bytes')" "chosen = b # ch2"
      using Cons.prems True m
      by (cases "retry_blocks bs prev t pd limit s1 (sent \<or> was) (bytes + length (ss_slices s ! b))") auto
    have "\<not> is_block_acked s b" using True by (auto simp: block_due_for_retry_def)
    with Cons.IH [OF r(1)] True show ?thesis by (auto simp: r(2) s1)
  next
    case False
    with Cons.prems Cons.IH [of s sent bytes chosen] show ?thesis by (auto split: if_splits)
  qed
qed simp

lemma retry_datagram_budget:
  assumes "retry_datagram t pd limit s bytes = (s', chosen, bytes')"
  shows "bytes' = bytes + sum_list (map (\<lambda>b. length (ss_slices s ! b)) chosen) \<and>
    (chosen \<noteq> [] \<longrightarrow> bytes + sum_list (map (\<lambda>b. length (ss_slices s ! b)) (butlast chosen)) < limit) \<and>
    set chosen \<subseteq> {b. b < length (ss_slices s) \<and> \<not> is_block_acked s b}"
proof -
  obtain s1 sent where "retry_blocks [0..<length (ss_slices s)] (ss_last_checked s) t pd limit
      (s\<lparr>ss_last_checked := t\<rparr>) False bytes = (s1, sent, chosen, bytes')"
    using assms by (auto simp: retry_datagram_def Let_def case_prod_unfold prod_eq_iff)
  from retry_blocks_budget [OF this] show ?thesis
    by (simp add: is_block_acked_def [abs_def])
qed

text \<open>The payloads that may be sent: the slices of blocks nobody acknowledged.\<close>

definition open_slices :: "sent_sliced list \<Rightarrow> bytes set" where
  "open_slices ss = {ss_slices s ! b | s b. s \<in> set ss \<and> b < length (ss_slices s) \<and> \<not> is_block_acked s b}"

lemma open_slices_Cons:
  "open_slices (s # ss) = {ss_slices s ! b | b. b < length (ss_slices s) \<and> \<not> is_block_acked s b} \<union> open_slices ss"
  by (auto simp: open_slices_def)

lemma retry_loop_budget:
  assumes "retry_loop t pd limit ss bytes lcs = (rs, sends, bytes', lcs')"
  shows "bytes' = bytes + sum_list (map length sends) \<and>
    (sends \<noteq> [] \<longrightarrow> bytes + sum_list (map length (butlast sends)) < limit) \<and> set sends \<subseteq> open_slices ss"
  using assms
proof (induction ss arbitrary: rs sends bytes lcs)
  case (Cons s ss)
  from Cons.prems show ?case
  proof (cases rule: retry_loop_ConsE)
    case (skip rs1)
    with Cons.IH [OF skip(3)] show ?thesis by (auto simp: open_slices_Cons)
  next
    case (visit s1 chosen bytes1 rs1 sends1)
    have sl: "ss_slices s1 = ss_slices s" by (rule retry_datagram_wf(2) [OF visit(2)])
    note d = retry_datagram_budget [OF visit(2)] and IH = Cons.IH [OF visit(3)]
    let ?c = "map (\<lambda>b. ss_slices s ! b) chosen"
    have sum: "map length ?c = map (\<lambda>b. length (ss_slices s ! b)) chosen"
      "map length (butlast ?c) = map (\<lambda>b. length (ss_slices s ! b)) (butlast chosen)"
      by (simp_all add: map_butlast o_def)
    have "bytes + sum_list (map length (butlast (?c @ sends1))) < limit" if "?c @ sends1 \<noteq> []"
      using that d IH by (cases "sends1 = []") (auto simp: butlast_append sum map_butlast [symmetric] o_def)
    moreover have "set sends \<subseteq> open_slices (s # ss)"
      using d IH unfolding visit(5) sl open_slices_Cons by auto
    ultimately show ?thesis using d IH unfolding visit(5) sl by (simp add: o_def)
  qed
qed simp

text \<open>C21: A retransmission tick hands the transport only slices of blocks that are not acknowledged, and
  everything before the last of them stays below the byte limit of the tick; nothing else is sent.\<close>

theorem retry_budget:
  "\<exists>sends. w_out (retry_sliced w t) = w_out w @ map (Pair (to_byte Command_Sliced)) sends \<and>
     set sends \<subseteq> open_slices (w_sending w) \<and>
     sum_list (map length (butlast sends)) \<le> sliced_client_limit (w_can_send_rate w) (w_actual_sleep_time w)"
proof (cases rule: retry_sliced_cases [of w t])
  case idle
  then show ?thesis by (intro exI [of _ "[]"]) simp
next
  case (run pd limit rs sends bytes lcs)
  show ?thesis
  proof (intro exI conjI)
    show "w_out (retry_sliced w t) =
        w_out w @ map (Pair (to_byte Command_Sliced)) (if w_server_addr w then sends else [])"
      using run(4) by simp
    show "set (if w_server_addr w then sends else []) \<subseteq> open_slices (w_sending w)"
      using retry_loop_budget [OF run(1)] by auto
    show "sum_list (map length (butlast (if w_server_addr w then sends else [])))
        \<le> sliced_client_limit (w_can_send_rate w) (w_actual_sleep_time w)"
      using retry_loop_budget [OF run(1)] run(3) by (cases "sends = []") auto
  qed
qed

section \<open>A silent peer\<close>

text \<open>When every open block is due and the limit leaves room, a datagram is sent in full.\<close>

lemma retry_blocks_all:
  assumes "distinct bs" "\<bar>t - c\<bar> > pd"
    and "\<forall>b \<in> set bs. b < length (ss_piece_last_checked s) \<and> ss_piece_last_checked s ! b = c \<and> \<not> is_block_acked s b \<and>
           ss_slices s ! b \<noteq> []"
    and "bytes + sum_list (map (\<lambda>b. length (ss_slices s ! b)) bs) \<le> limit"
  shows "retry_blocks bs c t pd limit s sent bytes =
    (s\<lparr>ss_piece_last_checked := fold (\<lambda>b p. p[b := t]) bs (ss_piece_last_checked s),
       ss_sent_count := ss_sent_count s + length bs\<rparr>,
     sent \<or> bs \<noteq> [] \<and> c > 0, bs, bytes + sum_list (map (\<lambda>b. length (ss_slices s ! b)) bs))"
  using assms
proof (induction bs arbitrary: s sent bytes)
  case (Cons b bs)
  define s1 where "s1 = s\<lparr>ss_piece_last_checked := (ss_piece_last_checked s)[b := t], ss_sent_count := ss_sent_count s + 1\<rparr>"
  have "0 < length (ss_slices s ! b)" using Cons.prems(3) by simp
  then have lt: "bytes < limit" using Cons.prems(4) unfolding list.map sum_list.Cons by linarith
  have b: "block_due_for_retry s b c t pd" "bytes < limit" "ss_piece_last_checked s ! b = c"
    using Cons.prems(2,3) lt by (simp_all add: block_due_for_retry_def)
  have m: "mark_block_sent s b t = (c > 0, s1)"
    using b(3) by (simp add: mark_block_sent_def s1_def)
  have "retry_blocks bs c t pd limit s1 (sent \<or> c > 0) (bytes + length (ss_slices s ! b)) =
    (s1\<lparr>ss_piece_last_checked := fold (\<lambda>b p. p[b := t]) bs (ss_piece_last_checked s1),
        ss_sent_count := ss_sent_count s1 + length bs\<rparr>,
     (sent \<or> c > 0) \<or> bs \<noteq> [] \<and> c > 0, bs,
     (bytes + length (ss_slices s ! b)) + sum_list (map (\<lambda>b. length (ss_slices s1 ! b)) bs))"
    using Cons.prems by (intro Cons.IH) (auto simp: s1_def is_block_acked_def nth_list_update)
  then show ?case
    using b m by (auto simp: s1_def)
qed simp

lemma fold_update_all: "fold (\<lambda>b p. p[b := t]) [0..<n] (replicate n c) = replicate n (t :: millis)"
proof -
  have "k \<le> n \<Longrightarrow> fold (\<lambda>b p. p[b := t]) [0..<k] (replicate n c) = replicate k t @ replicate (n - k) c" for k
  proof (induction k)
    case (Suc k)
    then have "replicate (n - k) c = c # replicate (n - Suc k) c"
      by (metis Suc_diff_Suc Suc_le_lessD replicate_Suc)
    with Suc show ?case by (simp add: list_update_append replicate_app_Cons_same)
  qed simp
  from this [of n] show ?thesis by simp
qed

lemma fold_min_replicate: "fold min (replicate n t) t = (t :: millis)"
  by (induction n) auto

lemma refresh_uniform:
  assumes "1 \<le> ss_blocks_count s" "ss_piece_last_checked s = replicate (ss_blocks_count s) t"
    and "\<forall>b < ss_blocks_count s. \<not> is_block_acked s b"
  shows "refresh_last_checked_from_unacked s u = s\<lparr>ss_last_checked := t\<rparr>"
proof -
  let ?n = "ss_blocks_count s"
  have f: "filter (\<lambda>b. \<not> is_block_acked s b) [0..<?n] = [0..<?n]"
    using assms(3) by (auto simp: filter_id_conv)
  have m: "map (\<lambda>b. ss_piece_last_checked s ! b) [0..<?n] = t # replicate (?n - 1) t"
    using assms(1,2) map_nth [of "replicate ?n t"] by (cases ?n) (simp_all del: upt_Suc)
  show ?thesis
    by (simp only: refresh_last_checked_from_unacked_def Let_def f m list.case fold_min_replicate)
qed

definition silent :: "sent_sliced \<Rightarrow> millis \<Rightarrow> bool" where
  "silent s c \<longleftrightarrow>
     1 \<le> ss_blocks_count s \<and> length (ss_slices s) = ss_blocks_count s \<and>
     ss_piece_last_checked s = replicate (ss_blocks_count s) c \<and> ss_last_checked s = c \<and>
     (\<forall>b < ss_blocks_count s. \<not> is_block_acked s b \<and> ss_slices s ! b \<noteq> [])"

lemma retry_datagram_silent:
  assumes "silent s c" "\<bar>t - c\<bar> > pd" "0 \<le> pd" "sum_list (map length (ss_slices s)) \<le> limit"
  shows "\<exists>s'. retry_datagram t pd limit s 0 = (s', [0..<length (ss_slices s)], sum_list (map length (ss_slices s))) \<and>
    silent s' t \<and> ss_slices s' = ss_slices s \<and> ss_max_retry_count s' = ss_max_retry_count s \<and>
    (if c > 0 \<and> \<bar>ss_last_retry_inc s - t\<bar> > pd
     then ss_retry_count s' = ss_retry_count s + 1 \<and> ss_last_retry_inc s' = t
     else ss_retry_count s' = ss_retry_count s \<and> ss_last_retry_inc s' = ss_last_retry_inc s)"
proof -
  let ?n = "ss_blocks_count s" and ?L = "sum_list (map length (ss_slices s))"
  have n: "length (ss_slices s) = ?n" "1 \<le> ?n" and c: "c \<noteq> t" using assms by (auto simp: silent_def)
  have L: "sum_list (map (\<lambda>b. length (ss_slices s ! b)) [0..<?n]) = ?L"
    using n(1) by (metis (no_types, lifting) map_eq_conv map_map map_nth o_apply)
  define s0 where "s0 = s\<lparr>ss_last_checked := t\<rparr>"
  define s1 where "s1 = s0\<lparr>ss_piece_last_checked := replicate ?n t, ss_sent_count := ss_sent_count s + ?n\<rparr>"
  have "retry_blocks [0..<?n] c t pd limit s0 False 0 = (s1, c > 0, [0..<?n], ?L)"
    using assms n L retry_blocks_all [where bs = "[0..<?n]" and t = t and c = c and pd = pd and s = s0 and bytes = 0
        and limit = limit and sent = False]
    by (simp add: silent_def s0_def s1_def is_block_acked_def fold_update_all)
  moreover have "refresh_last_checked_from_unacked s1 t = s1\<lparr>ss_last_checked := t\<rparr>"
    using assms(1) n by (intro refresh_uniform) (auto simp: silent_def s1_def s0_def is_block_acked_def)
  moreover define s2 where "s2 = s1\<lparr>ss_last_checked := t\<rparr>"
  moreover define s3 where "s3 = (if c > 0 \<and> \<bar>ss_last_retry_inc s - t\<bar> > pd
      then s2\<lparr>ss_retry_count := ss_retry_count s2 + 1, ss_last_retry_inc := t\<rparr> else s2)"
  moreover have "ss_last_checked s = c" using assms(1) by (simp add: silent_def)
  ultimately have "retry_datagram t pd limit s 0 = (s3, [0..<?n], ?L)"
    using n(1) c by (simp add: retry_datagram_def s0_def [symmetric] should_increment_retry_def Let_def)
      (auto simp: s2_def s1_def s0_def)
  moreover have "silent s3 t"
    using assms(1) by (auto simp: silent_def s3_def s2_def s1_def s0_def is_block_acked_def)
  ultimately show ?thesis
    by (intro exI [of _ s3]) (auto simp: n(1) s3_def s2_def s1_def s0_def)
qed

lemma round_away_mono: "0 \<le> x \<Longrightarrow> x \<le> y \<Longrightarrow> round_away x \<le> round_away y"
  by (simp add: round_away_def floor_mono)

lemma adapt_trip_delay_k_le: "w_trip_delay_k w \<le> 5 / 4 \<Longrightarrow> w_trip_delay_k (adapt_trip_delay_k w t) \<le> 5 / 4"
  by (auto simp: adapt_trip_delay_k_def Let_def min_def max_def)

lemma adapt_trip_delay_k_ge: "0 \<le> w_trip_delay_k w \<Longrightarrow> 0 \<le> w_trip_delay_k (adapt_trip_delay_k w t)"
  by (auto simp: adapt_trip_delay_k_def Let_def min_def max_def)

definition max_path_delay :: "writer \<Rightarrow> millis" where
  "max_path_delay w = sliced_path_delay (sliced_retry_round_trip_delay (w_round_trip_delay w)) (5 / 4)"

lemma path_delay_bounds:
  assumes "0 \<le> k" "k \<le> 5 / 4" "0 < rtt"
  shows "0 \<le> sliced_path_delay rtt k" "sliced_path_delay rtt k \<le> sliced_path_delay rtt (5 / 4)"
    "rtt \<le> sliced_path_delay rtt (5 / 4)"
proof -
  have r: "(0 :: rat) \<le> of_int rtt" using assms(3) by simp
  have x: "0 \<le> of_int rtt * k" using r assms(1) by simp
  then show "0 \<le> sliced_path_delay rtt k"
    by (simp add: sliced_path_delay_def round_away_def le_floor_iff)
  have "of_int rtt * k \<le> of_int rtt * (5 / 4)" using assms(2) r by (rule mult_left_mono)
  with x show "sliced_path_delay rtt k \<le> sliced_path_delay rtt (5 / 4)"
    unfolding sliced_path_delay_def by (intro round_away_mono) simp_all
  show "rtt \<le> sliced_path_delay rtt (5 / 4)"
    using r by (simp add: sliced_path_delay_def round_away_def le_floor_iff)
qed

text \<open>The writer with one datagram, at clock \<open>c\<close> after \<open>j\<close> transmissions that nobody acknowledged.\<close>

definition silent_after :: "writer \<Rightarrow> bytes list \<Rightarrow> int \<Rightarrow> nat \<Rightarrow> millis \<Rightarrow> bool" where
  "silent_after w slices m j c \<longleftrightarrow>
     (\<exists>s. w_sending w = [s] \<and> silent s c \<and> ss_slices s = slices \<and> ss_max_retry_count s = m \<and>
        ss_retry_count s = int (j - 1) \<and> ss_last_retry_inc s = (if 2 \<le> j then c else 0)) \<and>
     w_last_checked_slices w = c \<and> 0 \<le> w_trip_delay_k w \<and> w_trip_delay_k w \<le> 5 / 4 \<and>
     (j = 0 \<longrightarrow> c = 0) \<and> (1 \<le> j \<longrightarrow> c > 0) \<and>
     sum_list (map length slices) \<le> sliced_client_limit (w_can_send_rate w) (w_actual_sleep_time w)"

lemma silent_tick:
  assumes "silent_after w slices m j c" "t - c > max_path_delay w" "w_server_addr w" "int j \<le> m + 1"
  shows "w_out (retry_sliced w t) = w_out w @ map (Pair (to_byte Command_Sliced)) slices"
    "if int j = m + 1 then w_sending (retry_sliced w t) = [] else silent_after (retry_sliced w t) slices m (Suc j) t"
    "max_path_delay (retry_sliced w t) = max_path_delay w" "w_server_addr (retry_sliced w t)"
proof -
  let ?rtt = "sliced_retry_round_trip_delay (w_round_trip_delay w)" and ?v = "adapt_trip_delay_k w t"
  let ?limit = "sliced_client_limit (w_can_send_rate w) (w_actual_sleep_time w)"
  define pd where "pd = sliced_path_delay ?rtt (w_trip_delay_k ?v)"
  obtain s where s: "w_sending w = [s]" "silent s c" "ss_slices s = slices" "ss_max_retry_count s = m"
      "ss_retry_count s = int (j - 1)" "ss_last_retry_inc s = (if 2 \<le> j then c else 0)"
    using assms(1) by (auto simp: silent_after_def)
  have k: "0 \<le> w_trip_delay_k ?v" "w_trip_delay_k ?v \<le> 5 / 4"
    using assms(1) adapt_trip_delay_k_le adapt_trip_delay_k_ge by (auto simp: silent_after_def)
  have rtt: "0 < ?rtt" by (simp add: sliced_retry_round_trip_delay_def UNKNOWN_RTT_SLICED_FLOOR_MS_def)
  note pb = path_delay_bounds [OF k rtt, folded pd_def]
  have c: "0 \<le> c" "j = 0 \<longleftrightarrow> c = 0" using assms(1) by (auto simp: silent_after_def)
  have gap: "t - c > pd" "t - c > ?rtt" using assms(2) pb by (auto simp: max_path_delay_def)
  have lim: "sum_list (map length (ss_slices s)) \<le> ?limit" using assms(1) s(3) by (simp add: silent_after_def)
  have a: "\<bar>t - c\<bar> > pd" using gap(1) by simp
  from retry_datagram_silent [OF s(2) a pb(1) lim] obtain s' where
      d: "retry_datagram t pd ?limit s 0 = (s', [0..<length slices], sum_list (map length slices))"
      "silent s' t" "ss_slices s' = slices" "ss_max_retry_count s' = m"
    and r0: "if c > 0 \<and> \<bar>ss_last_retry_inc s - t\<bar> > pd
     then ss_retry_count s' = ss_retry_count s + 1 \<and> ss_last_retry_inc s' = t
     else ss_retry_count s' = ss_retry_count s \<and> ss_last_retry_inc s' = ss_last_retry_inc s"
    unfolding s(3,4) by blast
  have "\<bar>ss_last_retry_inc s - t\<bar> > pd" using s(6) gap(1) c(1) by auto
  with r0 s(5,6) c have rc: "ss_retry_count s' = int j" "ss_last_retry_inc s' = (if 1 \<le> j then t else 0)"
    by (cases j; simp)+
  have l: "retry_loop t pd ?limit (w_sending w) 0 t =
      ([(s', int j > m)], slices, sum_list (map length slices), t)"
  proof -
    have "ss_last_checked s = c" "ss_last_checked s' = t" using s(2) d(2) by (simp_all add: silent_def)
    then show ?thesis using a by (simp add: s(1) d(1,3,4) rc(1) map_nth)
  qed
  have v: "w_sending ?v = [s]" "w_can_send_rate ?v = w_can_send_rate w" "w_out ?v = w_out w"
      "w_actual_sleep_time ?v = w_actual_sleep_time w" "w_server_addr ?v" "w_round_trip_delay ?v = w_round_trip_delay w"
    using s(1) assms(3) by (simp_all add: adapt_trip_delay_k_def Let_def)
  define u where "u = ?v\<lparr>w_last_checked_slices := t, w_used_sliced_limit :=
      (if sum_list (map length slices) \<ge> sliced_used_limit_threshold ?limit then True else w_used_sliced_limit ?v)\<rparr>"
  have snd: "foldl (\<lambda>w p. send_raw_packet w x p) y ps = y\<lparr>w_out := w_out y @ map (Pair (to_byte x)) ps\<rparr>"
    if "w_server_addr y" for x y ps
    using that by (induction ps arbitrary: y) (auto simp: send_raw_packet_def send_raw_packet_cmd_def)
  have r: "retry_sliced w t = u\<lparr>w_out := w_out w @ map (Pair (to_byte Command_Sliced)) slices,
      w_sending := (if int j > m then [] else [s'])\<rparr>"
    using s(1) gap(2) l assms(1) v
    by (simp add: retry_sliced_def Let_def pd_def [symmetric] silent_after_def snd u_def)
  show "w_out (retry_sliced w t) = w_out w @ map (Pair (to_byte Command_Sliced)) slices"
    "max_path_delay (retry_sliced w t) = max_path_delay w" "w_server_addr (retry_sliced w t)"
    using v by (simp_all add: r u_def max_path_delay_def)
  show "if int j = m + 1 then w_sending (retry_sliced w t) = [] else silent_after (retry_sliced w t) slices m (Suc j) t"
  proof (cases "int j = m + 1")
    case False
    then have "w_sending (retry_sliced w t) = [s']" using assms(4) by (simp add: r)
    moreover have "0 < t" using gap(1) pb(1) c(1) by simp
    moreover have "w_last_checked_slices (retry_sliced w t) = t" "w_trip_delay_k (retry_sliced w t) = w_trip_delay_k ?v"
      "w_can_send_rate (retry_sliced w t) = w_can_send_rate w"
      "w_actual_sleep_time (retry_sliced w t) = w_actual_sleep_time w"
      using v(2,4) by (simp_all add: r u_def)
    ultimately have "silent_after (retry_sliced w t) slices m (Suc j) t"
      using d(2-4) rc k lim s(3) unfolding silent_after_def by simp
    with False show ?thesis by simp
  qed (simp add: r)
qed

lemma silent_run:
  assumes "silent_after w slices m j c" "w_server_addr w" "sorted_wrt (\<lambda>a b. b - a > D) (c # ts)" "D = max_path_delay w"
    and "int j + int (length ts) = m + 2" "ts \<noteq> []"
  shows "w_sending (foldl retry_sliced w ts) = [] \<and>
    w_out (foldl retry_sliced w ts) =
      w_out w @ concat (replicate (length ts) (map (Pair (to_byte Command_Sliced)) slices))"
  using assms
proof (induction ts arbitrary: w j c)
  case (Cons t ts)
  have "t - c > max_path_delay w" using Cons.prems(3,4) by simp
  moreover have j: "int j \<le> m + 1" using Cons.prems(5) by simp
  ultimately have step: "w_out (retry_sliced w t) = w_out w @ map (Pair (to_byte Command_Sliced)) slices"
      "if int j = m + 1 then w_sending (retry_sliced w t) = [] else silent_after (retry_sliced w t) slices m (Suc j) t"
      "max_path_delay (retry_sliced w t) = max_path_delay w" "w_server_addr (retry_sliced w t)"
    using silent_tick [OF Cons.prems(1) _ Cons.prems(2)] by auto
  show ?case
  proof (cases "ts = []")
    case True
    then have "int j = m + 1" using Cons.prems(5) by simp
    with step True show ?thesis by simp
  next
    case False
    then have "int j \<noteq> m + 1" using Cons.prems(5) by (cases ts) auto
    with step have sa: "silent_after (retry_sliced w t) slices m (Suc j) t" by simp
    have "sorted_wrt (\<lambda>a b. b - a > D) (t # ts)" "D = max_path_delay (retry_sliced w t)"
      "int (Suc j) + int (length ts) = m + 2"
      using Cons.prems(3-5) step(3) by auto
    from Cons.IH [OF sa step(4) this False] step(1) show ?thesis by simp
  qed
qed simp

text \<open>C20: Retransmission to a silent peer ends.  A datagram alone in the sending list, which fits the byte
  limit of a tick and is never acknowledged, is sent in full exactly \<open>max_retries + 2\<close> times over ticks
  that are further apart than the path delay, and is then gone.\<close>

theorem silent_peer_gives_up:
  assumes "w_sending w = [s]" "ss_last_checked s = 0" "ss_retry_count s = 0" "ss_last_retry_inc s = 0"
    and "1 \<le> ss_blocks_count s" "length (ss_slices s) = ss_blocks_count s" "\<forall>p \<in> set (ss_slices s). p \<noteq> []"
    and "ss_piece_last_checked s = replicate (ss_blocks_count s) 0" "\<forall>b < ss_blocks_count s. \<not> is_block_acked s b"
    and "w_last_checked_slices w = 0" "0 \<le> w_trip_delay_k w" "w_trip_delay_k w \<le> 5 / 4" "w_server_addr w"
    and "sum_list (map length (ss_slices s)) \<le> sliced_client_limit (w_can_send_rate w) (w_actual_sleep_time w)"
    and "0 \<le> ss_max_retry_count s" "int (length ts) = ss_max_retry_count s + 2"
    and "sorted_wrt (\<lambda>a b. b - a > max_path_delay w) (0 # ts)"
  shows "w_sending (foldl retry_sliced w ts) = [] \<and>
    w_out (foldl retry_sliced w ts) =
      w_out w @ concat (replicate (length ts) (map (Pair (to_byte Command_Sliced)) (ss_slices s)))"
proof (rule silent_run)
  have "silent s 0" using assms(2,5-9) by (auto simp: silent_def)
  then show "silent_after w (ss_slices s) (ss_max_retry_count s) 0 0"
    using assms(1,3,4,10-12,14) by (simp add: silent_after_def)
  show "ts \<noteq> []" using assms(15,16) by auto
qed (use assms in simp_all)

theorem silent_peer_gives_up_witness:
  "\<exists>w. w_sending w \<noteq> [] \<and> w_sending (foldl retry_sliced w [300, 600, 900]) = []"
proof -
  let ?s = "\<lparr>ss_datagram_num = 0, ss_slices = [[0, 0, 0, 0, 31, 1]], ss_piece_last_checked = [0],
      ss_ack_flags = replicate 32 0, ss_blocks_count = 1, ss_sent_count = 0, ss_last_checked = 0, ss_retry_count = 0,
      ss_last_retry_inc = 0, ss_max_retry_count = 1, ss_u_key = unique_key_none\<rparr>"
  let ?w = "(writer_new 0 (\<lambda>_. 0) (\<lambda>_. 0) True)\<lparr>w_sending := [?s]\<rparr>"
  have d: "max_path_delay ?w = 260"
    by (simp add: max_path_delay_def sliced_path_delay_def sliced_retry_round_trip_delay_def writer_new_def
        UNKNOWN_RTT_SLICED_FLOOR_MS_def round_away_def floor_eq_iff)
  have l: "6 \<le> sliced_client_limit (2 * 1024 * 1024) 5"
    by (simp add: sliced_client_limit_def sliced_cycle_time_ms_def round_away_def le_nat_iff le_floor_iff)
  have "w_sending (foldl retry_sliced ?w [300, 600, 900]) = []"
    using silent_peer_gives_up [of ?w ?s "[300, 600, 900]"] d l
    by (simp add: writer_new_def is_block_acked_def flag_bit_alt)
  then show ?thesis by (intro exI [of _ ?w]) simp
qed

end
