(* ===== verification/Grouped.thy ===== *)
theory Grouped
  imports Writer_State "HOL-Library.Multiset"
begin

text \<open>
  The Grouped container: the frame format \<^verbatim>\<open>cmd, u16 length, data\<close> of \<^verbatim>\<open>push_tmp_send_item\<close>
  (\<^verbatim>\<open>client/protocol_direct_send.rs\<close>) and the loop of \<^verbatim>\<open>dispatch_packet_commands\<close>
  (\<^verbatim>\<open>client/protocol_recv.rs\<close>) that splits a container into its commands.
\<close>

definition frame_bytes :: "u8 \<times> bytes \<Rightarrow> bytes" where
  "frame_bytes f = fst f # le_bytes 2 (of_nat (length (snd f)) :: u16) @ snd f"

fun split_grouped :: "bytes \<Rightarrow> (u8 \<times> bytes) list" where
  "split_grouped (sub_cmd # b0 # b1 # rest) =
     (let sz = unat (from_le [b0, b1] :: u16)
      in if sz > length rest then []
         else (sub_cmd, take sz rest) # split_grouped (drop sz rest))"
| "split_grouped payload = []"

text \<open>The commands a packet carries.  A container is never compressed.\<close>

definition packet_commands :: "u8 \<Rightarrow> bytes \<Rightarrow> (u8 \<times> bytes) list" where
  "packet_commands raw_cmd payload =
     (if from_byte (raw_cmd AND 0x7F) \<noteq> Command_Grouped then [(raw_cmd, payload)]
      else if raw_cmd AND COMPRESSED_FLAG \<noteq> 0 then []
      else split_grouped payload)"

lemma length_frame_bytes [simp]: "length (frame_bytes f) = length (snd f) + 3"
  by (simp add: frame_bytes_def)

lemma split_grouped_frame:
  assumes "length (snd f) < 2 ^ 16"
  shows "split_grouped (frame_bytes f @ rest) = f # split_grouped rest"
proof -
  let ?bs = "le_bytes 2 (of_nat (length (snd f)) :: u16)"
  have "length ?bs = Suc (Suc 0)" by simp
  then obtain b0 b1 where b: "?bs = [b0, b1]"
    by (auto simp: length_Suc_conv simp del: length_le_bytes)
  then have "(from_le [b0, b1] :: u16) = of_nat (length (snd f))"
    using from_le_le_bytes_16 [of "of_nat (length (snd f))"] by simp
  moreover note b
  ultimately show ?thesis
    using assms by (cases f) (simp add: frame_bytes_def unat_of_nat)
qed

lemma split_grouped_frames:
  "\<forall>f \<in> set fs. length (snd f) < 2 ^ 16 \<Longrightarrow> split_grouped (concat (map frame_bytes fs)) = fs"
  by (induction fs) (simp_all add: split_grouped_frame)

lemma split_grouped_bounded:
  "(c, d) \<in> set (split_grouped p) \<Longrightarrow> length d + 3 \<le> length p"
  by (induction p rule: split_grouped.induct) (auto simp: Let_def split: if_splits)

end
