(* ===== verification/Direct_Send.thy ===== *)
theory Direct_Send
  imports Sliced_Send Grouped
begin

text \<open>
  Commands that are not sliced (\<^verbatim>\<open>client/protocol_direct_send.rs\<close>): reliable high-priority commands with
  their pending list, acknowledgement and retry, low-priority commands, and the batch buffer that
  groups several commands into one packet; and the writer tick that drives all of sending
  (\<^verbatim>\<open>client/protocol_send.rs\<close>).
\<close>

section \<open>Model\<close>

definition pending_h_path_delay :: "millis \<Rightarrow> millis" where
  "pending_h_path_delay round_trip_delay =
     min (max (round_away (of_int round_trip_delay * (11 / 10) + 10)) 200) 500"

definition retry_due :: "millis \<Rightarrow> millis \<Rightarrow> millis \<Rightarrow> bool" where
  "retry_due last_sent_at cur_tm path_delay \<longleftrightarrow> \<bar>last_sent_at - cur_tm\<bar> > path_delay"

subsection \<open>The batch buffer\<close>

definition flush_send_batch :: "writer \<Rightarrow> writer" where
  "flush_send_batch w =
     (if w_tmp_send_count w = 0 then w
      else let buf = w_tmp_send_buf w;
               w = (if w_tmp_send_count w > 1 then send_raw_packet w Command_Grouped buf
                    else if length buf \<ge> 3 then send_raw_packet_cmd w (buf ! 0) (drop 3 buf) else w)
           in w\<lparr>w_tmp_send_buf := [], w_tmp_send_count := 0, w_tmp_send_size := 0\<rparr>)"

definition push_tmp_send_item :: "writer \<Rightarrow> u8 \<Rightarrow> bytes \<Rightarrow> nat \<Rightarrow> writer" where
  "push_tmp_send_item w wire_cmd wire_data accounted_size =
     w\<lparr>w_tmp_send_buf := w_tmp_send_buf w @ frame_bytes (wire_cmd, wire_data),
       w_tmp_send_count := w_tmp_send_count w + 1,
       w_tmp_send_size := w_tmp_send_size w + accounted_size\<rparr>"

definition do_send_mp_data_wire :: "writer \<Rightarrow> u8 \<Rightarrow> bytes \<Rightarrow> writer" where
  "do_send_mp_data_wire w wire_cmd wire_data =
     (let accounted_size = length wire_data + 15 + 3
      in if w_tmp_send_size w + accounted_size > unat (w_actual_pmtu w)
         then if w_tmp_send_size w > accounted_size
              then push_tmp_send_item (flush_send_batch w) wire_cmd wire_data accounted_size
              else send_raw_packet_cmd w wire_cmd wire_data
         else push_tmp_send_item w wire_cmd wire_data accounted_size)"

subsection \<open>High-priority commands\<close>

definition apply_regular_hl_ack :: "writer \<Rightarrow> writer" where
  "apply_regular_hl_ack w =
     (if \<not> has_new_data (w_recvd_slider w) then w
      else w\<lparr>w_recvd_slider := (w_recvd_slider w)\<lparr>has_new_data := False\<rparr>,
             w_pending_h := filter (\<lambda>d. \<not> ack_confirms_msg (w_recvd_slider w) (si_msg_num d)) (w_pending_h w)\<rparr>)"

definition apply_high_send_u_key_cleanup :: "writer \<Rightarrow> send_item list \<Rightarrow> writer" where
  "apply_high_send_u_key_cleanup w h_items =
     foldl (\<lambda>w item. if key_is_none (si_u_key item) then w
                     else w\<lparr>w_pending_h := remove_first (\<lambda>p. si_u_key p = si_u_key item) (w_pending_h w)\<rparr>) w h_items"

definition send_h_item :: "writer \<Rightarrow> send_item \<Rightarrow> millis \<Rightarrow> writer \<times> send_item" where
  "send_h_item w item cur_tm =
     (let (eff_cmd, eff_data) = maybe_compress (si_cmd item) (si_data item)
      in if si_encrypted item
         then let (msg_num, w) = take_msg_num w (si_msg_num item)
              in case seal_command w msg_num eff_cmd (si_retry_left item > 0) eff_data of
                   None \<Rightarrow> (w, item)
                 | Some (encrypted, w) \<Rightarrow>
                     (let w = do_send_mp_data_wire w (crypted_wire_cmd eff_cmd) encrypted;
                          w = (if si_retry_left item > 0 \<and> si_msg_num item = 0
                               then w\<lparr>w_pending_h := w_pending_h w @
                                      [item\<lparr>si_msg_num := msg_num, si_last_sent_at := cur_tm,
                                            si_cmd := eff_cmd, si_data := eff_data\<rparr>]\<rparr>
                               else w)
                      in (w, item\<lparr>si_last_sent_at := cur_tm\<rparr>))
         else (do_send_mp_data_wire w eff_cmd eff_data, item\<lparr>si_last_sent_at := cur_tm\<rparr>))"

text \<open>One entry of the retry pass: what stays in the list and the copy to send again.\<close>

definition retry_entry :: "millis \<Rightarrow> millis \<Rightarrow> send_item \<Rightarrow> send_item option \<times> send_item option" where
  "retry_entry cur_tm path_delay item =
     (if retry_due (si_last_sent_at item) cur_tm path_delay
      then let resend = item\<lparr>si_last_sent_at := cur_tm\<rparr>;
               left = resend\<lparr>si_retry_left := si_retry_left item - 1\<rparr>
           in (if si_retry_left left \<le> 0 then None else Some left, Some resend)
      else (Some item, None))"

definition retry_pending_h :: "writer \<Rightarrow> millis \<Rightarrow> writer" where
  "retry_pending_h w cur_tm =
     (let path_delay = pending_h_path_delay (w_round_trip_delay w);
          entries = map (retry_entry cur_tm path_delay) (w_pending_h w);
          to_resend = List.map_filter snd entries;
          w = w\<lparr>w_pending_h := List.map_filter fst entries\<rparr>
      in foldl (\<lambda>w item. fst (send_h_item w item cur_tm)) w to_resend)"

subsection \<open>Low-priority commands and the tick\<close>

definition batch_send_direct :: "writer \<Rightarrow> send_item \<Rightarrow> writer" where
  "batch_send_direct w item =
     (let (eff_cmd, eff_data) = maybe_compress (si_cmd item) (si_data item)
      in if si_encrypted item
         then let (msg_num, w) = take_msg_num w 0
              in case seal_command w msg_num eff_cmd (si_retry_left item > 0) eff_data of
                   None \<Rightarrow> w
                 | Some (encrypted, w) \<Rightarrow> do_send_mp_data_wire w (crypted_wire_cmd eff_cmd) encrypted
         else do_send_mp_data_wire w eff_cmd eff_data)"

definition send_low_items_around_sliced_retry :: "writer \<Rightarrow> send_item list \<Rightarrow> millis \<Rightarrow> writer" where
  "send_low_items_around_sliced_retry w l_items cur_tm =
     (let w = (case l_items of [] \<Rightarrow> w | first # _ \<Rightarrow> batch_send_direct w first);
          w = flush_send_batch w;
          w = retry_sliced w cur_tm;
          w = foldl batch_send_direct w (drop 1 l_items)
      in flush_send_batch w)"

definition check_sening_data ::
  "writer \<Rightarrow> send_item list \<Rightarrow> send_item list \<Rightarrow> send_item list \<Rightarrow> sliced_ack list \<Rightarrow> millis \<Rightarrow> writer" where
  "check_sening_data w sliced high low acks cur_tm =
     (let w = apply_sliced_send_u_key_cleanup w sliced;
          w = foldl create_sliced_and_send w sliced;
          w = apply_copy_acks w acks cur_tm;
          w = apply_regular_hl_ack w;
          w = apply_high_send_u_key_cleanup w high;
          w = foldl (\<lambda>w item. fst (send_h_item w item cur_tm)) w high;
          w = retry_pending_h w cur_tm
      in send_low_items_around_sliced_retry w low cur_tm)"

definition copy_send_ack_and_check_sening_data ::
  "writer \<Rightarrow> send_lock_state \<Rightarrow> millis \<Rightarrow> writer \<times> send_lock_state" where
  "copy_send_ack_and_check_sening_data w lock cur_tm =
     (let (((sliced, high, low), acks, tmp_slider), lock) = take_send_snapshot lock [] [] [] [];
          w = (case tmp_slider of None \<Rightarrow> w | Some s \<Rightarrow> w\<lparr>w_recvd_slider := s\<rparr>)
      in (check_sening_data w sliced high low acks cur_tm, lock))"

section \<open>Frames on the wire\<close>

text \<open>The commands handed over so far: those the peer splits out of the packets sent, and those that
  wait in the batch buffer.\<close>

definition sent_commands :: "(u8 \<times> bytes) list \<Rightarrow> (u8 \<times> bytes) list" where
  "sent_commands out = concat (map (\<lambda>(c, p). packet_commands c p) out)"

definition wire_frames :: "writer \<Rightarrow> (u8 \<times> bytes) multiset" where
  "wire_frames w = mset (sent_commands (w_out w)) + mset (split_grouped (w_tmp_send_buf w))"

lemma sent_commands_append [simp]: "sent_commands (xs @ ys) = sent_commands xs @ sent_commands ys"
  and sent_commands_Nil [simp]: "sent_commands [] = []"
  and sent_commands_Cons: "sent_commands (f # xs) = packet_commands (fst f) (snd f) @ sent_commands xs"
  by (simp_all add: sent_commands_def case_prod_unfold)

definition plain_cmd :: "u8 \<Rightarrow> bool" where
  "plain_cmd c \<longleftrightarrow> from_byte (c AND 0x7F) \<noteq> Command_Grouped"

text \<open>The buffer holds the frames it accounts for, each with its 15 bytes of transport header, and they
  fit the path MTU together.\<close>

definition batch_ok :: "writer \<Rightarrow> bool" where
  "batch_ok w \<longleftrightarrow>
     (\<exists>fs. w_tmp_send_buf w = concat (map frame_bytes fs) \<and> w_tmp_send_count w = length fs
         \<and> w_tmp_send_size w = sum_list (map (\<lambda>f. length (snd f) + 18) fs)
         \<and> list_all (\<lambda>f. plain_cmd (fst f)) fs)
     \<and> w_tmp_send_size w \<le> unat (w_actual_pmtu w)"

text \<open>Every packet fits the path MTU with its transport header, except one that carries a single command as
  it was given, which is then too long on its own.\<close>

definition packets_fit :: "nat \<Rightarrow> (u8 \<times> bytes) list \<Rightarrow> bool" where
  "packets_fit pmtu out \<longleftrightarrow> (\<forall>(c, p) \<in> set out. length p + 15 \<le> pmtu \<or> packet_commands c p = [(c, p)])"

lemma batch_frame_lengths:
  assumes "sum_list (map (\<lambda>f. length (snd f) + 18) fs) \<le> unat (p :: u16)" "f \<in> set fs"
  shows "length (snd f) < 2 ^ 16"
proof -
  have "length (snd f) + 18 \<le> sum_list (map (\<lambda>f. length (snd f) + 18) fs)"
    using assms(2) by (induction fs) auto
  moreover have "unat p < 2 ^ 16" using unsigned_less [of p] by simp
  ultimately show ?thesis using assms(1) by linarith
qed

lemma length_concat_frames:
  "length (concat (map frame_bytes fs)) + 15 * length fs = sum_list (map (\<lambda>f. length (snd f) + 18) fs)"
  by (induction fs) auto

lemma Grouped_not_plain: "\<not> plain_cmd (to_byte Command_Grouped)"
  by (simp add: plain_cmd_def from_byte_def)

lemma Grouped_not_compressed: "to_byte Command_Grouped AND COMPRESSED_FLAG = 0"
  by (simp add: COMPRESSED_FLAG_def)

lemma packet_commands_plain: "plain_cmd c \<Longrightarrow> packet_commands c p = [(c, p)]"
  by (simp add: packet_commands_def plain_cmd_def)

lemma packet_commands_Grouped: "packet_commands (to_byte Command_Grouped) p = split_grouped p"
  using Grouped_not_plain Grouped_not_compressed by (simp add: packet_commands_def plain_cmd_def)

text \<open>What flushing and adding a frame do, over the fields the batch reads.\<close>

definition batch_step :: "nat \<Rightarrow> writer \<Rightarrow> (u8 \<times> bytes) multiset \<Rightarrow> writer \<Rightarrow> bool" where
  "batch_step pmtu w fs w' \<longleftrightarrow>
     batch_ok w' \<and> wire_frames w' = wire_frames w + fs \<and> w_server_addr w' \<and> unat (w_actual_pmtu w') = pmtu
     \<and> (\<exists>new. w_out w' = w_out w @ new \<and> packets_fit pmtu new)"

lemma batch_step_trans:
  "batch_step n w fs w1 \<Longrightarrow> batch_step n w1 gs w2 \<Longrightarrow> batch_step n w (fs + gs) w2"
  by (auto simp: batch_step_def add.assoc packets_fit_def)

lemma flush_out:
  assumes "batch_ok w" "w_server_addr w"
  obtains fs where "w_tmp_send_buf w = concat (map frame_bytes fs)" "split_grouped (w_tmp_send_buf w) = fs"
    "flush_send_batch w =
       (if fs = [] then w
        else w\<lparr>w_out := w_out w @ [if length fs > 1 then (to_byte Command_Grouped, w_tmp_send_buf w) else hd fs],
               w_tmp_send_buf := [], w_tmp_send_count := 0, w_tmp_send_size := 0\<rparr>)"
    "w_tmp_send_count w = length fs" "length (w_tmp_send_buf w) + 15 * length fs = w_tmp_send_size w"
    "list_all (\<lambda>f. plain_cmd (fst f)) fs"
proof -
  obtain fs where fs: "w_tmp_send_buf w = concat (map frame_bytes fs)" "w_tmp_send_count w = length fs"
      "w_tmp_send_size w = sum_list (map (\<lambda>f. length (snd f) + 18) fs)" "list_all (\<lambda>f. plain_cmd (fst f)) fs"
    and le: "w_tmp_send_size w \<le> unat (w_actual_pmtu w)"
    using assms(1) by (auto simp: batch_ok_def)
  have split: "split_grouped (w_tmp_send_buf w) = fs"
    using fs le by (auto intro!: split_grouped_frames batch_frame_lengths [where p = "w_actual_pmtu w"])
  have "flush_send_batch w =
       (if fs = [] then w
        else w\<lparr>w_out := w_out w @ [if length fs > 1 then (to_byte Command_Grouped, w_tmp_send_buf w) else hd fs],
               w_tmp_send_buf := [], w_tmp_send_count := 0, w_tmp_send_size := 0\<rparr>)"
    using fs assms(2)
    by (cases fs; cases "tl fs")
      (auto simp: flush_send_batch_def send_raw_packet_def send_raw_packet_cmd_def Let_def frame_bytes_def
        numeral_eq_Suc)
  with fs split show thesis
    by (intro that) (simp_all add: length_concat_frames)
qed

lemma flush_batch_step:
  assumes "batch_ok w" "w_server_addr w"
  shows "batch_step (unat (w_actual_pmtu w)) w {#} (flush_send_batch w)"
    "w_tmp_send_buf (flush_send_batch w) = []" "w_tmp_send_count (flush_send_batch w) = 0"
    "w_tmp_send_size (flush_send_batch w) = 0"
proof -
  obtain fs where fs: "w_tmp_send_buf w = concat (map frame_bytes fs)" "split_grouped (w_tmp_send_buf w) = fs"
    "flush_send_batch w =
       (if fs = [] then w
        else w\<lparr>w_out := w_out w @ [if length fs > 1 then (to_byte Command_Grouped, w_tmp_send_buf w) else hd fs],
               w_tmp_send_buf := [], w_tmp_send_count := 0, w_tmp_send_size := 0\<rparr>)"
    "w_tmp_send_count w = length fs" "length (w_tmp_send_buf w) + 15 * length fs = w_tmp_send_size w"
    "list_all (\<lambda>f. plain_cmd (fst f)) fs"
    using flush_out [OF assms] .
  have le: "w_tmp_send_size w \<le> unat (w_actual_pmtu w)" using assms(1) by (simp add: batch_ok_def)
  show "w_tmp_send_buf (flush_send_batch w) = []" "w_tmp_send_count (flush_send_batch w) = 0"
    "w_tmp_send_size (flush_send_batch w) = 0"
    using fs by auto
  have "batch_ok (flush_send_batch w)"
    using fs(3) assms(1) by (auto simp: batch_ok_def intro!: exI [of _ "[]"])
  moreover have "wire_frames (flush_send_batch w) = wire_frames w"
    using fs by (cases fs; cases "tl fs")
      (auto simp: wire_frames_def sent_commands_Cons packet_commands_Grouped packet_commands_plain simp del: to_byte.simps)
  moreover have "\<exists>new. w_out (flush_send_batch w) = w_out w @ new \<and> packets_fit (unat (w_actual_pmtu w)) new"
    using fs(2-6) le by (cases fs; cases "tl fs") (auto simp: packets_fit_def packet_commands_plain)
  ultimately show "batch_step (unat (w_actual_pmtu w)) w {#} (flush_send_batch w)"
    using fs(3) assms(2) by (auto simp: batch_step_def)
qed


lemma push_batch_step:
  assumes ok: "batch_ok w" "w_server_addr w" and c: "plain_cmd c"
    and fits: "w_tmp_send_size w + (length d + 18) \<le> unat (w_actual_pmtu w)"
  shows "batch_step (unat (w_actual_pmtu w)) w {#(c, d)#} (push_tmp_send_item w c d (length d + 15 + 3))"
proof -
  let ?w = "push_tmp_send_item w c d (length d + 15 + 3)"
  obtain fs where fs: "w_tmp_send_buf w = concat (map frame_bytes fs)" "w_tmp_send_count w = length fs"
      "w_tmp_send_size w = sum_list (map (\<lambda>f. length (snd f) + 18) fs)" "list_all (\<lambda>f. plain_cmd (fst f)) fs"
    using ok(1) by (auto simp: batch_ok_def)
  let ?fs = "fs @ [(c, d)]"
  have sum: "sum_list (map (\<lambda>f. length (snd f) + 18) ?fs) \<le> unat (w_actual_pmtu w)"
    using fits fs(3) by simp
  have buf: "w_tmp_send_buf ?w = concat (map frame_bytes ?fs)"
    using fs(1) by (simp add: push_tmp_send_item_def)
  have "batch_ok ?w"
    using fs c fits unfolding batch_ok_def
    by (intro conjI exI [of _ ?fs]) (simp_all add: push_tmp_send_item_def)
  moreover have "split_grouped (w_tmp_send_buf ?w) = ?fs" "split_grouped (w_tmp_send_buf w) = fs"
    unfolding buf fs(1) using sum
    by (intro split_grouped_frames ballI; rule batch_frame_lengths [where p = "w_actual_pmtu w"]; simp)+
  ultimately show ?thesis
    using ok by (simp add: batch_step_def wire_frames_def push_tmp_send_item_def packets_fit_def)
qed

lemma direct_batch_step:
  assumes "batch_ok w" "w_server_addr w" "plain_cmd c"
  shows "batch_step (unat (w_actual_pmtu w)) w {#(c, d)#} (send_raw_packet_cmd w c d)"
  using assms
  by (simp add: batch_step_def batch_ok_def wire_frames_def send_raw_packet_cmd_def sent_commands_Cons packet_commands_plain
      packets_fit_def)

lemma do_send_batch_step:
  assumes "batch_ok w" "w_server_addr w" "plain_cmd c"
  shows "batch_step (unat (w_actual_pmtu w)) w {#(c, d)#} (do_send_mp_data_wire w c d)"
proof (cases "w_tmp_send_size w + (length d + 18) \<le> unat (w_actual_pmtu w)")
  case True
  then show ?thesis
    using push_batch_step [OF assms True] by (simp add: do_send_mp_data_wire_def Let_def)
next
  case over: False
  show ?thesis
  proof (cases "w_tmp_send_size w > length d + 18")
    case True
    let ?f = "flush_send_batch w"
    have f: "batch_step (unat (w_actual_pmtu w)) w {#} ?f" and size: "w_tmp_send_size ?f = 0"
      using flush_batch_step [OF assms(1,2)] by auto
    have "length d + 18 \<le> unat (w_actual_pmtu w)"
      using True assms(1) by (simp add: batch_ok_def)
    then have "batch_step (unat (w_actual_pmtu w)) ?f {#(c, d)#} (push_tmp_send_item ?f c d (length d + 15 + 3))"
      using push_batch_step [of ?f c d] f size assms(3) by (simp add: batch_step_def)
    then show ?thesis
      using batch_step_trans [OF f] over True by (simp add: do_send_mp_data_wire_def Let_def)
  qed (use direct_batch_step [OF assms] over in \<open>simp add: do_send_mp_data_wire_def Let_def\<close>)
qed

lemma batch_step_ready:
  "batch_step n w fs w' \<Longrightarrow> batch_ok w' \<and> w_server_addr w' \<and> unat (w_actual_pmtu w') = n"
  by (simp add: batch_step_def)

lemma batch_step_refl:
  "batch_ok w \<Longrightarrow> w_server_addr w \<Longrightarrow> batch_step (unat (w_actual_pmtu w)) w {#} w"
  by (simp add: batch_step_def packets_fit_def)

lemma do_send_all_batch_step:
  assumes "batch_ok w" "w_server_addr w" "list_all (\<lambda>f. plain_cmd (fst f)) fs"
  shows "batch_step (unat (w_actual_pmtu w)) w (mset fs) (foldl (\<lambda>w (c, d). do_send_mp_data_wire w c d) w fs)"
  using assms
proof (induction fs rule: rev_induct)
  case (snoc f fs)
  let ?w = "foldl (\<lambda>w (c, d). do_send_mp_data_wire w c d) w fs"
  have step: "batch_step (unat (w_actual_pmtu w)) w (mset fs) ?w" using snoc by simp
  have "batch_step (unat (w_actual_pmtu w)) ?w {#f#} (do_send_mp_data_wire ?w (fst f) (snd f))"
    using do_send_batch_step [of ?w "fst f" "snd f"] batch_step_ready [OF step] snoc.prems(3) by simp
  from batch_step_trans [OF step this] show ?case
    by (simp add: case_prod_unfold)
qed (simp add: batch_step_refl)

definition batch_idle :: "writer \<Rightarrow> bool" where
  "batch_idle w \<longleftrightarrow> w_tmp_send_buf w = [] \<and> w_tmp_send_count w = 0 \<and> w_tmp_send_size w = 0"

lemma batch_idle_ok: "batch_idle w \<Longrightarrow> batch_ok w"
  by (auto simp: batch_idle_def batch_ok_def intro!: exI [of _ "[]"])

lemma batch_idle_flush: "batch_ok w \<Longrightarrow> w_server_addr w \<Longrightarrow> batch_idle (flush_send_batch w)"
  using flush_batch_step by (simp add: batch_idle_def)

lemma batch_idle_frames:
  "batch_idle w \<Longrightarrow> wire_frames w = mset (sent_commands (w_out w))"
  by (simp add: batch_idle_def wire_frames_def)

text \<open>The order.  A command that finds the buffer too full and not smaller than itself overtakes it; a
  command of at most half the path MTU never does.\<close>

definition half_mtu :: "nat \<Rightarrow> u8 \<times> bytes \<Rightarrow> bool" where
  "half_mtu pmtu f \<longleftrightarrow> 2 * (length (snd f) + 18) \<le> pmtu"

definition small_frames :: "writer \<Rightarrow> (u8 \<times> bytes) list" where
  "small_frames w = filter (half_mtu (unat (w_actual_pmtu w))) (sent_commands (w_out w) @ split_grouped (w_tmp_send_buf w))"

lemma flush_small_frames:
  assumes "batch_ok w" "w_server_addr w"
  shows "small_frames (flush_send_batch w) = small_frames w"
proof -
  obtain fs where fs: "w_tmp_send_buf w = concat (map frame_bytes fs)" "split_grouped (w_tmp_send_buf w) = fs"
    "flush_send_batch w =
       (if fs = [] then w
        else w\<lparr>w_out := w_out w @ [if length fs > 1 then (to_byte Command_Grouped, w_tmp_send_buf w) else hd fs],
               w_tmp_send_buf := [], w_tmp_send_count := 0, w_tmp_send_size := 0\<rparr>)"
    "list_all (\<lambda>f. plain_cmd (fst f)) fs"
    using flush_out [OF assms] by metis
  then show ?thesis
    by (cases fs; cases "tl fs")
      (auto simp: small_frames_def sent_commands_Cons packet_commands_Grouped packet_commands_plain simp del: to_byte.simps)
qed

lemma push_small_frames:
  assumes ok: "batch_ok w" and fits: "w_tmp_send_size w + (length d + 18) \<le> unat (w_actual_pmtu w)"
  shows "small_frames (push_tmp_send_item w c d (length d + 15 + 3)) =
     small_frames w @ filter (half_mtu (unat (w_actual_pmtu w))) [(c, d)]"
proof -
  obtain fs where fs: "w_tmp_send_buf w = concat (map frame_bytes fs)"
      "w_tmp_send_size w = sum_list (map (\<lambda>f. length (snd f) + 18) fs)"
    using ok by (auto simp: batch_ok_def)
  have "sum_list (map (\<lambda>f. length (snd f) + 18) (fs @ [(c, d)])) \<le> unat (w_actual_pmtu w)"
    using fits fs(2) by simp
  then have "split_grouped (concat (map frame_bytes (fs @ [(c, d)]))) = fs @ [(c, d)]" "split_grouped (concat (map frame_bytes fs)) = fs"
    by (intro split_grouped_frames ballI; rule batch_frame_lengths [where p = "w_actual_pmtu w"]; simp)+
  then show ?thesis using fs(1) by (simp add: small_frames_def push_tmp_send_item_def)
qed

lemma do_send_small_frames:
  assumes "batch_ok w" "w_server_addr w" "plain_cmd c"
  shows "small_frames (do_send_mp_data_wire w c d) =
     small_frames w @ filter (half_mtu (unat (w_actual_pmtu w))) [(c, d)]"
proof -
  consider "w_tmp_send_size w + (length d + 18) \<le> unat (w_actual_pmtu w)"
    | (flush) "\<not> w_tmp_send_size w + (length d + 18) \<le> unat (w_actual_pmtu w)" "length d + 18 < w_tmp_send_size w"
    | (direct) "\<not> w_tmp_send_size w + (length d + 18) \<le> unat (w_actual_pmtu w)" "w_tmp_send_size w \<le> length d + 18"
    by linarith
  then show ?thesis
  proof cases
    case 1
    then show ?thesis using push_small_frames [OF assms(1)] by (simp add: do_send_mp_data_wire_def Let_def)
  next
    case flush
    let ?f = "flush_send_batch w"
    have f: "batch_ok ?f" "w_tmp_send_size ?f = 0" "w_actual_pmtu ?f = w_actual_pmtu w"
      using flush_batch_step [OF assms(1,2)] by (auto simp: batch_step_def word_unat_eq_iff)
    have "length d + 18 \<le> unat (w_actual_pmtu w)" using flush assms(1) by (simp add: batch_ok_def)
    then show ?thesis
      using flush push_small_frames [of ?f d c] f flush_small_frames [OF assms(1,2)]
      by (simp add: do_send_mp_data_wire_def Let_def)
  next
    case direct
    then have "\<not> half_mtu (unat (w_actual_pmtu w)) (c, d)" by (simp add: half_mtu_def)
    then show ?thesis
      using direct assms(2,3)
      by (simp add: do_send_mp_data_wire_def Let_def small_frames_def send_raw_packet_cmd_def sent_commands_Cons packet_commands_plain)
  qed
qed

lemma do_send_all_small_frames:
  assumes "batch_ok w" "w_server_addr w" "list_all (\<lambda>f. plain_cmd (fst f)) fs"
  shows "small_frames (foldl (\<lambda>w (c, d). do_send_mp_data_wire w c d) w fs) =
     small_frames w @ filter (half_mtu (unat (w_actual_pmtu w))) fs"
  using assms
proof (induction fs rule: rev_induct)
  case (snoc f fs)
  let ?w = "foldl (\<lambda>w (c, d). do_send_mp_data_wire w c d) w fs"
  have ready: "batch_ok ?w" "w_server_addr ?w" "unat (w_actual_pmtu ?w) = unat (w_actual_pmtu w)"
    using batch_step_ready [OF do_send_all_batch_step [OF snoc.prems(1,2), of fs]] snoc.prems(3) by auto
  have IH: "small_frames ?w = small_frames w @ filter (half_mtu (unat (w_actual_pmtu w))) fs" using snoc by simp
  have "small_frames (do_send_mp_data_wire ?w (fst f) (snd f)) =
      small_frames ?w @ filter (half_mtu (unat (w_actual_pmtu w))) [f]"
    using do_send_small_frames [OF ready(1,2), of "fst f" "snd f"] snoc.prems(3) ready(3) by simp
  then show ?case unfolding IH by (simp add: case_prod_unfold)
qed simp

text \<open>C17: Batching loses and invents nothing, and keeps short commands in order.  Any sequence of commands
  given to an idle batch and flushed is put into new packets out of which the peer splits exactly
  these commands, each as often as it was given.  The order may change: a command that does not fit beside the
  buffered ones and is not smaller than them is sent ahead of them.  But all commands of at most
  half the path MTU come out in the order in which they were given.  Every packet fits the path MTU with its
  transport header, unless it is one single command that was given that long.\<close>

theorem batching_conserves:
  assumes idle: "batch_idle w" "w_server_addr w" and fs: "list_all (\<lambda>f. plain_cmd (fst f)) fs"
    and w': "w' = flush_send_batch (foldl (\<lambda>w (c, d). do_send_mp_data_wire w c d) w fs)"
    and pmtu: "pmtu = unat (w_actual_pmtu w)"
  shows "batch_idle w' \<and> (\<exists>new. w_out w' = w_out w @ new
     \<and> mset (sent_commands new) = mset fs
     \<and> filter (half_mtu pmtu) (sent_commands new) = filter (half_mtu pmtu) fs
     \<and> (\<forall>(c, p) \<in> set new. length p + 15 \<le> pmtu \<or> (c, p) \<in> set fs))"
proof -
  let ?m = "foldl (\<lambda>w (c, d). do_send_mp_data_wire w c d) w fs"
  have m: "batch_step pmtu w (mset fs) ?m"
    unfolding pmtu using do_send_all_batch_step [OF batch_idle_ok] assms by blast
  have "batch_step pmtu ?m {#} w'"
    using flush_batch_step(1) [of ?m] batch_step_ready [OF m] w' by simp
  note step = batch_step_trans [OF m this]
  have idle': "batch_idle w'"
    using batch_idle_flush batch_step_ready [OF m] w' by blast
  obtain new where new: "w_out w' = w_out w @ new" "packets_fit pmtu new" using step by (auto simp: batch_step_def)
  have frames: "mset (sent_commands new) = mset fs"
    using step batch_idle_frames [OF idle(1)] batch_idle_frames [OF idle'] new(1) by (simp add: batch_step_def)
  have "small_frames w' = small_frames w @ filter (half_mtu pmtu) fs"
    using flush_small_frames [of ?m] batch_step_ready [OF m] do_send_all_small_frames [OF batch_idle_ok [OF idle(1)] idle(2) fs]
    by (simp add: w' pmtu)
  then have "filter (half_mtu pmtu) (sent_commands new) = filter (half_mtu pmtu) fs"
    using idle(1) idle' new(1) step by (simp add: small_frames_def batch_idle_def batch_step_def pmtu)
  moreover have "(c, p) \<in> set fs" if "(c, p) \<in> set new" "packet_commands c p = [(c, p)]" for c p
  proof -
    have "(c, p) \<in> set (sent_commands new)" using that by (force simp: sent_commands_def)
    then show ?thesis using mset_eq_setD [OF frames] by simp
  qed
  ultimately show ?thesis
    using idle' new frames by (fastforce simp: packets_fit_def)
qed

theorem batching_conserves_witness:
  "\<exists>big. length big = 482 \<and> w_out (flush_send_batch (foldl (\<lambda>w (c, d). do_send_mp_data_wire w c d) (writer_new 0 (\<lambda>_. 0) (\<lambda>_. 0) True)
            [(28, [1, 2]), (29, big), (28, [3])]))
     = [(29, big), (12, [28, 2, 0, 1, 2, 28, 1, 0, 3])]
   \<and> filter (half_mtu 508) [(28, [1, 2]), (29, big), (28, [3])] = [(28, [1, 2]), (28, [3])]"
proof -
  let ?w = "writer_new 0 (\<lambda>_. 0) (\<lambda>_. 0) True" and ?big = "replicate 482 0 :: bytes"
  let ?fs = "[(28, [1, 2]), (29, ?big), (28, [3])]"
  let ?w' = "flush_send_batch (foldl (\<lambda>w (c, d). do_send_mp_data_wire w c d) ?w ?fs)"
  have out: "w_out ?w' = [(29, ?big), (12, [28, 2, 0, 1, 2, 28, 1, 0, 3])]"
    by (simp add: do_send_mp_data_wire_def flush_send_batch_def push_tmp_send_item_def frame_bytes_def
          send_raw_packet_def send_raw_packet_cmd_def writer_new_def Let_def le_bytes_def upt_rec [of 0] upt_rec [of "Suc 0"])
  have "\<exists>new. w_out ?w' = w_out ?w @ new \<and> filter (half_mtu 508) (sent_commands new) = filter (half_mtu 508) ?fs"
    using batching_conserves [of ?w ?fs ?w' 508]
    by (auto simp: batch_idle_def writer_new_def plain_cmd_def from_byte_def)
  then have "filter (half_mtu 508) (sent_commands [(29, ?big), (12, [28, 2, 0, 1, 2, 28, 1, 0, 3])]) = filter (half_mtu 508) ?fs"
    unfolding out by (simp add: writer_new_def)
  then show ?thesis
    using out by (intro exI [of _ ?big] conjI) (simp_all add: half_mtu_def)
qed


section \<open>Retries of a reliable command\<close>

text \<open>The message number of a frame that authenticates under the session cipher, and how often a number
  was put on the wire.\<close>

definition authentic_num :: "cipher \<Rightarrow> u8 \<times> bytes \<Rightarrow> u64 option" where
  "authentic_num k f =
     (if from_byte (fst f) = Command_Crypted
      then map_option (cr_msg_num \<circ> fst) (decrypt_command_no_replay k (snd f)) else None)"

definition attempts :: "cipher \<Rightarrow> u64 \<Rightarrow> writer \<Rightarrow> nat" where
  "attempts k n w = size (filter_mset (\<lambda>f. authentic_num k f = Some n) (wire_frames w))"

text \<open>A session the writer can send on, and a pending list as the writer builds it.\<close>

definition sending_ready :: "cipher \<Rightarrow> writer \<Rightarrow> bool" where
  "sending_ready k w \<longleftrightarrow> w_encode_cipher w = Some k \<and> w_server_addr w \<and> batch_ok w"

definition pending_ok :: "send_item list \<Rightarrow> bool" where
  "pending_ok ps = list_all (\<lambda>p. si_encrypted p \<and> si_msg_num p \<noteq> 0) ps"

lemma crypted_wire_cmd_plain: "plain_cmd (crypted_wire_cmd c)" "from_byte (crypted_wire_cmd c) = Command_Crypted"
  by (simp_all add: plain_cmd_def crypted_wire_cmd_def from_byte_def COMPRESSED_FLAG_def)

lemma send_raw_packet_cmd_fields [simp]:
  "w_pending_h (send_raw_packet_cmd w c d) = w_pending_h w"
  "w_encode_cipher (send_raw_packet_cmd w c d) = w_encode_cipher w"
  "w_round_trip_delay (send_raw_packet_cmd w c d) = w_round_trip_delay w"
  "w_crypt_msg_counter (send_raw_packet_cmd w c d) = w_crypt_msg_counter w"
  by (simp_all add: send_raw_packet_cmd_def)

lemma flush_fields [simp]:
  "w_pending_h (flush_send_batch w) = w_pending_h w"
  "w_encode_cipher (flush_send_batch w) = w_encode_cipher w"
  "w_round_trip_delay (flush_send_batch w) = w_round_trip_delay w"
  "w_crypt_msg_counter (flush_send_batch w) = w_crypt_msg_counter w"
  by (simp_all add: flush_send_batch_def send_raw_packet_def Let_def)

lemma do_send_fields [simp]:
  "w_pending_h (do_send_mp_data_wire w c d) = w_pending_h w"
  "w_encode_cipher (do_send_mp_data_wire w c d) = w_encode_cipher w"
  "w_round_trip_delay (do_send_mp_data_wire w c d) = w_round_trip_delay w"
  "w_crypt_msg_counter (do_send_mp_data_wire w c d) = w_crypt_msg_counter w"
  by (simp_all add: do_send_mp_data_wire_def push_tmp_send_item_def Let_def)

lemma do_send_ready:
  assumes "sending_ready k w" "plain_cmd c"
  shows "sending_ready k (do_send_mp_data_wire w c d)"
    "attempts k n (do_send_mp_data_wire w c d) = attempts k n w + (if authentic_num k (c, d) = Some n then 1 else 0)"
  using do_send_batch_step [of w c d] assms by (auto simp: sending_ready_def attempts_def batch_step_def)

lemma counters_irrelevant [simp]:
  "batch_ok (w\<lparr>w_crypt_msg_counter := x\<rparr>) = batch_ok w" "batch_ok (w\<lparr>w_iv_counter := y\<rparr>) = batch_ok w"
  "batch_ok (w\<lparr>w_pending_h := ps\<rparr>) = batch_ok w"
  "wire_frames (w\<lparr>w_crypt_msg_counter := x\<rparr>) = wire_frames w" "wire_frames (w\<lparr>w_iv_counter := y\<rparr>) = wire_frames w"
  "wire_frames (w\<lparr>w_pending_h := ps\<rparr>) = wire_frames w"
  by (simp_all add: batch_ok_def wire_frames_def)

lemma sealed_send:
  assumes k: "aead_correct k" and w: "sending_ready k w"
    and sealed: "seal_command w m c want d = Some (env, w1)"
  shows "sending_ready k (do_send_mp_data_wire w1 (crypted_wire_cmd c) env)"
    "attempts k n (do_send_mp_data_wire w1 (crypted_wire_cmd c) env) = attempts k n w + (if n = m then 1 else 0)"
    "w_pending_h w1 = w_pending_h w" "w_round_trip_delay w1 = w_round_trip_delay w"
proof -
  have w1: "w1 = w\<lparr>w_iv_counter := w_iv_counter w + 1\<rparr>"
    using sealed by (auto simp: seal_command_def Let_def split: option.splits)
  have ready: "sending_ready k w1" and "attempts k n w1 = attempts k n w"
    using w by (simp_all add: w1 sending_ready_def attempts_def)
  moreover have "authentic_num k (crypted_wire_cmd c, env) = Some m"
    using seal_command_opens [OF k _ sealed] w
    by (simp add: authentic_num_def sending_ready_def crypted_wire_cmd_plain)
  ultimately show "sending_ready k (do_send_mp_data_wire w1 (crypted_wire_cmd c) env)"
    "attempts k n (do_send_mp_data_wire w1 (crypted_wire_cmd c) env) = attempts k n w + (if n = m then 1 else 0)"
    using do_send_ready [OF ready crypted_wire_cmd_plain(1)] by auto
  show "w_pending_h w1 = w_pending_h w" "w_round_trip_delay w1 = w_round_trip_delay w" by (simp_all add: w1)
qed

lemma send_h_effect:
  assumes k: "aead_correct k" and w: "sending_ready k w" and enc: "si_encrypted item"
    and m: "m = (if si_msg_num item \<noteq> 0 then si_msg_num item else w_crypt_msg_counter w + 1)"
    and w': "w' = fst (send_h_item w item t)"
  shows "sending_ready k w'"
    "attempts k n w' = attempts k n w + (if n = m then 1 else 0)"
    "w_round_trip_delay w' = w_round_trip_delay w"
    "w_pending_h w' = w_pending_h w @ (if si_retry_left item > 0 \<and> si_msg_num item = 0
       then [item\<lparr>si_msg_num := m, si_last_sent_at := t, si_cmd := fst (maybe_compress (si_cmd item) (si_data item)),
                  si_data := snd (maybe_compress (si_cmd item) (si_data item))\<rparr>] else [])"
proof -
  obtain c d where cd: "maybe_compress (si_cmd item) (si_data item) = (c, d)" by fastforce
  obtain w1 where w1: "take_msg_num w (si_msg_num item) = (m, w1)" "sending_ready k w1"
      "attempts k n w1 = attempts k n w" "w_pending_h w1 = w_pending_h w" "w_round_trip_delay w1 = w_round_trip_delay w"
    using m w by (cases "si_msg_num item = 0") (simp_all add: take_msg_num_def sending_ready_def attempts_def)
  obtain env w2 where sealed: "seal_command w1 m c (si_retry_left item > 0) d = Some (env, w2)"
    using w1(2) by (auto simp: seal_command_def sending_ready_def Let_def)
  note s = sealed_send(1,3,4) [OF k w1(2) sealed] sealed_send(2) [OF k w1(2) sealed, of n]
  have w'_eq: "w' = (if si_retry_left item > 0 \<and> si_msg_num item = 0
      then (do_send_mp_data_wire w2 (crypted_wire_cmd c) env)\<lparr>w_pending_h := w_pending_h w2 @
             [item\<lparr>si_msg_num := m, si_last_sent_at := t, si_cmd := c, si_data := d\<rparr>]\<rparr>
      else do_send_mp_data_wire w2 (crypted_wire_cmd c) env)"
    using enc by (simp add: w' send_h_item_def cd w1(1) sealed Let_def)
  show "sending_ready k w'" "attempts k n w' = attempts k n w + (if n = m then 1 else 0)"
    "w_round_trip_delay w' = w_round_trip_delay w"
    using s w1 by (auto simp: w'_eq sending_ready_def attempts_def)
  show "w_pending_h w' = w_pending_h w @ (if si_retry_left item > 0 \<and> si_msg_num item = 0
       then [item\<lparr>si_msg_num := m, si_last_sent_at := t, si_cmd := fst (maybe_compress (si_cmd item) (si_data item)),
                  si_data := snd (maybe_compress (si_cmd item) (si_data item))\<rparr>] else [])"
    using s w1 by (simp add: w'_eq cd)
qed

lemma resend_all:
  assumes "aead_correct k" "sending_ready k w" "pending_ok items"
    and "w' = foldl (\<lambda>w item. fst (send_h_item w item t)) w items"
  shows "sending_ready k w' \<and> w_round_trip_delay w' = w_round_trip_delay w \<and> w_pending_h w' = w_pending_h w
    \<and> attempts k n w' = attempts k n w + length (filter (\<lambda>p. si_msg_num p = n) items)"
  using assms(2-)
proof (induction items arbitrary: w)
  case (Cons item items)
  let ?w = "fst (send_h_item w item t)"
  have item: "si_encrypted item" "si_msg_num item \<noteq> 0" using Cons.prems(2) by (simp_all add: pending_ok_def)
  note e = send_h_effect [OF assms(1) Cons.prems(1) item(1) refl refl, where t = t]
  have "sending_ready k w' \<and> w_round_trip_delay w' = w_round_trip_delay ?w \<and> w_pending_h w' = w_pending_h ?w
    \<and> attempts k n w' = attempts k n ?w + length (filter (\<lambda>p. si_msg_num p = n) items)"
    using Cons.prems e(1) by (intro Cons.IH) (simp_all add: pending_ok_def)
  then show ?case using e(2) [of n] e(3,4) item(2) by auto
qed simp

text \<open>One retry pass, seen from one message number.\<close>

lemma filter_map_filter:
  "(\<And>x y. f x = Some y \<Longrightarrow> Q y = P x) \<Longrightarrow> filter Q (List.map_filter f xs) = List.map_filter f (filter P xs)"
  by (induction xs) (auto simp: map_filter_simps split: option.splits)

lemma map_filter_map: "List.map_filter f (map g xs) = List.map_filter (f \<circ> g) xs"
  by (simp add: List.map_filter_def comp_def filter_map)

lemma retry_entry_num:
  "fst (retry_entry t d p) = Some q \<Longrightarrow> si_msg_num q = si_msg_num p \<and> si_encrypted q = si_encrypted p"
  "snd (retry_entry t d p) = Some q \<Longrightarrow> si_msg_num q = si_msg_num p \<and> si_encrypted q = si_encrypted p"
  by (auto simp: retry_entry_def Let_def split: if_splits)

lemma pending_ok_map_filter:
  assumes "pending_ok ps" "\<And>p q. f p = Some q \<Longrightarrow> si_msg_num q = si_msg_num p \<and> si_encrypted q = si_encrypted p"
  shows "pending_ok (List.map_filter f ps)"
  using assms by (auto simp: pending_ok_def list_all_iff List.map_filter_def)

definition pending_of :: "u64 \<Rightarrow> writer \<Rightarrow> send_item list" where
  "pending_of n w = filter (\<lambda>p. si_msg_num p = n) (w_pending_h w)"

lemma retry_pass:
  assumes "aead_correct k" "sending_ready k w" "pending_ok (w_pending_h w)"
    and "w' = retry_pending_h w t"
  defines "e \<equiv> retry_entry t (pending_h_path_delay (w_round_trip_delay w))"
  shows "sending_ready k w' \<and> w_round_trip_delay w' = w_round_trip_delay w \<and> pending_ok (w_pending_h w')
    \<and> pending_of n w' = List.map_filter (fst \<circ> e) (pending_of n w)
    \<and> attempts k n w' = attempts k n w + length (List.map_filter (snd \<circ> e) (pending_of n w))"
proof -
  let ?w = "w\<lparr>w_pending_h := List.map_filter (fst \<circ> e) (w_pending_h w)\<rparr>"
  let ?items = "List.map_filter (snd \<circ> e) (w_pending_h w)"
  have w': "w' = foldl (\<lambda>w item. fst (send_h_item w item t)) ?w ?items"
    by (simp add: assms(4) retry_pending_h_def Let_def map_filter_map e_def)
  have "pending_ok ?items" "pending_ok (w_pending_h ?w)"
    using assms(3) by (auto intro!: pending_ok_map_filter dest: retry_entry_num simp: e_def)
  moreover have "sending_ready k ?w" "attempts k n ?w = attempts k n w"
    using assms(2) by (simp_all add: sending_ready_def attempts_def)
  moreover have "filter (\<lambda>p. si_msg_num p = n) ?items = List.map_filter (snd \<circ> e) (pending_of n w)"
    "pending_of n ?w = List.map_filter (fst \<circ> e) (pending_of n w)"
    unfolding pending_of_def by (auto intro!: filter_map_filter dest!: retry_entry_num simp: e_def)
  ultimately show ?thesis
    using resend_all [OF assms(1) _ _ w', of n] by (simp add: pending_of_def)
qed


lemma path_delay_le: "pending_h_path_delay rtt \<le> 500"
  by (simp add: pending_h_path_delay_def)

lemma gone_stays_gone:
  assumes "aead_correct k" "sending_ready k w" "pending_ok (w_pending_h w)" "pending_of n w = []"
  shows "attempts k n (foldl retry_pending_h w ts) = attempts k n w \<and> pending_of n (foldl retry_pending_h w ts) = []"
  using assms(2-)
proof (induction ts arbitrary: w)
  case (Cons t ts)
  have "sending_ready k (retry_pending_h w t)" "pending_ok (w_pending_h (retry_pending_h w t))"
      "pending_of n (retry_pending_h w t) = []" "attempts k n (retry_pending_h w t) = attempts k n w"
    using retry_pass [OF assms(1) Cons.prems(1,2) refl, where n = n and t = t] Cons.prems(3) by (auto simp: map_filter_simps)
  then show ?case using Cons.IH [of "retry_pending_h w t"] by simp
qed simp

lemma retry_run:
  assumes "aead_correct k" "sending_ready k w" "pending_ok (w_pending_h w)" "pending_of n w = [p]"
    and "0 < si_retry_left p" "successively (\<lambda>a b. b - a > 500) (si_last_sent_at p # ts)"
  shows "attempts k n (foldl retry_pending_h w ts) = attempts k n w + min (length ts) (nat (si_retry_left p))
     \<and> (nat (si_retry_left p) \<le> length ts \<longrightarrow> pending_of n (foldl retry_pending_h w ts) = [])"
  using assms(2-)
proof (induction ts arbitrary: w p)
  case (Cons t ts)
  let ?w = "retry_pending_h w t" and ?p = "p\<lparr>si_last_sent_at := t, si_retry_left := si_retry_left p - 1\<rparr>"
  have due: "retry_due (si_last_sent_at p) t (pending_h_path_delay (w_round_trip_delay w))"
    using Cons.prems(5) path_delay_le [of "w_round_trip_delay w"] by (simp add: retry_due_def)
  have w: "sending_ready k ?w" "pending_ok (w_pending_h ?w)" "attempts k n ?w = attempts k n w + 1"
      "pending_of n ?w = (if si_retry_left p \<le> 1 then [] else [?p])"
    using retry_pass [OF assms(1) Cons.prems(1,2) refl, where n = n and t = t] Cons.prems(3) due
    by (simp_all add: map_filter_simps retry_entry_def Let_def)
  show ?case
  proof (cases "si_retry_left p \<le> 1")
    case True
    then show ?thesis
      using gone_stays_gone [OF assms(1) w(1,2), of n ts] w(3,4) Cons.prems(4) by simp
  next
    case False
    then have "attempts k n (foldl retry_pending_h ?w ts) = attempts k n ?w + min (length ts) (nat (si_retry_left ?p))
     \<and> (nat (si_retry_left ?p) \<le> length ts \<longrightarrow> pending_of n (foldl retry_pending_h ?w ts) = [])"
      using Cons.prems(5) w by (intro Cons.IH) (cases ts, simp_all)
    moreover have "nat (si_retry_left p) = Suc (nat (si_retry_left ?p))" using False by simp
    ultimately show ?thesis using w(3) by simp
  qed
qed simp

text \<open>C18: The retry budget of a reliable command is exact.  A fresh encrypted command with budget
  \<open>budget\<close> that is sent and never acknowledged is put on the wire once per retry pass, each time under
  the same message number, until it was sent \<open>budget\<close> times; then it leaves the pending list.  The
  passes may carry any other pending commands along.\<close>

theorem reliable_attempts_exact:
  assumes "aead_correct k" "sending_ready k w" "pending_ok (w_pending_h w)"
    and n: "n = w_crypt_msg_counter w + 1" "n \<noteq> 0" "pending_of n w = []"
    and item: "si_encrypted item" "si_msg_num item = 0" "1 \<le> budget"
      "si_retry_left item = initial_retry_left True budget"
    and times: "successively (\<lambda>a b. b - a > 500) (t # ts)"
    and w': "w' = foldl retry_pending_h (fst (send_h_item w item t)) ts"
  shows "attempts k n w' = attempts k n w + min (Suc (length ts)) (nat budget)
     \<and> (budget \<le> int (Suc (length ts)) \<longrightarrow> pending_of n w' = [])"
proof -
  let ?w = "fst (send_h_item w item t)"
  note e = send_h_effect [OF assms(1,2) item(1) refl refl, where t = t]
  have w: "sending_ready k ?w" "attempts k n ?w = attempts k n w + 1"
    using e(1) e(2) [of n] item(2) n by auto
  have r: "si_retry_left item = budget - 1" using item(3,4) by (simp add: initial_retry_left_def)
  show ?thesis
  proof (cases "budget = 1")
    case True
    then have "pending_of n ?w = []" "pending_ok (w_pending_h ?w)"
      using e(4) r n(3) assms(3) by (simp_all add: pending_of_def)
    then show ?thesis
      using gone_stays_gone [OF assms(1) w(1), of n ts] True w(2) w' by simp
  next
    case False
    let ?p = "item\<lparr>si_msg_num := n, si_last_sent_at := t, si_cmd := fst (maybe_compress (si_cmd item) (si_data item)),
                    si_data := snd (maybe_compress (si_cmd item) (si_data item))\<rparr>"
    have "w_pending_h ?w = w_pending_h w @ [?p]"
      using e(4) r item(2,3) n(1) False by simp
    then have p: "pending_of n ?w = [?p]" "pending_ok (w_pending_h ?w)"
      using n(2,3) assms(3) item(1) by (simp_all add: pending_of_def pending_ok_def)
    have "attempts k n w' = attempts k n ?w + min (length ts) (nat (si_retry_left ?p))
        \<and> (nat (si_retry_left ?p) \<le> length ts \<longrightarrow> pending_of n w' = [])"
      unfolding w' using assms(1) w(1) p False r item(3) times by (intro retry_run) simp_all
    moreover have "nat budget = Suc (nat (si_retry_left ?p))" using r item(3) by simp
    ultimately show ?thesis using w(2) by simp
  qed
qed

theorem reliable_attempts_exact_witness:
  "\<exists>w item. attempts null_cipher 2048 (foldl retry_pending_h (fst (send_h_item w item 0)) [600, 1200, 1800]) = 3
      \<and> pending_of 2048 (foldl retry_pending_h (fst (send_h_item w item 0)) [600, 1200, 1800]) = []"
proof -
  let ?w = "(writer_new 0 (\<lambda>_. 0) (\<lambda>_. 0) True)\<lparr>w_encode_cipher := Some null_cipher\<rparr>"
  let ?item = "\<lparr>si_data = [1, 2], si_cmd = 24, si_encrypted = True, si_priority = SP_High, si_retry_left = 2,
                si_max_retries = 3, si_msg_num = 0, si_last_sent_at = 0, si_u_key = unique_key_none\<rparr>"
  have ready: "sending_ready null_cipher ?w" "pending_ok (w_pending_h ?w)" "pending_of 2048 ?w = []"
      "attempts null_cipher 2048 ?w = 0"
    by (auto simp: sending_ready_def writer_new_def batch_ok_def pending_ok_def pending_of_def attempts_def wire_frames_def
          intro!: exI [of _ "[]"])
  have "attempts null_cipher 2048 (foldl retry_pending_h (fst (send_h_item ?w ?item 0)) [600, 1200, 1800])
          = attempts null_cipher 2048 ?w + min (Suc (length [600, 1200, 1800 :: millis])) (nat 3)
      \<and> (3 \<le> int (Suc (length [600, 1200, 1800 :: millis])) \<longrightarrow>
           pending_of 2048 (foldl retry_pending_h (fst (send_h_item ?w ?item 0)) [600, 1200, 1800]) = [])"
    by (rule reliable_attempts_exact [OF null_cipher_correct ready(1,2) _ _ ready(3) _ _ _ _ _ refl])
      (simp_all add: writer_new_def INITIAL_CRYPTED_MSG_COUNTER_def initial_retry_left_def)
  then show ?thesis using ready(4) by (intro exI [of _ ?w] exI [of _ ?item]) simp
qed


section \<open>The writer tick\<close>

text \<open>The command in a frame as the peer reads it, with the envelope of an encrypted one opened.\<close>

definition opened :: "cipher \<Rightarrow> u8 \<times> bytes \<Rightarrow> (u8 \<times> bytes) option" where
  "opened k f =
     (if from_byte (fst f) = Command_Crypted
      then map_option (\<lambda>(hdr, plaintext). (cr_cmd hdr, drop CRYPTO_HEADER_SIZE plaintext)) (decrypt_command_no_replay k (snd f))
      else Some f)"

definition is_slice :: "u8 \<times> bytes \<Rightarrow> bool" where
  "is_slice f \<longleftrightarrow> from_byte (fst f) = Command_Sliced"

text \<open>The commands, other than slices, that a list of packets carries.\<close>

definition commands_read :: "cipher \<Rightarrow> (u8 \<times> bytes) multiset \<Rightarrow> (u8 \<times> bytes) option multiset" where
  "commands_read k fs = image_mset (opened k) (filter_mset (\<lambda>f. \<not> is_slice f) fs)"

text \<open>A queued command as it is put on the wire, and queues of commands the protocol does not use itself
  for containers, envelopes and slices.\<close>

definition item_command :: "send_item \<Rightarrow> (u8 \<times> bytes) option" where
  "item_command item = Some (maybe_compress (si_cmd item) (si_data item))"

definition user_cmd :: "u8 \<Rightarrow> bool" where
  "user_cmd c \<longleftrightarrow> from_byte c \<notin> {Command_Grouped, Command_Sliced, Command_Crypted}"

definition user_items :: "send_item list \<Rightarrow> bool" where
  "user_items items = list_all (\<lambda>i. user_cmd (si_cmd i)) items"

definition writer_ready :: "cipher \<Rightarrow> writer \<Rightarrow> bool" where
  "writer_ready k w \<longleftrightarrow> batch_ok w \<and> w_server_addr w \<and> w_encode_cipher w = Some k \<and> user_items (w_pending_h w)"

text \<open>A step of the writer that hands over the commands \<open>cs\<close> and slices, and keeps the batch sound.\<close>

definition sends :: "cipher \<Rightarrow> writer \<Rightarrow> (u8 \<times> bytes) option multiset \<Rightarrow> writer \<Rightarrow> bool" where
  "sends k w cs w' \<longleftrightarrow>
     writer_ready k w' \<and> w_round_trip_delay w' = w_round_trip_delay w
     \<and> (\<exists>fs. batch_step (unat (w_actual_pmtu w)) w fs w' \<and> commands_read k fs = cs)"

lemma commands_read_union [simp]: "commands_read k (fs + gs) = commands_read k fs + commands_read k gs"
  and commands_read_empty [simp]: "commands_read k {#} = {#}"
  by (simp_all add: commands_read_def)

lemma sends_trans:
  assumes "sends k w cs w1" "sends k w1 ds w2"
  shows "sends k w (cs + ds) w2"
proof -
  obtain fs gs where f: "batch_step (unat (w_actual_pmtu w)) w fs w1" "commands_read k fs = cs"
      "batch_step (unat (w_actual_pmtu w1)) w1 gs w2" "commands_read k gs = ds"
    using assms by (auto simp: sends_def)
  then have "batch_step (unat (w_actual_pmtu w)) w (fs + gs) w2"
    using batch_step_ready [OF f(1)] by (metis batch_step_trans)
  then show ?thesis using assms f(2,4) by (auto simp: sends_def intro!: exI [of _ "fs + gs"])
qed

lemma sends_ready: "sends k w cs w' \<Longrightarrow> writer_ready k w'"
  by (simp add: sends_def)

text \<open>Operations that leave the batch buffer alone and send nothing but slices.\<close>

definition quiet :: "writer \<Rightarrow> writer \<Rightarrow> bool" where
  "quiet w w' \<longleftrightarrow>
     w_tmp_send_buf w' = w_tmp_send_buf w \<and> w_tmp_send_count w' = w_tmp_send_count w
     \<and> w_tmp_send_size w' = w_tmp_send_size w \<and> w_actual_pmtu w' = w_actual_pmtu w
     \<and> w_encode_cipher w' = w_encode_cipher w \<and> w_round_trip_delay w' = w_round_trip_delay w
     \<and> w_server_addr w' = w_server_addr w \<and> set (w_pending_h w') \<subseteq> set (w_pending_h w)
     \<and> (\<exists>ps. w_out w' = w_out w @ ps \<and> list_all is_slice ps)"

lemma quiet_refl [simp]: "quiet w w"
  by (simp add: quiet_def)

lemma quiet_trans: "quiet w w1 \<Longrightarrow> quiet w1 w2 \<Longrightarrow> quiet w w2"
  by (fastforce simp: quiet_def)

lemma quiet_foldl: "(\<And>w x. quiet w (f w x)) \<Longrightarrow> quiet w (foldl f w xs)"
  by (induction xs arbitrary: w) (auto intro: quiet_trans)

lemma slice_plain: "is_slice f \<Longrightarrow> packet_commands (fst f) (snd f) = [f]"
  by (auto simp: is_slice_def packet_commands_def from_byte_def)

lemma slices_sent: "list_all is_slice ps \<Longrightarrow> sent_commands ps = ps \<and> commands_read k (mset ps) = {#} \<and> packets_fit n ps"
  by (induction ps) (auto simp: sent_commands_Cons slice_plain commands_read_def packets_fit_def dest: slice_plain)

lemma quiet_sends:
  assumes q: "quiet w w'" and r: "writer_ready k w"
  shows "sends k w {#} w'"
proof -
  obtain ps where ps: "w_out w' = w_out w @ ps" "list_all is_slice ps"
    using q by (auto simp: quiet_def)
  have ok: "batch_ok w'" using q r by (simp add: quiet_def writer_ready_def batch_ok_def)
  then have "batch_step (unat (w_actual_pmtu w)) w (mset ps) w'"
    using q r ps slices_sent [OF ps(2)]
    by (auto simp: quiet_def writer_ready_def batch_step_def wire_frames_def)
  moreover have "writer_ready k w'"
    using ok q r by (auto simp: quiet_def writer_ready_def user_items_def list_all_iff)
  ultimately show ?thesis
    using q slices_sent [OF ps(2)] by (auto simp: sends_def quiet_def)
qed

lemma quiet_take_seal:
  "take_msg_num w m = (n, w1) \<Longrightarrow> quiet w w1"
  "seal_command w m c want d = Some (env, w1) \<Longrightarrow> quiet w w1"
  by (auto simp: take_msg_num_def seal_command_def quiet_def Let_def split: if_splits option.splits)

lemma quiet_cleanup: "quiet w (apply_sliced_send_u_key_cleanup w items)"
  unfolding apply_sliced_send_u_key_cleanup_def by (rule quiet_foldl) (simp add: quiet_def)

lemma quiet_create: "quiet w (create_sliced_and_send w item)"
proof -
  have enq: "quiet w (enqueue_sliced w item c d)" for w c d
    by (simp add: enqueue_sliced_def quiet_def Let_def)
  obtain c d where cd: "maybe_compress (si_cmd item) (si_data item) = (c, d)" by fastforce
  obtain m w1 where w1: "take_msg_num w (si_msg_num item) = (m, w1)" by fastforce
  have "quiet w1 (case seal_command w1 m c (si_retry_left item > 0) d of
      None \<Rightarrow> w1 | Some (env, w) \<Rightarrow> enqueue_sliced w item (crypted_wire_cmd c) env)"
    by (auto split: option.splits intro: quiet_trans [OF quiet_take_seal(2) enq])
  then show ?thesis
    using enq [of w c d] quiet_trans [OF quiet_take_seal(1) [OF w1]]
    by (simp add: create_sliced_and_send_def cd w1 Let_def)
qed

lemma quiet_acks: "quiet w (apply_copy_acks w acks t)"
  unfolding apply_copy_acks_def
  by (rule quiet_foldl) (auto simp: apply_sliced_ack_def quiet_def Let_def case_prod_unfold split: option.splits)

lemma quiet_hl_ack: "quiet w (apply_regular_hl_ack w)"
  by (auto simp: apply_regular_hl_ack_def quiet_def)

lemma quiet_high_cleanup: "quiet w (apply_high_send_u_key_cleanup w items)"
proof -
  have "set (remove_first p xs) \<subseteq> set xs" for p and xs :: "send_item list"
    by (induction xs) auto
  then show ?thesis
    unfolding apply_high_send_u_key_cleanup_def by (intro quiet_foldl) (auto simp: quiet_def)
qed

lemma quiet_retry_sliced: "quiet w (retry_sliced w t)"
proof -
  have sliced: "is_slice (to_byte Command_Sliced, p)" for p by (simp add: is_slice_def from_byte_def)
  have send: "quiet w (foldl (\<lambda>w p. send_raw_packet w Command_Sliced p) w ps)" for w ps
    by (rule quiet_foldl) (use sliced in \<open>auto simp: quiet_def send_raw_packet_def send_raw_packet_cmd_def\<close>)
  have body: "quiet w ((foldl (\<lambda>w p. send_raw_packet w Command_Sliced p)
      (w1\<lparr>w_last_checked_slices := l, w_used_sliced_limit := u\<rparr>) ps)\<lparr>w_sending := x\<rparr>)"
    if "quiet w w1" for w w1 l u ps x
    using that send [of "w1\<lparr>w_last_checked_slices := l, w_used_sliced_limit := u\<rparr>" ps]
    by (fastforce simp: quiet_def)
  have "quiet w (adapt_trip_delay_k w t)"
    by (simp add: adapt_trip_delay_k_def quiet_def Let_def)
  from body [OF this] show ?thesis
    by (simp add: retry_sliced_def Let_def case_prod_unfold)
qed

subsection \<open>Every command of a queue is sent\<close>

lemma user_cmd_simps:
  assumes "user_cmd c"
  shows "plain_cmd c" "\<not> is_slice (c, d)" "opened k (c, d) = Some (c, d)"
  using assms by (simp_all add: user_cmd_def plain_cmd_def is_slice_def opened_def from_byte_def)

lemma maybe_compress_user:
  assumes "user_cmd c" "maybe_compress c d = (c', d')"
  shows "user_cmd c'"
proof -
  have "(c OR COMPRESSED_FLAG) AND 0x7F = c AND 0x7F"
    by (simp add: bit.conj_disj_distrib2 COMPRESSED_FLAG_def)
  then show ?thesis
    using maybe_compress_cases [OF assms(2)] assms(1) by (auto simp: user_cmd_def from_byte_def)
qed

lemma do_send_sends:
  assumes "writer_ready k w" "plain_cmd c" "\<not> is_slice (c, d)" "opened k (c, d) = Some f"
  shows "sends k w {#Some f#} (do_send_mp_data_wire w c d)"
  using do_send_batch_step [of w c d] assms
  by (auto simp: sends_def writer_ready_def batch_step_ready commands_read_def intro!: exI [of _ "{#(c, d)#}"])

lemma flush_sends: "writer_ready k w \<Longrightarrow> sends k w {#} (flush_send_batch w)"
  using flush_batch_step(1) [of w]
  by (auto simp: sends_def writer_ready_def batch_step_ready intro!: exI [of _ "{#}"])

lemma sealed_sends:
  assumes k: "aead_correct k" and "writer_ready k w" "take_msg_num w m = (n, w1)" "seal_command w1 n c want d = Some (env, w2)"
  shows "sends k w {#Some (c, d)#} (do_send_mp_data_wire w2 (crypted_wire_cmd c) env)"
proof -
  have w2: "sends k w {#} w2"
    using quiet_sends quiet_trans [OF quiet_take_seal(1) [OF assms(3)] quiet_take_seal(2) [OF assms(4)]] assms(2) by blast
  have "w_encode_cipher w1 = Some k"
    using assms(2,3) by (auto simp: writer_ready_def take_msg_num_def split: if_splits)
  from seal_command_opens [OF k this assms(4)]
  have "opened k (crypted_wire_cmd c, env) = Some (c, d)"
    by (simp add: opened_def crypted_wire_cmd_plain CRYPTO_HEADER_SIZE_def)
  moreover have "\<not> is_slice (crypted_wire_cmd c, env)" by (simp add: is_slice_def crypted_wire_cmd_plain)
  ultimately show ?thesis
    using sends_trans [OF w2 do_send_sends [OF sends_ready [OF w2] crypted_wire_cmd_plain(1)]] by simp
qed

lemma seal_succeeds:
  assumes "writer_ready k w" "take_msg_num w m = (n, w1)"
  obtains env w2 where "seal_command w1 n c want d = Some (env, w2)"
  using assms by (auto simp: seal_command_def take_msg_num_def writer_ready_def Let_def split: if_splits)

lemma pending_irrelevant:
  "sends k w cs w' \<Longrightarrow> user_items ps \<Longrightarrow> sends k w cs (w'\<lparr>w_pending_h := ps\<rparr>)"
  "sends k (w\<lparr>w_pending_h := ps\<rparr>) cs w' \<Longrightarrow> sends k w cs w'"
  by (auto simp: sends_def batch_step_def writer_ready_def)

lemma send_h_sends:
  assumes k: "aead_correct k" and w: "writer_ready k w" and item: "user_cmd (si_cmd item)"
  shows "sends k w {#item_command item#} (fst (send_h_item w item t))"
    "\<exists>new. w_pending_h (fst (send_h_item w item t)) = w_pending_h w @ new \<and> (\<forall>p \<in> set new. si_last_sent_at p = t)"
proof -
  obtain c d where cd: "maybe_compress (si_cmd item) (si_data item) = (c, d)" by fastforce
  have c: "user_cmd c" using maybe_compress_user [OF item cd] .
  obtain m w1 where w1: "take_msg_num w (si_msg_num item) = (m, w1)" by fastforce
  obtain env w2 where seal: "seal_command w1 m c (si_retry_left item > 0) d = Some (env, w2)"
    using seal_succeeds [OF w w1] .
  have p: "w_pending_h w2 = w_pending_h w"
    using w1 seal by (auto simp: take_msg_num_def seal_command_def Let_def split: if_splits option.splits)
  let ?w = "do_send_mp_data_wire w2 (crypted_wire_cmd c) env"
  have s: "sends k w {#Some (c, d)#} ?w" by (rule sealed_sends [OF k w w1 seal])
  have "user_items (w_pending_h w)" using w by (simp add: writer_ready_def)
  then show "sends k w {#item_command item#} (fst (send_h_item w item t))"
    using s pending_irrelevant(1) [OF s] c do_send_sends [OF w user_cmd_simps [OF c], of d]
    by (simp add: send_h_item_def cd w1 seal Let_def item_command_def p user_items_def)
  show "\<exists>new. w_pending_h (fst (send_h_item w item t)) = w_pending_h w @ new \<and> (\<forall>p \<in> set new. si_last_sent_at p = t)"
    by (simp add: send_h_item_def cd w1 seal Let_def p)
qed

lemma batch_send_direct_sends:
  assumes k: "aead_correct k" and w: "writer_ready k w" and item: "user_cmd (si_cmd item)"
  shows "sends k w {#item_command item#} (batch_send_direct w item)"
proof -
  obtain c d where cd: "maybe_compress (si_cmd item) (si_data item) = (c, d)" by fastforce
  have c: "user_cmd c" using maybe_compress_user [OF item cd] .
  obtain m w1 where w1: "take_msg_num w 0 = (m, w1)" by fastforce
  obtain env w2 where seal: "seal_command w1 m c (si_retry_left item > 0) d = Some (env, w2)"
    using seal_succeeds [OF w w1] .
  show ?thesis
    using sealed_sends [OF k w w1 seal] do_send_sends [OF w user_cmd_simps [OF c], of d]
    by (simp add: batch_send_direct_def cd w1 seal Let_def item_command_def)
qed

lemma foldl_sends:
  assumes "\<And>w x. writer_ready k w \<Longrightarrow> x \<in> set xs \<Longrightarrow> sends k w {#g x#} (f w x)" "writer_ready k w"
  shows "sends k w (image_mset g (mset xs)) (foldl f w xs)"
  using assms
proof (induction xs arbitrary: w)
  case (Cons x xs)
  then have x: "sends k w {#g x#} (f w x)" by simp
  from sends_trans [OF x Cons.IH [OF _ sends_ready [OF x]]] Cons.prems(1) show ?case by simp
qed (simp add: quiet_sends)

lemma high_items_sends:
  assumes "aead_correct k" "writer_ready k w" "user_items items"
  shows "sends k w (image_mset item_command (mset items)) (foldl (\<lambda>w item. fst (send_h_item w item t)) w items)"
  using assms by (intro foldl_sends send_h_sends(1)) (auto simp: user_items_def list_all_iff)

lemma high_items_pending:
  assumes "aead_correct k" "writer_ready k w" "user_items items"
  shows "\<exists>new. w_pending_h (foldl (\<lambda>w item. fst (send_h_item w item t)) w items) = w_pending_h w @ new
           \<and> (\<forall>p \<in> set new. si_last_sent_at p = t)"
  using assms(2,3)
proof (induction items arbitrary: w)
  case (Cons item items)
  let ?w = "fst (send_h_item w item t)"
  have item: "user_cmd (si_cmd item)" "user_items items" using Cons.prems(2) by (simp_all add: user_items_def)
  obtain a where a: "w_pending_h ?w = w_pending_h w @ a" "\<forall>p \<in> set a. si_last_sent_at p = t"
    using send_h_sends(2) [OF assms(1) Cons.prems(1) item(1)] by blast
  obtain b where b: "w_pending_h (foldl (\<lambda>w item. fst (send_h_item w item t)) ?w items) = w_pending_h ?w @ b"
      "\<forall>p \<in> set b. si_last_sent_at p = t"
    using Cons.IH [OF sends_ready [OF send_h_sends(1) [OF assms(1) Cons.prems(1) item(1)]] item(2)] by blast
  show ?case using a b by (intro exI [of _ "a @ b"]) auto
qed simp

subsection \<open>Retries that are due\<close>

definition overdue :: "writer \<Rightarrow> millis \<Rightarrow> send_item list \<Rightarrow> send_item list" where
  "overdue w t ps = filter (\<lambda>p. retry_due (si_last_sent_at p) t (pending_h_path_delay (w_round_trip_delay w))) ps"

lemma resent_overdue:
  "image_mset item_command (mset (List.map_filter (snd \<circ> retry_entry t (pending_h_path_delay (w_round_trip_delay w))) ps))
     = image_mset item_command (mset (overdue w t ps))"
  by (induction ps) (simp_all add: overdue_def map_filter_simps retry_entry_def item_command_def Let_def)

lemma retry_entry_cmd:
  "fst (retry_entry t d p) = Some q \<Longrightarrow> si_cmd q = si_cmd p" "snd (retry_entry t d p) = Some q \<Longrightarrow> si_cmd q = si_cmd p"
  by (auto simp: retry_entry_def Let_def split: if_splits)

lemma user_map_filter:
  assumes "user_items ps" "\<And>p q. f p = Some q \<Longrightarrow> si_cmd q = si_cmd p"
  shows "user_items (List.map_filter f ps)"
  using assms by (auto simp: user_items_def list_all_iff List.map_filter_def)

lemma retry_pending_sends:
  assumes "aead_correct k" "writer_ready k w"
  shows "sends k w (image_mset item_command (mset (overdue w t (w_pending_h w)))) (retry_pending_h w t)"
proof -
  let ?e = "retry_entry t (pending_h_path_delay (w_round_trip_delay w))"
  let ?w = "w\<lparr>w_pending_h := List.map_filter (fst \<circ> ?e) (w_pending_h w)\<rparr>"
  let ?items = "List.map_filter (snd \<circ> ?e) (w_pending_h w)"
  have u: "user_items (w_pending_h ?w)" "user_items ?items"
    using assms(2) by (auto intro!: user_map_filter dest: retry_entry_cmd simp: writer_ready_def)
  have "writer_ready k ?w" using assms(2) u(1) by (simp add: writer_ready_def)
  from high_items_sends [OF assms(1) this u(2), of t]
  have "sends k w (image_mset item_command (mset ?items)) (foldl (\<lambda>w item. fst (send_h_item w item t)) ?w ?items)"
    by (rule pending_irrelevant(2))
  then show ?thesis
    unfolding resent_overdue by (simp add: retry_pending_h_def Let_def map_filter_map)
qed

lemma fresh_not_overdue: "\<forall>p \<in> set new. si_last_sent_at p = t \<Longrightarrow> overdue w t (ps @ new) = overdue w t ps"
  by (auto simp: overdue_def retry_due_def pending_h_path_delay_def filter_empty_conv)

subsection \<open>The whole tick\<close>

lemma low_items_sends:
  assumes k: "aead_correct k" and w: "writer_ready k w" and low: "user_items low"
  shows "sends k w (image_mset item_command (mset low)) (send_low_items_around_sliced_retry w low t)
       \<and> batch_idle (send_low_items_around_sliced_retry w low t)"
proof -
  have direct: "sends k w (image_mset item_command (mset ls)) (foldl batch_send_direct w ls)"
    if "writer_ready k w" "set ls \<subseteq> set low" for w ls
    using that low by (intro foldl_sends batch_send_direct_sends [OF k]) (auto simp: user_items_def list_all_iff)
  define w1 where "w1 = foldl batch_send_direct w (take 1 low)"
  define w2 where "w2 = retry_sliced (flush_send_batch w1) t"
  define w3 where "w3 = foldl batch_send_direct w2 (drop 1 low)"
  have 1: "sends k w (image_mset item_command (mset (take 1 low))) w1"
    unfolding w1_def by (rule direct [OF w set_take_subset])
  have f: "sends k w1 {#} (flush_send_batch w1)" by (rule flush_sends [OF sends_ready [OF 1]])
  have 2: "sends k w1 {#} w2"
    using sends_trans [OF f quiet_sends [OF quiet_retry_sliced sends_ready [OF f]]] by (simp add: w2_def)
  have 3: "sends k w2 (image_mset item_command (mset (drop 1 low))) w3"
    unfolding w3_def by (rule direct [OF sends_ready [OF 2] set_drop_subset])
  note all = sends_trans [OF sends_trans [OF sends_trans [OF 1 2] 3] flush_sends [OF sends_ready [OF 3]]]
  have "mset (take 1 low) + mset (drop 1 low) = mset low" by (simp flip: mset_append)
  then have "image_mset item_command (mset (take 1 low)) + image_mset item_command (mset (drop 1 low)) = image_mset item_command (mset low)"
    by (simp flip: image_mset_union)
  with all have "sends k w (image_mset item_command (mset low)) (flush_send_batch w3)" by simp
  moreover have "batch_idle (flush_send_batch w3)"
    using sends_ready [OF 3] batch_idle_flush by (simp add: writer_ready_def)
  moreover have "send_low_items_around_sliced_retry w low t = flush_send_batch w3"
    by (cases low) (simp_all add: send_low_items_around_sliced_retry_def Let_def w1_def w2_def w3_def)
  ultimately show ?thesis by simp
qed

text \<open>The pending commands that are left after the acknowledgements and the newer commands of the same key.\<close>

definition still_pending :: "writer \<Rightarrow> send_item list \<Rightarrow> send_item list" where
  "still_pending w high = w_pending_h (apply_high_send_u_key_cleanup (apply_regular_hl_ack w) high)"

lemma still_pending_fields:
  assumes "w_pending_h w' = w_pending_h w" "w_recvd_slider w' = w_recvd_slider w"
  shows "still_pending w' high = still_pending w high"
proof -
  have fold: "w_pending_h (foldl (\<lambda>w item. if key_is_none (si_u_key item) then w
        else w\<lparr>w_pending_h := remove_first (\<lambda>p. si_u_key p = si_u_key item) (w_pending_h w)\<rparr>) a high)
      = w_pending_h (foldl (\<lambda>w item. if key_is_none (si_u_key item) then w
        else w\<lparr>w_pending_h := remove_first (\<lambda>p. si_u_key p = si_u_key item) (w_pending_h w)\<rparr>) b high)"
    if "w_pending_h a = w_pending_h b" for a b
    using that by (induction high arbitrary: a b) auto
  show ?thesis
    unfolding still_pending_def apply_high_send_u_key_cleanup_def
    by (rule fold) (simp add: apply_regular_hl_ack_def assms)
qed

lemma foldl_field: "(\<And>w x. g (f w x) = g w) \<Longrightarrow> g (foldl f w xs) = g w"
  by (induction xs arbitrary: w) auto

lemma sliced_stage_fields:
  "w_pending_h (apply_copy_acks (foldl create_sliced_and_send (apply_sliced_send_u_key_cleanup w sliced) sliced) acks t) = w_pending_h w"
  "w_recvd_slider (apply_copy_acks (foldl create_sliced_and_send (apply_sliced_send_u_key_cleanup w sliced) sliced) acks t) = w_recvd_slider w"
proof -
  have 1: "w_pending_h (create_sliced_and_send w i) = w_pending_h w" "w_recvd_slider (create_sliced_and_send w i) = w_recvd_slider w" for w i
    by (auto simp: create_sliced_and_send_def enqueue_sliced_def take_msg_num_def seal_command_def Let_def split: prod.splits option.splits)
  have 2: "w_pending_h (apply_sliced_ack w a t) = w_pending_h w" "w_recvd_slider (apply_sliced_ack w a t) = w_recvd_slider w" for w a
    by (auto simp: apply_sliced_ack_def Let_def case_prod_unfold split: option.splits)
  show "w_pending_h (apply_copy_acks (foldl create_sliced_and_send (apply_sliced_send_u_key_cleanup w sliced) sliced) acks t) = w_pending_h w"
    "w_recvd_slider (apply_copy_acks (foldl create_sliced_and_send (apply_sliced_send_u_key_cleanup w sliced) sliced) acks t) = w_recvd_slider w"
    unfolding apply_copy_acks_def apply_sliced_send_u_key_cleanup_def
    by (simp_all add: foldl_field [where g = w_pending_h] foldl_field [where g = w_recvd_slider] 1 2)
qed

lemma check_sening_data_sends:
  assumes k: "aead_correct k" and w: "writer_ready k w" and q: "user_items high" "user_items low"
  shows "sends k w (image_mset item_command (mset (high @ overdue w t (still_pending w high) @ low)))
      (check_sening_data w sliced high low acks t) \<and> batch_idle (check_sening_data w sliced high low acks t)"
proof -
  define w0 where "w0 = apply_copy_acks (foldl create_sliced_and_send (apply_sliced_send_u_key_cleanup w sliced) sliced) acks t"
  define w1 where "w1 = apply_high_send_u_key_cleanup (apply_regular_hl_ack w0) high"
  define w2 where "w2 = foldl (\<lambda>w item. fst (send_h_item w item t)) w1 high"
  have "quiet w w1"
    unfolding w1_def w0_def
    by (intro quiet_trans [OF _ quiet_high_cleanup] quiet_trans [OF _ quiet_hl_ack] quiet_trans [OF _ quiet_acks]
        quiet_trans [OF _ quiet_foldl [OF quiet_create]] quiet_cleanup)
  then have 1: "sends k w {#} w1" using quiet_sends w by blast
  have 2: "sends k w1 (image_mset item_command (mset high)) w2"
    unfolding w2_def by (rule high_items_sends [OF k sends_ready [OF 1] q(1)])
  note 3 = retry_pending_sends [OF k sends_ready [OF 2], of t]
  have delay: "w_round_trip_delay w2 = w_round_trip_delay w" using 1 2 by (simp add: sends_def)
  have "w_pending_h w1 = still_pending w high"
    using still_pending_fields [OF sliced_stage_fields, of w sliced acks t high] by (simp add: w1_def w0_def still_pending_def)
  then have "overdue w2 t (w_pending_h w2) = overdue w t (still_pending w high)"
    using high_items_pending [OF k sends_ready [OF 1] q(1), of t] fresh_not_overdue delay
    by (auto simp: w2_def overdue_def)
  with sends_trans [OF sends_trans [OF 1 2] 3] low_items_sends [OF k sends_ready [OF 3] q(2), of t]
  show ?thesis
    by (auto simp: check_sening_data_def Let_def w0_def w1_def w2_def add.assoc dest: sends_trans)
qed

text \<open>C19: A writer tick of an authorized session sends everything it is given.  Whatever the queues, the
  acknowledgements and the peer's bitmap hold, a tick that starts with an idle batch empties the
  queues, ends with an idle batch, and appends packets to what was sent; once the peer has split the containers and
  opened the envelopes, the commands in these packets other than slices are exactly the high-priority
  commands, the low-priority commands and those unacknowledged, not superseded reliable commands whose retry is due,
  each exactly once.  Every packet fits the path MTU with its header unless it is one single
  command.\<close>

theorem writer_tick_sends_all:
  assumes k: "aead_correct k" "w_encode_cipher w = Some k" and idle: "batch_idle w" "w_server_addr w"
    and queues: "queues = ls_send_queues lock"
    and items: "user_items (w_pending_h w)" "user_items (q_high queues)" "user_items (q_low queues)"
    and slider: "wa = (case fst (copy_tmp_slider lock) of None \<Rightarrow> w | Some s \<Rightarrow> w\<lparr>w_recvd_slider := s\<rparr>)"
    and tick: "copy_send_ack_and_check_sening_data w lock t = (w', lock')"
  shows "batch_idle w' \<and> lock_is_empty lock' \<and> ls_incoming_sliced_acks lock' = []
     \<and> (\<exists>new. w_out w' = w_out w @ new \<and> packets_fit (unat (w_actual_pmtu w)) new
          \<and> commands_read k (mset (sent_commands new)) =
              image_mset item_command (mset (q_high queues @ overdue wa t (still_pending wa (q_high queues)) @ q_low queues)))"
proof -
  have wa: "writer_ready k wa" "w_actual_pmtu wa = w_actual_pmtu w" "w_out wa = w_out w" "wire_frames wa = wire_frames w"
    using batch_idle_ok [OF idle(1)] k(2) idle(2) items(1) slider
    by (auto simp: writer_ready_def batch_ok_def wire_frames_def split: option.splits)
  have w': "w' = check_sening_data wa (q_sliced queues) (q_high queues) (q_low queues) (ls_incoming_sliced_acks lock) t"
    and lock': "lock_is_empty lock'" "ls_incoming_sliced_acks lock' = []"
    using tick slider queues
    by (auto simp: copy_send_ack_and_check_sening_data_def take_send_snapshot_def take_into_def copy_tmp_slider_def
        lock_is_empty_def queues_empty_def send_queues_default_def Let_def)
  note s = check_sening_data_sends [OF k(1) wa(1) items(2,3), of t "q_sliced queues" "ls_incoming_sliced_acks lock", folded w']
  then obtain fs new where fs: "wire_frames w' = wire_frames w + fs" "w_out w' = w_out w @ new" "packets_fit (unat (w_actual_pmtu w)) new"
      "commands_read k fs = image_mset item_command (mset (q_high queues @ overdue wa t (still_pending wa (q_high queues)) @ q_low queues))"
    using wa by (auto simp: sends_def batch_step_def)
  moreover have "mset (sent_commands new) = fs"
    using fs(1,2) batch_idle_frames [OF idle(1)] batch_idle_frames [of w'] s by simp
  ultimately show ?thesis using s lock' by blast
qed

theorem writer_tick_sends_all_witness:
  "\<exists>w lock new. w_out (fst (copy_send_ack_and_check_sening_data w lock 7)) = new
     \<and> commands_read null_cipher (mset (sent_commands new)) = {#Some (24, [1, 2]), Some (24, [3]), Some (28, [4])#}"
proof -
  let ?item = "\<lambda>d enc cmd. \<lparr>si_data = d, si_cmd = cmd, si_encrypted = enc, si_priority = SP_High, si_retry_left = 2,
                si_max_retries = 3, si_msg_num = 0, si_last_sent_at = -1000, si_u_key = unique_key_none\<rparr>"
  let ?w = "(writer_new 0 (\<lambda>_. 0) (\<lambda>_. 0) True)\<lparr>w_encode_cipher := Some null_cipher,
      w_pending_h := [(?item [3] True 24)\<lparr>si_msg_num := 9\<rparr>]\<rparr>"
  let ?lock = "send_lock_default\<lparr>ls_send_queues := send_queues_default\<lparr>q_high := [?item [1, 2] True 24], q_low := [?item [4] False 28]\<rparr>\<rparr>"
  obtain w' lock' where r: "copy_send_ack_and_check_sening_data ?w ?lock 7 = (w', lock')" by fastforce
  have "\<exists>new. w_out w' = [] @ new \<and> commands_read null_cipher (mset (sent_commands new)) =
      {#Some (24, [1, 2]), Some (24, [3]), Some (28, [4])#}"
    using writer_tick_sends_all [OF null_cipher_correct _ _ _ refl _ _ _ refl r]
    by (simp add: batch_idle_def writer_new_def user_items_def user_cmd_def from_byte_def send_lock_default_def send_queues_default_def
        copy_tmp_slider_def slider_new_def overdue_def still_pending_def apply_regular_hl_ack_def apply_high_send_u_key_cleanup_def
        retry_due_def pending_h_path_delay_def round_away_def item_command_def maybe_compress_def MIN_SIZE_TO_COMPRESS_def
        key_is_none_def unique_key_none_def)
  then show ?thesis using r by (intro exI [of _ ?w] exI [of _ ?lock]) auto
qed

end
