(* ===== verification/Decode.thy ===== *)
theory Decode
  imports Writer_State
begin

text \<open>
  Decoding of one received command (\<^verbatim>\<open>client/protocol_helpers.rs\<close>, \<^verbatim>\<open>client/transport_state.rs\<close>): the
  receive state with the session cipher and the replay window, the method byte of an Engine API
  response (\<^verbatim>\<open>commands/engine_api/method.rs\<close>, \<^verbatim>\<open>client/protocol_api.rs\<close>), the filters that keep
  sensitive command families off the plaintext path, and the borrowing and the owning decoder.
\<close>

section \<open>Engine methods\<close>

datatype engine_method = EngineMethod u8

abbreviation "Method_GetMarketsList \<equiv> EngineMethod 3"
abbreviation "Method_UpdateMarketsList \<equiv> EngineMethod 4"
abbreviation "Method_RequestCandlesData \<equiv> EngineMethod 24"
abbreviation "Method_GetStrategiesSnapshot \<equiv> EngineMethod 37"

definition method_from_byte :: "u8 \<Rightarrow> engine_method" where
  "method_from_byte b = EngineMethod b"

primrec method_to_byte :: "engine_method \<Rightarrow> u8" where
  "method_to_byte (EngineMethod b) = b"

definition method_is_known :: "engine_method \<Rightarrow> bool" where
  "method_is_known m \<longleftrightarrow> method_to_byte m \<le> method_to_byte Method_GetStrategiesSnapshot"

text \<open>The arms of \<^verbatim>\<open>EngineMethod::name\<close> in ordinal order.\<close>

definition method_names :: "string list" where
  "method_names =
     [''None'', ''BaseCheck'', ''AuthCheck'', ''GetMarketsList'', ''UpdateMarketsList'', ''GetMarketsIndexes'',
      ''GetBalance'', ''GetMarketsBalanceFull'', ''GetOrder'', ''GetOpenOrders'', ''GetActiveOrders'',
      ''CancelAllOrders'', ''SetLeverage'', ''SetHedgeMode'', ''QueryHedgeMode'', ''CheckAPIExpirationTime'',
      ''CheckBinanceTags'', ''TradesResend'', ''SubscribeAllTrades'', ''UnsubscribeAllTrades'',
      ''SubscribeOrderBook'', ''UnsubscribeOrderBook'', ''RequestOrderBookFull'', ''ReloadOrderBook'',
      ''RequestCandlesData'', ''ChangePositionType'', ''ConvertDustBNB'', ''ConfirmRiskLimit'', ''SetMAMode'',
      ''DoTransferAsset'', ''UpdateTransferAssets'', ''GetCoinCardCandles'', ''SubscribeCandles'',
      ''UnsubscribeCandles'', ''RequestMarketHistory'', ''GetMarketsStats'', ''GetStartupState'',
      ''GetStrategiesSnapshot'']"

definition method_name :: "engine_method \<Rightarrow> string" where
  "method_name m =
     (if unat (method_to_byte m) < length method_names then method_names ! unat (method_to_byte m)
      else ''Unknown'')"

record engine_response_meta =
  em_request_uid :: u64
  em_method :: engine_method
  em_success :: bool

definition engine_response_request_uid_from_payload :: "bytes \<Rightarrow> u64 option" where
  "engine_response_request_uid_from_payload payload = map_option from_le (get_range 11 19 payload)"

definition engine_response_method_from_payload :: "bytes \<Rightarrow> engine_method option" where
  "engine_response_method_from_payload payload = map_option method_from_byte (get_at 19 payload)"

definition engine_response_meta_from_payload :: "bytes \<Rightarrow> engine_response_meta option" where
  "engine_response_meta_from_payload payload =
     (if length payload < 11 then None
      else case get_range 11 19 payload of None \<Rightarrow> None | Some uid \<Rightarrow>
           case get_at 19 payload of None \<Rightarrow> None | Some method_byte \<Rightarrow>
           case get_at 20 payload of None \<Rightarrow> None | Some success \<Rightarrow>
           case get_range 21 25 payload of None \<Rightarrow> None | Some _ \<Rightarrow>
           case get_range 25 27 payload of None \<Rightarrow> None | Some len_bytes \<Rightarrow>
           case get_range 27 (27 + unat (from_le len_bytes :: u16)) payload of None \<Rightarrow> None | Some _ \<Rightarrow>
           Some \<lparr>em_request_uid = from_le uid, em_method = method_from_byte method_byte,
                 em_success = (success \<noteq> 0)\<rparr>)"

section \<open>Receive state\<close>

record data_read_state =
  dr_decode_cipher :: "cipher option"
  dr_slider :: slider
  dr_data_size_ack_series_num :: u16

definition data_read_new :: data_read_state where
  "data_read_new = \<lparr>dr_decode_cipher = None, dr_slider = slider_new, dr_data_size_ack_series_num = 0\<rparr>"

definition data_read_reset :: "data_read_state \<Rightarrow> data_read_state" where
  "data_read_reset r = r\<lparr>dr_slider := slider_new, dr_data_size_ack_series_num := 0\<rparr>"

definition set_decode_cipher :: "data_read_state \<Rightarrow> cipher \<Rightarrow> data_read_state" where
  "set_decode_cipher r k = r\<lparr>dr_decode_cipher := Some k\<rparr>"

definition data_read_ack_half :: "data_read_state \<Rightarrow> u64 \<times> u64 list" where
  "data_read_ack_half r = build_ack_half (dr_slider r)"

definition update_data_size_ack_series_num :: "data_read_state \<Rightarrow> u16 \<Rightarrow> u16 \<times> data_read_state" where
  "update_data_size_ack_series_num r series_num =
     (let r = (if dr_data_size_ack_series_num r \<noteq> series_num
               then r\<lparr>dr_data_size_ack_series_num := series_num\<rparr> else r)
      in (dr_data_size_ack_series_num r, r))"

section \<open>Decoders\<close>

definition drop_plaintext_sensitive :: "u8 \<Rightarrow> bool" where
  "drop_plaintext_sensitive real_cmd \<longleftrightarrow>
     from_byte real_cmd \<in> {Command_Order, Command_Strat, Command_UI, Command_Balance, Command_LogMsg,
                          Command_NeedHelloAgain, Command_SessionClose}"

definition drop_plaintext_api :: "bytes \<Rightarrow> bool" where
  "drop_plaintext_api payload =
     (case engine_response_meta_from_payload payload of
        Some meta \<Rightarrow> em_method meta \<notin> {Method_GetMarketsList, Method_UpdateMarketsList, Method_RequestCandlesData}
      | None \<Rightarrow> True)"

text \<open>The checks and the decompression behind the optional decryption.\<close>

definition decode_tail :: "bool \<Rightarrow> u8 \<Rightarrow> bytes \<Rightarrow> (u8 \<times> bytes) option" where
  "decode_tail was_crypted cmd payload =
     (if \<not> was_crypted \<and> drop_plaintext_sensitive (cmd AND 0x7F) then None
      else case (if cmd AND COMPRESSED_FLAG \<noteq> 0
                 then map_option (\<lambda>decompressed. (cmd AND 0x7F, decompressed)) (mp_decompress payload)
                 else Some (cmd, payload)) of
             None \<Rightarrow> None
           | Some (cmd, payload) \<Rightarrow>
               if \<not> was_crypted \<and> cmd AND 0x7F = to_byte Command_API \<and> drop_plaintext_api payload
               then None else Some (cmd, payload))"

definition decode_command_payload_shared ::
  "data_read_state \<Rightarrow> u8 \<Rightarrow> bytes \<Rightarrow> (u8 \<times> bytes) option \<times> data_read_state" where
  "decode_command_payload_shared r raw_cmd data =
     (if from_byte (raw_cmd AND 0x7F) = Command_Crypted
      then case dr_decode_cipher r of
             None \<Rightarrow> (None, r)
           | Some k \<Rightarrow>
               (case decrypt_command k data (dr_slider r) of
                  (None, s) \<Rightarrow> (None, r\<lparr>dr_slider := s\<rparr>)
                | (Some (inner_cmd, decrypted, want_ack), s) \<Rightarrow>
                    (decode_tail True inner_cmd decrypted, r\<lparr>dr_slider := s\<rparr>))
      else (decode_tail False raw_cmd data, r))"

definition decode_tail_owned :: "bool \<Rightarrow> u8 \<Rightarrow> payload \<Rightarrow> (u8 \<times> payload) option" where
  "decode_tail_owned was_crypted cmd p =
     (if \<not> was_crypted \<and> drop_plaintext_sensitive (cmd AND 0x7F) then None
      else case (if cmd AND COMPRESSED_FLAG \<noteq> 0
                 then map_option (\<lambda>decompressed. (cmd AND 0x7F, payload_from decompressed))
                        (mp_decompress (payload_deref p))
                 else Some (cmd, p)) of
             None \<Rightarrow> None
           | Some (cmd, p) \<Rightarrow>
               if \<not> was_crypted \<and> cmd AND 0x7F = to_byte Command_API \<and> drop_plaintext_api (payload_deref p)
               then None else Some (cmd, p))"

definition decode_command_payload_owned ::
  "data_read_state \<Rightarrow> u8 \<Rightarrow> payload \<Rightarrow> (u8 \<times> payload) option \<times> data_read_state" where
  "decode_command_payload_owned r raw_cmd data =
     (if from_byte (raw_cmd AND 0x7F) = Command_Crypted
      then case dr_decode_cipher r of
             None \<Rightarrow> (None, r)
           | Some k \<Rightarrow>
               (case decrypt_command_owned k data (dr_slider r) of
                  (None, s) \<Rightarrow> (None, r\<lparr>dr_slider := s\<rparr>)
                | (Some (inner_cmd, decrypted, want_ack), s) \<Rightarrow>
                    (decode_tail_owned True inner_cmd decrypted, r\<lparr>dr_slider := s\<rparr>))
      else (decode_tail_owned False raw_cmd data, r))"

section \<open>Properties\<close>

lemma decode_tail_owned_eq:
  "map_option (\<lambda>(c, p). (c, payload_deref p)) (decode_tail_owned w cmd p) = decode_tail w cmd (payload_deref p)"
  by (auto simp: decode_tail_owned_def decode_tail_def payload_from_def payload_deref_def split: option.splits)

lemma decrypt_owned_agrees:
  assumes "aead_correct k"
  shows "map_option (\<lambda>(c, q, w). (c, payload_deref q, w)) (fst (decrypt_command_owned k p s)) =
           fst (decrypt_command k (payload_deref p) s)
       \<and> snd (decrypt_command_owned k p s) = snd (decrypt_command k (payload_deref p) s)"
proof (cases "pl_start p \<le> length (pl_bytes p)")
  case False
  then have "payload_deref p = []" by (simp add: payload_deref_def)
  then show ?thesis
    by (simp add: decrypt_command_owned_def decrypt_command_def decrypt_command_no_replay_def decrypt_in_place_def
        decrypt_with_cipher_def Let_def crypto_sizes)
qed (rule decrypt_owned_same [OF assms])

lemma decode_owned_eq:
  assumes "\<And>k. dr_decode_cipher r = Some k \<Longrightarrow> aead_correct k"
  shows "map_option (\<lambda>(c, q). (c, payload_deref q)) (fst (decode_command_payload_owned r raw p)) =
           fst (decode_command_payload_shared r raw (payload_deref p))
       \<and> snd (decode_command_payload_owned r raw p) = snd (decode_command_payload_shared r raw (payload_deref p))"
proof (cases "from_byte (raw AND 0x7F) = Command_Crypted")
  case True
  show ?thesis
  proof (cases "dr_decode_cipher r")
    case (Some k)
    note e = decrypt_owned_agrees [OF assms [OF Some], of p "dr_slider r"]
    obtain o1 s1 where o1: "decrypt_command_owned k p (dr_slider r) = (o1, s1)" by fastforce
    obtain o2 s2 where o2: "decrypt_command k (payload_deref p) (dr_slider r) = (o2, s2)" by fastforce
    show ?thesis
      using e True Some o1 o2
      by (cases o1) (auto simp: decode_command_payload_owned_def decode_command_payload_shared_def decode_tail_owned_eq)
  qed (simp add: decode_command_payload_owned_def decode_command_payload_shared_def True)
qed (simp add: decode_command_payload_owned_def decode_command_payload_shared_def decode_tail_owned_eq)

text \<open>C16: The owning decoder, which decrypts and decompresses in the receive buffer, is equivalent to the
  borrowing one: with a correct AEAD it delivers the same command and the same visible bytes, drops
  the same inputs, and leaves the same replay window and cipher, on every input.\<close>

theorem decode_owned_equiv:
  assumes "\<And>k. dr_decode_cipher r = Some k \<Longrightarrow> aead_correct k"
  shows "map_option (\<lambda>(c, q). (c, payload_deref q)) (fst (decode_command_payload_owned r raw p)) =
           fst (decode_command_payload_shared r raw (payload_deref p))
       \<and> snd (decode_command_payload_owned r raw p) = snd (decode_command_payload_shared r raw (payload_deref p))"
  using decode_owned_eq [OF assms] .

theorem decode_owned_equiv_witness:
  "fst (decode_command_payload_shared (set_decode_cipher data_read_new null_cipher) 19
       (encrypt_with_cipher null_cipher 0 1 2 (crypto_hdr_bytes 5 4096 28 True @ [9, 9]) [])) =
   map_option (\<lambda>(c, q). (c, payload_deref q)) (fst (decode_command_payload_owned (set_decode_cipher data_read_new null_cipher) 19
       \<lparr>pl_bytes = 1 # 2 # encrypt_with_cipher null_cipher 0 1 2 (crypto_hdr_bytes 5 4096 28 True @ [9, 9]) [], pl_start = 2\<rparr>))"
  using decode_owned_equiv [where r = "set_decode_cipher data_read_new null_cipher" and raw = 19 and
      p = "\<lparr>pl_bytes = 1 # 2 # encrypt_with_cipher null_cipher 0 1 2 (crypto_hdr_bytes 5 4096 28 True @ [9, 9]) [], pl_start = 2\<rparr>"]
  by (simp add: set_decode_cipher_def null_cipher_correct payload_deref_def)

text \<open>Commands that carry session or account state: the sensitive families and every API response but the
  public bulk ones.\<close>

definition sensitive :: "u8 \<Rightarrow> bytes \<Rightarrow> bool" where
  "sensitive cmd payload \<longleftrightarrow>
     from_byte cmd \<in> {Command_Order, Command_Strat, Command_UI, Command_Balance, Command_LogMsg, Command_NeedHelloAgain,
                      Command_SessionClose}
     \<or> from_byte cmd = Command_API \<and>
       (\<forall>meta. engine_response_meta_from_payload payload = Some meta \<longrightarrow>
          em_method meta \<noteq> Method_GetMarketsList \<and> em_method meta \<noteq> Method_UpdateMarketsList \<and>
          em_method meta \<noteq> Method_RequestCandlesData)"

lemma sensitive_eq:
  "sensitive cmd payload \<longleftrightarrow> drop_plaintext_sensitive cmd \<or> from_byte cmd = Command_API \<and> drop_plaintext_api payload"
  by (auto simp: sensitive_def drop_plaintext_sensitive_def drop_plaintext_api_def split: option.split)

lemma and_7F_idem: "(c AND 0x7F) AND 0x7F = (c AND 0x7F :: u8)"
  by (simp add: and.assoc)

lemma from_byte_and_7F [simp]: "from_byte (c AND 0x7F) = from_byte c"
  by (simp add: from_byte_def and_7F_idem)

lemma decode_tail_plain:
  assumes "decode_tail False cmd d = Some (c, p)"
  shows "\<not> sensitive c p"
proof -
  have "drop_plaintext_sensitive (x AND 0x7F) = drop_plaintext_sensitive x" for x
    by (simp add: drop_plaintext_sensitive_def)
  moreover have "from_byte x = Command_API \<longleftrightarrow> x AND 0x7F = to_byte Command_API" for x
    by (simp add: from_byte_def)
  ultimately show ?thesis
    using assms by (auto simp: decode_tail_def sensitive_eq split: if_splits option.splits)
qed

lemma decode_sensitive_authentic:
  assumes "decode_command_payload_shared r raw d = (Some (c, p), r')" "sensitive c p"
  obtains k hdr pt where "from_byte raw = Command_Crypted" "dr_decode_cipher r = Some k"
    "decrypt_command_no_replay k d = Some (hdr, pt)" "fst (check_revd (dr_slider r) (cr_msg_num hdr))"
proof -
  have raw: "from_byte raw = Command_Crypted"
    using assms decode_tail_plain by (auto simp: decode_command_payload_shared_def split: if_splits)
  then obtain k x where k: "dr_decode_cipher r = Some k" "fst (decrypt_command k d (dr_slider r)) = Some x"
    using assms(1) by (auto simp: decode_command_payload_shared_def split: option.splits prod.splits)
  then obtain hdr pt where "decrypt_command_no_replay k d = Some (hdr, pt)" "fst (check_revd (dr_slider r) (cr_msg_num hdr))"
    by (auto simp: decrypt_command_def Let_def split: option.splits prod.splits if_splits)
  with raw k(1) show thesis by (rule that)
qed

end
