(* ===== verification/Strings.thy ===== *)
theory Strings
  imports Moon_Prelude
begin

text \<open>
  The wire strings of \<^verbatim>\<open>commands/registry.rs\<close>: UTF-8 with a two-byte length prefix, decoded with the
  replacement rule of the peer (one question mark per invalid sequence).

  A Rust \<^verbatim>\<open>String\<close> is its UTF-8 bytes.  \<open>utf8_step\<close> is one iteration of the standard library's UTF-8
  validation: the width of the character at the front, or the \<^verbatim>\<open>error_len\<close> of a \<^verbatim>\<open>Utf8Error\<close>.  The
  decoder is compared with UTF-8 as the standard defines it from code points (\<open>utf8_encode\<close>).
\<close>

section \<open>UTF-8 validation of the standard library\<close>

datatype utf8_result = Utf8_Char nat | Utf8_Error "nat option"

definition utf8_char_width :: "byte \<Rightarrow> nat" where
  "utf8_char_width b =
     (if b < 0x80 then 1 else if 0xC2 \<le> b \<and> b \<le> 0xDF then 2
      else if 0xE0 \<le> b \<and> b \<le> 0xEF then 3 else if 0xF0 \<le> b \<and> b \<le> 0xF4 then 4 else 0)"

definition is_continuation :: "byte \<Rightarrow> bool" where
  "is_continuation b \<longleftrightarrow> 0x80 \<le> b \<and> b \<le> 0xBF"

definition second_ok3 :: "byte \<Rightarrow> byte \<Rightarrow> bool" where
  "second_ok3 f b \<longleftrightarrow>
     (if f = 0xE0 then 0xA0 \<le> b \<and> b \<le> 0xBF else if f = 0xED then 0x80 \<le> b \<and> b \<le> 0x9F else is_continuation b)"

definition second_ok4 :: "byte \<Rightarrow> byte \<Rightarrow> bool" where
  "second_ok4 f b \<longleftrightarrow>
     (if f = 0xF0 then 0x90 \<le> b \<and> b \<le> 0xBF else if f = 0xF4 then 0x80 \<le> b \<and> b \<le> 0x8F else is_continuation b)"

definition utf8_step :: "bytes \<Rightarrow> utf8_result" where
  "utf8_step bs =
     (let w = utf8_char_width (bs ! 0); n = length bs in
      if w = 1 then Utf8_Char 1
      else if w = 2 then
        (if n < 2 then Utf8_Error None else if \<not> is_continuation (bs ! 1) then Utf8_Error (Some 1) else Utf8_Char 2)
      else if w = 3 then
        (if n < 2 then Utf8_Error None else if \<not> second_ok3 (bs ! 0) (bs ! 1) then Utf8_Error (Some 1)
         else if n < 3 then Utf8_Error None else if \<not> is_continuation (bs ! 2) then Utf8_Error (Some 2)
         else Utf8_Char 3)
      else if w = 4 then
        (if n < 2 then Utf8_Error None else if \<not> second_ok4 (bs ! 0) (bs ! 1) then Utf8_Error (Some 1)
         else if n < 3 then Utf8_Error None else if \<not> is_continuation (bs ! 2) then Utf8_Error (Some 2)
         else if n < 4 then Utf8_Error None else if \<not> is_continuation (bs ! 3) then Utf8_Error (Some 3)
         else Utf8_Char 4)
      else Utf8_Error (Some 1))"

lemma utf8_step_bounds:
  "utf8_step bs = Utf8_Char n \<Longrightarrow> 1 \<le> n" "utf8_step bs = Utf8_Error (Some k) \<Longrightarrow> 1 \<le> k"
  by (auto simp: utf8_step_def Let_def split: if_splits)

text \<open>\<^verbatim>\<open>std::str::from_utf8\<close>: \<open>None\<close> for valid input, otherwise \<^verbatim>\<open>valid_up_to\<close> and \<^verbatim>\<open>error_len\<close>.\<close>

function from_utf8_error :: "bytes \<Rightarrow> (nat \<times> nat option) option" where
  "from_utf8_error bs =
     (if bs = [] then None
      else case utf8_step bs of
             Utf8_Error e \<Rightarrow> Some (0, e)
           | Utf8_Char n \<Rightarrow> map_option (\<lambda>(v, e). (v + n, e)) (from_utf8_error (drop n bs)))"
  by pat_completeness auto

termination from_utf8_error
  by (relation "measure length") (auto dest: utf8_step_bounds)

declare from_utf8_error.simps [simp del]

abbreviation valid_utf8 :: "bytes \<Rightarrow> bool" where
  "valid_utf8 bs \<equiv> from_utf8_error bs = None"

lemma from_utf8_error_len: "from_utf8_error bs = Some (v, Some k) \<Longrightarrow> 1 \<le> k"
proof (induction bs arbitrary: v rule: from_utf8_error.induct)
  case (1 bs)
  then show ?case
    by (subst (asm) (2) from_utf8_error.simps)
      (auto split: if_splits utf8_result.splits dest: utf8_step_bounds)
qed

section \<open>Decoding with replacement\<close>

text \<open>The \<^verbatim>\<open>while\<close> loop of \<^verbatim>\<open>decode_utf8_delphi\<close> over the rest of the input.\<close>

function decode_loop :: "bytes \<Rightarrow> bytes" where
  "decode_loop rest =
     (if rest = [] then []
      else case from_utf8_error rest of
             None \<Rightarrow> rest
           | Some (valid_up_to, error_len) \<Rightarrow>
               take valid_up_to rest @ [0x3F] @
               decode_loop (drop (valid_up_to + (case error_len of Some k \<Rightarrow> k | None \<Rightarrow> length rest - valid_up_to)) rest))"
  by pat_completeness auto

termination decode_loop
  by (relation "measure length") (auto dest: from_utf8_error_len split: option.splits)

declare decode_loop.simps [simp del]

definition decode_utf8_delphi :: "bytes \<Rightarrow> bytes" where
  "decode_utf8_delphi bs = (case from_utf8_error bs of None \<Rightarrow> bs | Some _ \<Rightarrow> decode_loop bs)"

section \<open>Length-prefixed strings\<close>

definition read_string :: "bytes \<Rightarrow> nat \<Rightarrow> (bytes \<times> nat) option" where
  "read_string d pos =
     (if pos + 2 > length d then None
      else let len = unat (from_le (slice pos (pos + 2) d) :: u16); pos = pos + 2
           in if pos + len > length d then None
              else Some (decode_utf8_delphi (slice pos (pos + len) d), pos + len))"

definition write_string :: "bytes \<Rightarrow> bytes \<Rightarrow> bytes" where
  "write_string buf s =
     (let len = of_nat (length s) :: u16 in buf @ le_bytes 2 len @ take (unat len) s)"

section \<open>What decoding replaces\<close>

lemma utf8_step_char:
  "utf8_step bs = Utf8_Char n \<longleftrightarrow>
     n = utf8_char_width (bs ! 0) \<and>
     (n = 1 \<or> n = 2 \<and> 2 \<le> length bs \<and> is_continuation (bs ! 1) \<or>
      n = 3 \<and> 3 \<le> length bs \<and> second_ok3 (bs ! 0) (bs ! 1) \<and> is_continuation (bs ! 2) \<or>
      n = 4 \<and> 4 \<le> length bs \<and> second_ok4 (bs ! 0) (bs ! 1) \<and> is_continuation (bs ! 2) \<and> is_continuation (bs ! 3))"
proof -
  consider "utf8_char_width (bs ! 0) = 0" | "utf8_char_width (bs ! 0) = 1" | "utf8_char_width (bs ! 0) = 2"
    | "utf8_char_width (bs ! 0) = 3" | "utf8_char_width (bs ! 0) = 4"
    unfolding utf8_char_width_def by argo
  then show ?thesis
    by cases (auto simp: utf8_step_def Let_def)
qed

subsection \<open>UTF-8 by code points\<close>

text \<open>The encoding as the Unicode standard defines it, from the code point: a string is a sequence of
  encoded scalar values.  Nothing here refers to the validation above.\<close>

definition scalar_value :: "nat \<Rightarrow> bool" where
  "scalar_value c \<longleftrightarrow> c < 0xD800 \<or> 0xE000 \<le> c \<and> c < 0x110000"

definition utf8_units :: "nat \<Rightarrow> nat list" where
  "utf8_units c =
     (if c < 0x80 then [c]
      else if c < 0x800 then [0xC0 + c div 64, 0x80 + c mod 64]
      else if c < 0x10000 then [0xE0 + c div 4096, 0x80 + c div 64 mod 64, 0x80 + c mod 64]
      else [0xF0 + c div 262144, 0x80 + c div 4096 mod 64, 0x80 + c div 64 mod 64, 0x80 + c mod 64])"

definition utf8_encode :: "nat \<Rightarrow> bytes" where
  "utf8_encode c = map of_nat (utf8_units c)"

definition char_bytes :: "bytes \<Rightarrow> bool" where
  "char_bytes p \<longleftrightarrow> (\<exists>c. scalar_value c \<and> p = utf8_encode c)"

text \<open>The well-formed byte sequences, by their numbers.\<close>

definition char_units :: "nat list \<Rightarrow> bool" where
  "char_units ns =
     (case ns of
        [a] \<Rightarrow> a < 0x80
      | [a, b] \<Rightarrow> 0xC2 \<le> a \<and> a \<le> 0xDF \<and> 0x80 \<le> b \<and> b \<le> 0xBF
      | [a, b, c] \<Rightarrow> 0xE0 \<le> a \<and> a \<le> 0xEF \<and> (if a = 0xE0 then 0xA0 else 0x80) \<le> b \<and> b \<le> (if a = 0xED then 0x9F else 0xBF)
                    \<and> 0x80 \<le> c \<and> c \<le> 0xBF
      | [a, b, c, d] \<Rightarrow> 0xF0 \<le> a \<and> a \<le> 0xF4 \<and> (if a = 0xF0 then 0x90 else 0x80) \<le> b \<and> b \<le> (if a = 0xF4 then 0x8F else 0xBF)
                       \<and> 0x80 \<le> c \<and> c \<le> 0xBF \<and> 0x80 \<le> d \<and> d \<le> 0xBF
      | _ \<Rightarrow> False)"

text \<open>A code point by its six-bit digits.\<close>

lemma six_bit_digit: "b < 64 \<Longrightarrow> (a * 64 + b) div 64 = a \<and> (a * 64 + b) mod 64 = (b :: nat)"
  by simp

lemma six_bit_digits:
  "y < 64 \<Longrightarrow> z < 64 \<Longrightarrow> w < 64 \<Longrightarrow> c = ((x * 64 + y) * 64 + z) * 64 + w \<Longrightarrow>
     c mod 64 = w \<and> c div 64 mod 64 = z \<and> c div 4096 mod 64 = y \<and> c div 262144 = (x :: nat) \<and> c div 4096 = x * 64 + y"
proof -
  assume *: "y < 64" "z < 64" "w < 64" "c = ((x * 64 + y) * 64 + z) * 64 + w"
  have 1: "c div 64 = (x * 64 + y) * 64 + z \<and> c mod 64 = w" unfolding *(4) by (rule six_bit_digit [OF *(3)])
  have 2: "c div 64 div 64 = x * 64 + y \<and> c div 64 mod 64 = z" unfolding 1 [THEN conjunct1] by (rule six_bit_digit [OF *(2)])
  have 3: "c div 64 div 64 div 64 = x \<and> c div 64 div 64 mod 64 = y" unfolding 2 [THEN conjunct1] by (rule six_bit_digit [OF *(1)])
  have "c div 4096 = c div 64 div 64" "c div 262144 = c div 64 div 64 div 64" by (simp_all flip: div_mult2_eq)
  with 1 2 3 show ?thesis by simp
qed

lemma six_bit_expansion:
  obtains x y z w where "y < 64" "z < 64" "w < 64" "c = ((x * 64 + y) * 64 + z) * 64 + (w :: nat)"
proof
  show "c = ((c div 64 div 64 div 64 * 64 + c div 64 div 64 mod 64) * 64 + c div 64 mod 64) * 64 + c mod 64"
    by (simp only: div_mult_mod_eq)
qed simp_all

lemma char_units_encoded:
  assumes "scalar_value c"
  shows "char_units (utf8_units c)"
proof -
  obtain x y z w where d: "y < 64" "z < 64" "w < 64" "c = ((x * 64 + y) * 64 + z) * 64 + w"
    by (rule six_bit_expansion)
  have u: "utf8_units c =
     (if c < 0x80 then [c] else if c < 0x800 then [0xC0 + c div 64, 0x80 + w]
      else if c < 0x10000 then [0xE0 + (x * 64 + y), 0x80 + z, 0x80 + w]
      else [0xF0 + x, 0x80 + y, 0x80 + z, 0x80 + w])"
    using six_bit_digits [OF d] d(1) by (simp add: utf8_units_def)
  have "c < 0x800 \<Longrightarrow> 0x80 \<le> c \<Longrightarrow> 2 \<le> c div 64 \<and> c div 64 \<le> 31"
    using div_le_mono [of 128 c 64] div_le_mono [of c 2047 64] by simp
  then show ?thesis
    using assms d unfolding u scalar_value_def char_units_def
    by (auto split: if_splits)
qed

lemma char_units_decoded:
  assumes "char_units ns"
  shows "\<exists>c. scalar_value c \<and> ns = utf8_units c"
proof -
  consider (1) a where "ns = [a]" | (2) a b where "ns = [a, b]" | (3) a b c where "ns = [a, b, c]"
    | (4) a b c d where "ns = [a, b, c, d]"
    using assms by (auto simp: char_units_def split: list.splits)
  then show ?thesis
  proof cases
    case 1
    then show ?thesis using assms by (intro exI [of _ a]) (simp add: char_units_def scalar_value_def utf8_units_def)
  next
    case 2
    define x y where "x = a - 0xC0" and "y = b - 0x80"
    define n where "n = x * 64 + y"
    have ab: "a = 0xC0 + x" "b = 0x80 + y" "y < 64" "0x80 \<le> n" "n < 0x800"
      using assms 2 by (auto simp: char_units_def x_def y_def n_def)
    then show ?thesis
      using six_bit_digit [OF ab(3), of x] 2 n_def
      by (intro exI [of _ n]) (simp add: scalar_value_def utf8_units_def)
  next
    case 3
    define x y z w where "x = (0 :: nat)" and "y = a - 0xE0" and "z = b - 0x80" and "w = c - 0x80"
    define n where "n = ((x * 64 + y) * 64 + z) * 64 + w"
    have abc: "a = 0xE0 + y" "b = 0x80 + z" "c = 0x80 + w" "y < 64" "z < 64" "w < 64"
        "0x800 \<le> n" "n < 0x10000" "n < 0xD800 \<or> 0xE000 \<le> n"
      using assms 3 by (auto simp: char_units_def x_def y_def z_def w_def n_def split: if_splits)
    then show ?thesis
      using six_bit_digits [OF abc(4-6) n_def] 3 x_def
      by (intro exI [of _ n]) (simp add: scalar_value_def utf8_units_def)
  next
    case 4
    define x y z w where "x = a - 0xF0" and "y = b - 0x80" and "z = c - 0x80" and "w = d - 0x80"
    define n where "n = ((x * 64 + y) * 64 + z) * 64 + w"
    have abc: "a = 0xF0 + x" "b = 0x80 + y" "c = 0x80 + z" "d = 0x80 + w" "y < 64" "z < 64" "w < 64"
        "0x10000 \<le> n" "n < 0x110000"
      using assms 4 by (auto simp: char_units_def x_def y_def z_def w_def n_def split: if_splits)
    then show ?thesis
      using six_bit_digits [OF abc(5-7) n_def] 4
      by (intro exI [of _ n]) (simp add: scalar_value_def utf8_units_def)
  qed
qed

lemma char_units_small: "char_units ns \<Longrightarrow> n \<in> set ns \<Longrightarrow> n < 256"
  by (auto simp: char_units_def split: list.splits if_splits)

lemma char_bytes_units: "char_bytes p \<longleftrightarrow> char_units (map unat p)"
proof
  assume "char_bytes p"
  then obtain c where c: "scalar_value c" "p = map of_nat (utf8_units c)" by (auto simp: char_bytes_def utf8_encode_def)
  then have "map unat p = utf8_units c"
    using char_units_small [OF char_units_encoded [OF c(1)]] by (simp add: map_idI unat_of_nat_byte)
  then show "char_units (map unat p)" using char_units_encoded [OF c(1)] by simp
next
  assume "char_units (map unat p)"
  then obtain c where c: "scalar_value c" "map unat p = utf8_units c" using char_units_decoded by metis
  have "utf8_encode c = p" by (simp add: utf8_encode_def comp_def flip: c(2))
  with c(1) show "char_bytes p" by (auto simp: char_bytes_def)
qed

lemma utf8_ranges:
  "utf8_char_width b = 1 \<longleftrightarrow> unat b < 0x80" "utf8_char_width b = 2 \<longleftrightarrow> 0xC2 \<le> unat b \<and> unat b \<le> 0xDF"
  "utf8_char_width b = 3 \<longleftrightarrow> 0xE0 \<le> unat b \<and> unat b \<le> 0xEF"
  "utf8_char_width b = 4 \<longleftrightarrow> 0xF0 \<le> unat b \<and> unat b \<le> 0xF4"
  "is_continuation b \<longleftrightarrow> 0x80 \<le> unat b \<and> unat b \<le> 0xBF"
  "second_ok3 a b \<longleftrightarrow> (if unat a = 0xE0 then 0xA0 else 0x80) \<le> unat b \<and> unat b \<le> (if unat a = 0xED then 0x9F else 0xBF)"
  "second_ok4 a b \<longleftrightarrow> (if unat a = 0xF0 then 0x90 else 0x80) \<le> unat b \<and> unat b \<le> (if unat a = 0xF4 then 0x8F else 0xBF)"
  by (simp_all add: utf8_char_width_def is_continuation_def second_ok3_def second_ok4_def
      word_le_nat_alt word_less_nat_alt word_unat_eq_iff)

lemma char_bytes_cases:
  "char_bytes p \<longleftrightarrow>
     (\<exists>a. p = [a] \<and> utf8_char_width a = 1) \<or> (\<exists>a b. p = [a, b] \<and> utf8_char_width a = 2 \<and> is_continuation b)
   \<or> (\<exists>a b c. p = [a, b, c] \<and> utf8_char_width a = 3 \<and> second_ok3 a b \<and> is_continuation c)
   \<or> (\<exists>a b c d. p = [a, b, c, d] \<and> utf8_char_width a = 4 \<and> second_ok4 a b \<and> is_continuation c \<and> is_continuation d)"
  unfolding char_bytes_units char_units_def utf8_ranges
  by (cases p; cases "tl p"; cases "tl (tl p)"; cases "tl (tl (tl p))"; cases "tl (tl (tl (tl p)))") auto

lemma char_bytes_step: "char_bytes p \<Longrightarrow> p \<noteq> [] \<and> utf8_step (p @ r) = Utf8_Char (length p)"
  unfolding char_bytes_cases utf8_step_char by (elim disjE exE conjE) simp_all

lemma step_char_bytes:
  assumes "bs \<noteq> []" "utf8_step bs = Utf8_Char n"
  shows "char_bytes (take n bs)"
proof -
  have "take 1 bs = [bs ! 0]" using assms(1) by (cases bs) simp_all
  moreover have "take 2 bs = [bs ! 0, bs ! 1]" if "2 \<le> length bs"
    using that by (cases bs; cases "tl bs") simp_all
  moreover have "take 3 bs = [bs ! 0, bs ! 1, bs ! 2]" if "3 \<le> length bs"
    using that by (cases bs; cases "tl bs"; cases "tl (tl bs)") simp_all
  moreover have "take 4 bs = [bs ! 0, bs ! 1, bs ! 2, bs ! 3]" if "4 \<le> length bs"
    using that by (cases bs; cases "tl bs"; cases "tl (tl bs)"; cases "tl (tl (tl bs))") simp_all
  ultimately show ?thesis
    using assms(2) unfolding utf8_step_char char_bytes_cases by auto
qed

subsection \<open>Replacement of maximal invalid pieces\<close>

text \<open>A proper prefix of an encoded character, and the piece at the front of invalid input that is
  replaced as a whole: as long as the bytes can still begin a character, and at least one byte.\<close>

definition truncated :: "bytes \<Rightarrow> bool" where
  "truncated p \<longleftrightarrow> (\<exists>q. q \<noteq> [] \<and> char_bytes (p @ q))"

definition invalid_piece :: "bytes \<Rightarrow> bytes \<Rightarrow> bool" where
  "invalid_piece p rest \<longleftrightarrow>
     p \<noteq> [] \<and> (\<forall>c r. p @ rest = c @ r \<longrightarrow> \<not> char_bytes c) \<and> (length p = 1 \<or> truncated p)
     \<and> (\<forall>q r. rest = q @ r \<and> q \<noteq> [] \<longrightarrow> \<not> truncated (p @ q))"

inductive utf8_lossy :: "bytes \<Rightarrow> bytes \<Rightarrow> bool" where
  lossy_nil: "utf8_lossy [] []"
| lossy_char: "char_bytes p \<Longrightarrow> utf8_lossy bs out \<Longrightarrow> utf8_lossy (p @ bs) (p @ out)"
| lossy_invalid: "invalid_piece p rest \<Longrightarrow> utf8_lossy rest out \<Longrightarrow> utf8_lossy (p @ rest) (0x3F # out)"

lemma truncated_prefix: "truncated (p @ q) \<Longrightarrow> truncated p"
  unfolding truncated_def by (metis append_assoc append_is_Nil_conv)

lemma truncated_cases:
  "p \<noteq> [] \<Longrightarrow> truncated p \<longleftrightarrow>
     (\<exists>a. p = [a] \<and> utf8_char_width a \<in> {2, 3, 4})
   \<or> (\<exists>a b. p = [a, b] \<and> (utf8_char_width a = 3 \<and> second_ok3 a b \<or> utf8_char_width a = 4 \<and> second_ok4 a b))
   \<or> (\<exists>a b c. p = [a, b, c] \<and> utf8_char_width a = 4 \<and> second_ok4 a b \<and> is_continuation c)" (is "_ \<Longrightarrow> _ = ?rhs")
proof
  assume "p \<noteq> []" "truncated p"
  then show ?rhs
    unfolding truncated_def char_bytes_cases
    by (auto simp: append_eq_Cons_conv)
next
  have cont: "is_continuation 0x80" by (simp add: is_continuation_def)
  have 3: "\<exists>b. second_ok3 a b" for a by (rule exI [of _ "if a = 0xE0 then 0xA0 else 0x80"]) (simp add: second_ok3_def cont)
  have 4: "\<exists>b. second_ok4 a b" for a by (rule exI [of _ "if a = 0xF0 then 0x90 else 0x80"]) (simp add: second_ok4_def cont)
  have t2: "truncated [a]" if "utf8_char_width a = 2" for a
    using that cont unfolding truncated_def char_bytes_cases by (intro exI [of _ "[0x80]"]) simp
  have t3: "truncated [a, b]" if "utf8_char_width a = 3" "second_ok3 a b" for a b
    using that cont unfolding truncated_def char_bytes_cases by (intro exI [of _ "[0x80]"]) simp
  have t4: "truncated [a, b, c]" if "utf8_char_width a = 4" "second_ok4 a b" "is_continuation c" for a b c
    using that cont unfolding truncated_def char_bytes_cases by (intro exI [of _ "[0x80]"]) simp
  have "truncated [a]" if "utf8_char_width a = 3" for a
    using 3 [of a] t3 [OF that] truncated_prefix [of "[a]" "[_]"] by auto
  moreover have t4': "truncated [a, b]" if "utf8_char_width a = 4" "second_ok4 a b" for a b
    using t4 [OF that cont] truncated_prefix [of "[a, b]" "[0x80]"] by simp
  moreover have "truncated [a]" if "utf8_char_width a = 4" for a
    using 4 [of a] t4' [OF that] truncated_prefix [of "[a]" "[_]"] by auto
  moreover assume ?rhs
  ultimately show "truncated p" using t2 t3 t4 by auto
qed

lemma not_starting_char: "bs \<noteq> [] \<Longrightarrow> utf8_step bs = Utf8_Error e \<Longrightarrow> bs = c @ r \<Longrightarrow> \<not> char_bytes c"
  using char_bytes_step [of c r] by auto

definition error_width :: "bytes \<Rightarrow> nat option \<Rightarrow> nat" where
  "error_width bs e = (case e of Some k \<Rightarrow> k | None \<Rightarrow> length bs)"

lemma invalid_pieceI:
  assumes "bs \<noteq> []" "utf8_step bs = Utf8_Error e" "0 < k" "k \<le> length bs" "k = 1 \<or> truncated (take k bs)"
    and "k < length bs \<Longrightarrow> \<not> truncated (take (Suc k) bs)"
  shows "invalid_piece (take k bs) (drop k bs)"
proof -
  have "\<not> truncated (take k bs @ q)" if q: "drop k bs = q @ r" "q \<noteq> []" for q r
  proof
    assume t: "truncated (take k bs @ q)"
    have k: "k < length bs" using q by (cases "k < length bs") auto
    then have "take k bs @ q = take (Suc k) bs @ tl q"
      using q by (simp add: take_Suc_conv_app_nth hd_append flip: hd_drop_conv_nth)
    then show False
      using t truncated_prefix [of "take (Suc k) bs" "tl q"] assms(6) [OF k] by simp
  qed
  then show ?thesis
    using assms not_starting_char [OF assms(1,2)] by (auto simp: invalid_piece_def)
qed

lemma step_invalid_piece:
  assumes "bs \<noteq> []" "utf8_step bs = Utf8_Error e"
  shows "error_width bs e \<le> length bs \<and> invalid_piece (take (error_width bs e) bs) (drop (error_width bs e) bs)"
proof -
  obtain a s where bs: "bs = a # s" using assms(1) by (cases bs) auto
  have "error_width bs e \<le> length bs \<and> 0 < error_width bs e
      \<and> (error_width bs e = 1 \<or> truncated (take (error_width bs e) bs))
      \<and> (error_width bs e < length bs \<longrightarrow> \<not> truncated (take (Suc (error_width bs e)) bs))"
    using assms(2) unfolding bs
    by (cases s; cases "tl s"; cases "tl (tl s)")
      (auto simp: utf8_step_def Let_def error_width_def truncated_cases split: if_splits)
  then show ?thesis
    using invalid_pieceI [OF assms, of "error_width bs e"] by auto
qed

lemma valid_lossy: "valid_utf8 bs \<Longrightarrow> utf8_lossy bs bs"
proof (induction bs rule: from_utf8_error.induct)
  case (1 bs)
  show ?case
  proof (cases "bs = []")
    case False
    with "1.prems" obtain n where n: "utf8_step bs = Utf8_Char n" "valid_utf8 (drop n bs)"
      by (subst (asm) from_utf8_error.simps) (auto split: utf8_result.splits)
    then show ?thesis
      using lossy_char [OF step_char_bytes [OF False n(1)] "1.IH" [OF False n]] by simp
  qed (simp add: lossy_nil)
qed

lemma error_lossy:
  assumes "from_utf8_error bs = Some (v, e)" "utf8_lossy (drop (v + error_width (drop v bs) e) bs) out"
  shows "utf8_lossy bs (take v bs @ 0x3F # out)"
  using assms
proof (induction bs arbitrary: v rule: from_utf8_error.induct)
  case (1 bs)
  then have ne: "bs \<noteq> []" by (auto simp: from_utf8_error.simps)
  show ?case
  proof (cases "utf8_step bs")
    case (Utf8_Error x)
    with "1.prems" ne have v: "v = 0" "x = e" by (simp_all add: from_utf8_error.simps)
    then show ?thesis
      using lossy_invalid [of "take (error_width bs e) bs" "drop (error_width bs e) bs" out] "1.prems"(2)
        step_invalid_piece [OF ne Utf8_Error] by simp
  next
    case (Utf8_Char n)
    with "1.prems"(1) ne obtain u where u: "from_utf8_error (drop n bs) = Some (u, e)" "v = u + n"
      by (subst (asm) from_utf8_error.simps) auto
    have "utf8_lossy (drop n bs) (take u (drop n bs) @ 0x3F # out)"
      using "1.prems"(2) u(2) by (intro "1.IH" [OF ne Utf8_Char u(1)]) (simp add: ac_simps)
    from lossy_char [OF step_char_bytes [OF ne Utf8_Char] this]
    show ?thesis by (simp add: u(2) take_add add.commute [of u])
  qed
qed

lemma decode_loop_lossy: "utf8_lossy bs (decode_loop bs)"
proof (induction bs rule: decode_loop.induct)
  case (1 rest)
  show ?case
  proof (cases "rest = []")
    case False
    show ?thesis
    proof (cases "from_utf8_error rest")
      case None
      then show ?thesis using False valid_lossy by (simp add: decode_loop.simps)
    next
      case (Some p)
      obtain v e where p: "p = (v, e)" by (cases p)
      let ?k = "v + (case e of Some k \<Rightarrow> k | None \<Rightarrow> length rest - v)"
      have "decode_loop rest = take v rest @ 0x3F # decode_loop (drop ?k rest)"
        using False Some p by (subst decode_loop.simps) simp
      moreover have "?k = v + error_width (drop v rest) e" by (simp add: error_width_def split: option.split)
      ultimately show ?thesis
        using error_lossy [OF Some [unfolded p]] "1.IH" [OF False Some p [symmetric]] by simp
    qed
  qed (simp add: decode_loop.simps lossy_nil)
qed

text \<open>A decoding is determined by its input.\<close>

lemma char_bytes_unique: "char_bytes p \<Longrightarrow> char_bytes q \<Longrightarrow> p @ r = q @ s \<Longrightarrow> p = q \<and> r = s"
  using char_bytes_step [of p r] char_bytes_step [of q s] by (auto simp: append_eq_append_conv)

lemma invalid_piece_le:
  assumes "invalid_piece p r" "invalid_piece q s" "p @ r = q @ s"
  shows "length q \<le> length p"
proof (rule ccontr)
  assume "\<not> length q \<le> length p"
  then obtain t where t: "q = p @ t" "t \<noteq> []" "r = t @ s"
    using assms(3) by (auto simp: append_eq_append_conv2)
  have "p \<noteq> []" using assms(1) by (simp add: invalid_piece_def)
  then have "length q \<noteq> 1" using t(1,2) by (cases p) auto
  then have "truncated q" using assms(2) by (simp add: invalid_piece_def)
  then show False using t assms(1) by (auto simp: invalid_piece_def)
qed

lemma invalid_piece_unique:
  "invalid_piece p r \<Longrightarrow> invalid_piece q s \<Longrightarrow> p @ r = q @ s \<Longrightarrow> p = q \<and> r = s"
  using invalid_piece_le [of p r q s] invalid_piece_le [of q s p r] by (simp add: append_eq_append_conv)

lemma invalid_piece_no_char: "invalid_piece p r \<Longrightarrow> char_bytes q \<Longrightarrow> p @ r \<noteq> q @ s"
  by (auto simp: invalid_piece_def)

lemma utf8_lossy_unique: "utf8_lossy bs out \<Longrightarrow> utf8_lossy bs out' \<Longrightarrow> out' = out"
proof (induction arbitrary: out' rule: utf8_lossy.induct)
  case lossy_nil
  then show ?case
    by cases (auto simp: invalid_piece_def dest: char_bytes_step)
next
  case (lossy_char p bs out)
  note p = lossy_char.hyps(1) and IH = lossy_char.IH
  from lossy_char.prems show ?case
  proof cases
    case lossy_nil
    then show ?thesis using char_bytes_step [OF p] by simp
  next
    case (lossy_char q cs o2)
    then show ?thesis using IH char_bytes_unique [OF p, of q bs cs] by auto
  next
    case (lossy_invalid q cs o2)
    then show ?thesis using invalid_piece_no_char [of q cs p bs] p by simp
  qed
next
  case (lossy_invalid p rest out)
  note p = lossy_invalid.hyps(1) and IH = lossy_invalid.IH
  from lossy_invalid.prems show ?case
  proof cases
    case lossy_nil
    then show ?thesis using p by (simp add: invalid_piece_def)
  next
    case (lossy_char q cs o2)
    then show ?thesis using invalid_piece_no_char [OF p, of q cs] by simp
  next
    case (lossy_invalid q cs o2)
    then show ?thesis using IH invalid_piece_unique [OF p, of q cs] by auto
  qed
qed

text \<open>C30: What a wire string decodes to, exactly.  By the definition of UTF-8 from code points, the input
  splits into encoded characters and, wherever no character begins, the longest piece that could still
  begin one (at least one byte); the decoded string is the input with every such piece replaced by one
  question mark and every character kept.  The split is unique, and the decoder returns this string
  and no other.\<close>

theorem decode_utf8_exact: "utf8_lossy bs out \<longleftrightarrow> out = decode_utf8_delphi bs"
proof -
  have "utf8_lossy bs (decode_utf8_delphi bs)"
    by (auto simp: decode_utf8_delphi_def decode_loop_lossy valid_lossy split: option.split)
  then show ?thesis using utf8_lossy_unique by blast
qed

text \<open>A string written into a stream is read back at its position, with the position after it,
  when it fits the two-byte length; the source keeps only the wrapped length of a longer one.\<close>

theorem string_roundtrip:
  "valid_utf8 s \<Longrightarrow> length s < 65536 \<Longrightarrow>
     read_string (write_string buf s @ rest) (length buf) = Some (s, length buf + 2 + length s)"
  by (simp add: read_string_def write_string_def Let_def slice_def unat_of_nat decode_utf8_delphi_def)

theorem string_roundtrip_witness:
  "read_string (write_string [7] [0x41, 0xC3, 0xA9] @ [9, 9]) 1 = Some ([0x41, 0xC3, 0xA9], 6)"
proof -
  have "valid_utf8 [0x41, 0xC3, 0xA9]" by code_simp
  from string_roundtrip [OF this, of "[7]" "[9, 9]"] show ?thesis by simp
qed

end
