(* ===== verification/Chunked.thy ===== *)
theory Chunked
  imports Wire Fragments
begin

text \<open>
  Responses of the Engine API that span several messages (\<^verbatim>\<open>commands/chunked_response.rs\<close>): the
  collector of numbered chunks, the completed payload, and the reader that streams it without
  concatenating the chunks.  A failing allocation of the chunk table is not modelled.
\<close>

section \<open>Collector\<close>

record chunk_aggregator =
  ca_chunks :: "payload option list"
  ca_received :: nat
  ca_total :: nat
  ca_payload_bytes :: nat

record chunked_payload =
  cp_chunks :: "payload option list"
  cp_len :: nat

datatype chunked_response_result = CR_Ignored | CR_Stored | CR_Complete chunked_payload

definition aggregator_new :: chunk_aggregator where
  "aggregator_new = \<lparr>ca_chunks = [], ca_received = 0, ca_total = 0, ca_payload_bytes = 0\<rparr>"

definition reset_counters :: "chunk_aggregator \<Rightarrow> chunk_aggregator" where
  "reset_counters a = a\<lparr>ca_received := 0, ca_total := 0, ca_payload_bytes := 0\<rparr>"

definition aggregator_reset :: "chunk_aggregator \<Rightarrow> chunk_aggregator" where
  "aggregator_reset a = reset_counters (a\<lparr>ca_chunks := []\<rparr>)"

text \<open>The table for a new chunk count.\<close>

definition ensure_table :: "chunk_aggregator \<Rightarrow> nat \<Rightarrow> chunk_aggregator" where
  "ensure_table a chunk_total =
     (if ca_total a \<noteq> chunk_total
      then a\<lparr>ca_chunks := replicate chunk_total None, ca_received := 0, ca_total := chunk_total, ca_payload_bytes := 0\<rparr>
      else a)"

text \<open>Storing a chunk in its slot; an occupied slot keeps its chunk.\<close>

definition store_chunk :: "chunk_aggregator \<Rightarrow> nat \<Rightarrow> payload \<Rightarrow> chunk_aggregator" where
  "store_chunk a i p =
     (if ca_chunks a ! i \<noteq> None then a
      else a\<lparr>ca_chunks := (ca_chunks a)[i := Some p], ca_payload_bytes := ca_payload_bytes a + length (payload_deref p),
            ca_received := ca_received a + 1\<rparr>)"

definition on_chunk :: "chunk_aggregator \<Rightarrow> payload \<Rightarrow> chunked_response_result \<times> chunk_aggregator" where
  "on_chunk a response_data =
     (let d = payload_deref response_data
      in if length d < 4 then (CR_Ignored, a)
         else let chunk_index = unat (from_le (slice 0 2 d) :: u16);
                  chunk_total = unat (from_le (slice 2 4 d) :: u16);
                  payload_len = length d - 4
              in if chunk_total = 0 then (CR_Ignored, a)
                 else let a = ensure_table a chunk_total
                      in if chunk_index \<ge> chunk_total \<or> ca_chunks a ! chunk_index \<noteq> None then (CR_Ignored, a)
                         else if ca_payload_bytes a + payload_len \<ge> 2 ^ 64 then (CR_Ignored, aggregator_reset a)
                         else (case payload_restrict response_data 4 (length d) of
                                 None \<Rightarrow> (CR_Ignored, a)
                               | Some p \<Rightarrow>
                                   (let a = store_chunk a chunk_index p
                                    in if ca_received a \<noteq> ca_total a then (CR_Stored, a)
                                       else (CR_Complete \<lparr>cp_chunks = ca_chunks a, cp_len = ca_payload_bytes a\<rparr>,
                                             reset_counters (a\<lparr>ca_chunks := []\<rparr>)))))"

definition chunk_bytes :: "payload option \<Rightarrow> bytes" where
  "chunk_bytes c = (case c of None \<Rightarrow> [] | Some p \<Rightarrow> payload_deref p)"

definition chunked_into_vec :: "chunked_payload \<Rightarrow> bytes" where
  "chunked_into_vec p = concat (map chunk_bytes (cp_chunks p))"

section \<open>Reader\<close>

record chunk_reader =
  rd_chunks :: "payload option list"
  rd_current :: bytes

definition chunked_reader :: "chunked_payload \<Rightarrow> chunk_reader" where
  "chunked_reader p = \<lparr>rd_chunks = cp_chunks p, rd_current = []\<rparr>"

text \<open>The loop of \<^verbatim>\<open>fill_buf\<close> runs over the remaining chunks while the current one is empty.\<close>

primrec next_nonempty :: "payload option list \<Rightarrow> chunk_reader" where
  "next_nonempty [] = \<lparr>rd_chunks = [], rd_current = []\<rparr>"
| "next_nonempty (c # cs) =
     (if chunk_bytes c = [] then next_nonempty cs else \<lparr>rd_chunks = cs, rd_current = chunk_bytes c\<rparr>)"

definition fill_buf :: "chunk_reader \<Rightarrow> bytes \<times> chunk_reader" where
  "fill_buf r =
     (let r = (if rd_current r = [] then next_nonempty (rd_chunks r) else r) in (rd_current r, r))"

definition consume :: "chunk_reader \<Rightarrow> nat \<Rightarrow> chunk_reader" where
  "consume r amount = r\<lparr>rd_current := drop amount (rd_current r)\<rparr>"

definition reader_read :: "chunk_reader \<Rightarrow> nat \<Rightarrow> bytes \<times> chunk_reader" where
  "reader_read r output_len =
     (let (input, r) = fill_buf r; len = min (length input) output_len
      in (take len input, consume r len))"

definition unread :: "chunk_reader \<Rightarrow> bytes" where
  "unread r = rd_current r @ concat (map chunk_bytes (rd_chunks r))"

lemma unread_next: "unread (next_nonempty cs) = concat (map chunk_bytes cs)"
  by (induction cs) (auto simp: unread_def)

lemma next_nonempty_end: "rd_current (next_nonempty cs) = [] \<Longrightarrow> concat (map chunk_bytes cs) = []"
  by (induction cs) (auto split: if_splits)

lemma reader_read_unread:
  assumes "reader_read r n = (out, r')"
  shows "out @ unread r' = unread r" "out = [] \<Longrightarrow> 0 < n \<Longrightarrow> unread r = []"
proof -
  define q where "q = (if rd_current r = [] then next_nonempty (rd_chunks r) else r)"
  have u: "unread q = unread r" "rd_current q = [] \<Longrightarrow> unread r = []"
    using next_nonempty_end [of "rd_chunks r"]
    by (simp_all add: q_def unread_next unread_def [of r] split: if_splits)
  have r: "out = take (min (length (rd_current q)) n) (rd_current q)" "r' = consume q (min (length (rd_current q)) n)"
    using assms by (simp_all add: reader_read_def fill_buf_def Let_def q_def)
  show "out @ unread r' = unread r"
    unfolding u(1) [symmetric] r by (simp add: unread_def consume_def)
  show "out = [] \<Longrightarrow> 0 < n \<Longrightarrow> unread r = []"
    using u(2) r(1) by (cases "rd_current q") auto
qed

text \<open>Reading to the end with a buffer of \<open>Suc n\<close> bytes: the loop of a \<^verbatim>\<open>Read\<close> client, which stops at the first
  empty result.\<close>

function read_to_end :: "nat \<Rightarrow> chunk_reader \<Rightarrow> bytes" where
  "read_to_end n r =
     (case reader_read r (Suc n) of (out, r') \<Rightarrow> if out = [] then [] else out @ read_to_end n r')"
  by pat_completeness auto
termination
proof (relation "measure (\<lambda>(n, r). length (unread r))")
  fix n r out r'
  assume "(out, r') = reader_read r (Suc n)" "out \<noteq> []"
  then have "length out + length (unread r') = length (unread r)" "0 < length out"
    using reader_read_unread(1) [of r "Suc n" out r'] by (metis length_append, simp)
  then show "((n, r'), (n, r)) \<in> measure (\<lambda>(n, r). length (unread r))"
    unfolding in_measure case_prod_conv by linarith
qed simp

declare read_to_end.simps [simp del]

text \<open>C11: Streaming a completed response.  Whatever the buffer size of the consumer, and whether or not
  chunks are empty, the read loop over the chunk reader ends and yields exactly the concatenation of the
  chunks in index order.\<close>

theorem reader_streams_payload:
  "read_to_end n (chunked_reader p) = chunked_into_vec p"
proof -
  have "read_to_end n r = unread r" for r
  proof (induction n r rule: read_to_end.induct)
    case (1 n r)
    obtain out r' where r: "reader_read r (Suc n) = (out, r')" by fastforce
    show ?case
      using 1 [OF r [symmetric]] reader_read_unread [OF r] r by (subst read_to_end.simps) auto
  qed
  then show ?thesis by (simp add: chunked_reader_def unread_def chunked_into_vec_def)
qed

section \<open>Collecting\<close>

definition aggregator_wf :: "chunk_aggregator \<Rightarrow> bool" where
  "aggregator_wf a \<longleftrightarrow> length (ca_chunks a) = ca_total a
     \<and> ca_received a = length (filter (\<lambda>c. c \<noteq> None) (ca_chunks a))
     \<and> ca_payload_bytes a = length (concat (map chunk_bytes (ca_chunks a)))"

definition aggregator_piece :: "chunk_aggregator \<Rightarrow> nat \<Rightarrow> bytes option" where
  "aggregator_piece a i = (if i < ca_total a then map_option payload_deref (ca_chunks a ! i) else None)"

lemma filter_update_None:
  "i < length cs \<Longrightarrow> cs ! i = None \<Longrightarrow>
     length (filter (\<lambda>c. c \<noteq> None) (cs[i := Some p])) = Suc (length (filter (\<lambda>c. c \<noteq> None) cs))"
  by (induction cs arbitrary: i) (auto split: nat.split)

lemma chunk_bytes_update_None:
  "i < length cs \<Longrightarrow> cs ! i = None \<Longrightarrow>
     length (concat (map chunk_bytes (cs[i := Some p]))) = length (concat (map chunk_bytes cs)) + length (payload_deref p)"
  by (induction cs arbitrary: i) (auto simp: chunk_bytes_def split: nat.split)

lemma store_chunk_wf: "aggregator_wf a \<Longrightarrow> i < ca_total a \<Longrightarrow> aggregator_wf (store_chunk a i p)"
  using filter_update_None [of i "ca_chunks a" p] chunk_bytes_update_None [of i "ca_chunks a" p]
  by (simp add: aggregator_wf_def store_chunk_def del: map_update)

interpretation chunk_frag: fragment_collector aggregator_wf ca_total aggregator_piece payload_deref store_chunk
proof
  fix a i p j
  assume wf: "aggregator_wf a" and i: "i < ca_total a"
  show "aggregator_wf (store_chunk a i p)" by (rule store_chunk_wf [OF wf i])
  show "ca_total (store_chunk a i p) = ca_total a" by (simp add: store_chunk_def)
  show "aggregator_piece (store_chunk a i p) i = Some (payload_deref p) \<or>
      aggregator_piece a i \<noteq> None \<and> aggregator_piece (store_chunk a i p) i = aggregator_piece a i"
    using wf i by (auto simp: aggregator_piece_def store_chunk_def aggregator_wf_def)
  assume "j \<noteq> i"
  then show "aggregator_piece (store_chunk a i p) j = aggregator_piece a j"
    by (simp add: aggregator_piece_def store_chunk_def)
qed

text \<open>A chunk of the response that consists of the parts \<open>ms\<close>, in whatever part of a receive buffer it lies.\<close>

definition is_chunk :: "bytes list \<Rightarrow> nat \<Rightarrow> payload \<Rightarrow> bool" where
  "is_chunk ms i p \<longleftrightarrow> i < length ms \<and>
     payload_deref p = le_bytes 2 (of_nat i :: u16) @ le_bytes 2 (of_nat (length ms) :: u16) @ ms ! i"

definition holds :: "bytes list \<Rightarrow> nat set \<Rightarrow> chunk_aggregator \<Rightarrow> bool" where
  "holds ms S a \<longleftrightarrow> aggregator_wf a \<and> ca_total a = length ms
     \<and> (\<forall>i. aggregator_piece a i = (if i \<in> S then Some (ms ! i) else None))"

lemma holds_slot: "holds ms S a \<Longrightarrow> i < length ms \<Longrightarrow> ca_chunks a ! i \<noteq> None \<longleftrightarrow> i \<in> S"
  by (auto simp: holds_def aggregator_piece_def split: if_splits)

lemma holds_bound: "holds ms S a \<Longrightarrow> i \<in> S \<Longrightarrow> i < length ms"
  by (auto simp: holds_def aggregator_piece_def split: if_splits)

lemma holds_received: "holds ms S a \<Longrightarrow> ca_received a = card S"
proof -
  assume h: "holds ms S a"
  have "{i. i < length (ca_chunks a) \<and> ca_chunks a ! i \<noteq> None} = S"
    using h holds_slot [OF h] holds_bound [OF h] by (auto simp: holds_def aggregator_wf_def)
  then show ?thesis
    using h by (simp add: holds_def aggregator_wf_def length_filter_conv_card)
qed

lemma holds_content:
  assumes "holds ms S a"
  shows "map chunk_bytes (ca_chunks a) = map (\<lambda>i. if i \<in> S then ms ! i else []) [0..<length ms]"
proof (rule nth_equalityI)
  show "length (map chunk_bytes (ca_chunks a)) = length (map (\<lambda>i. if i \<in> S then ms ! i else []) [0..<length ms])"
    using assms by (simp add: holds_def aggregator_wf_def)
  fix i assume "i < length (map chunk_bytes (ca_chunks a))"
  then have i: "i < length ms" "i < length (ca_chunks a)" using assms by (simp_all add: holds_def aggregator_wf_def)
  have "aggregator_piece a i = (if i \<in> S then Some (ms ! i) else None)" using assms by (simp add: holds_def)
  then show "map chunk_bytes (ca_chunks a) ! i = map (\<lambda>i. if i \<in> S then ms ! i else []) [0..<length ms] ! i"
    using i assms by (auto simp: aggregator_piece_def chunk_bytes_def holds_def split: option.splits if_splits)
qed

lemma length_concat_upt: "length (concat (map f [0..<n])) = (\<Sum>j<n. length (f j))"
  by (induction n) simp_all

lemma length_concat_part:
  assumes "i < length ms" "i \<notin> S"
  shows "length (concat (map (\<lambda>i. if i \<in> S then ms ! i else []) [0..<length ms])) + length (ms ! i) \<le> length (concat ms)"
proof -
  have "length (concat (map (\<lambda>i. if i \<in> S then ms ! i else []) [0..<length ms])) + length (ms ! i)
      = (\<Sum>j \<in> {..<length ms}. if j \<in> S then length (ms ! j) else 0) + (\<Sum>j \<in> {..<length ms}. if j = i then length (ms ! i) else 0)"
    using assms(1) by (simp add: length_concat_upt if_distrib [of length] cong: if_cong)
  also have "\<dots> = (\<Sum>j \<in> {..<length ms}. (if j \<in> S then length (ms ! j) else 0) + (if j = i then length (ms ! i) else 0))"
    by (rule sum.distrib [symmetric])
  also have "\<dots> \<le> (\<Sum>j \<in> {..<length ms}. length (ms ! j))"
    using assms(2) by (intro sum_mono) auto
  also have "\<dots> = length (concat ms)"
    by (simp add: length_concat sum_list_sum_nth atLeast0LessThan)
  finally show ?thesis .
qed

lemma holds_table: "aggregator_wf a \<Longrightarrow> ca_total a \<noteq> length ms \<Longrightarrow> holds ms {} (ensure_table a (length ms))"
  by (auto simp: holds_def ensure_table_def aggregator_wf_def aggregator_piece_def chunk_bytes_def)

lemma holds_store:
  assumes "holds ms S a" "i < length ms" "i \<notin> S" "payload_deref q = ms ! i"
  shows "holds ms (insert i S) (store_chunk a i q)"
proof -
  have wf: "aggregator_wf a" "i < ca_total a" using assms by (simp_all add: holds_def)
  have "aggregator_piece a i = None" using assms by (simp add: holds_def)
  then have "aggregator_piece (store_chunk a i q) j = (if j \<in> insert i S then Some (ms ! j) else None)" for j
    using chunk_frag.add_same [OF wf, of q] chunk_frag.add_other [OF wf, of j q] assms
    by (cases "j = i") (auto simp: holds_def)
  then show ?thesis
    using chunk_frag.add_inv [OF wf] chunk_frag.add_total [OF wf] assms(1) by (simp add: holds_def)
qed

lemma on_chunk_cases:
  assumes ms: "0 < length ms" "length ms < 2 ^ 16" "length (concat ms) < 2 ^ 64"
    and c: "is_chunk ms i p" and h: "holds ms S (ensure_table a (length ms))"
  shows "i \<in> S \<Longrightarrow> on_chunk a p = (CR_Ignored, ensure_table a (length ms))"
    "i \<notin> S \<Longrightarrow> \<exists>b. holds ms (insert i S) b \<and>
       on_chunk a p = (if card (insert i S) \<noteq> length ms then (CR_Stored, b)
                       else (CR_Complete \<lparr>cp_chunks = ca_chunks b, cp_len = ca_payload_bytes b\<rparr>, aggregator_new))"
proof -
  let ?a = "ensure_table a (length ms)"
  have i: "i < length ms" and d: "payload_deref p = le_bytes 2 (of_nat i :: u16) @ le_bytes 2 (of_nat (length ms) :: u16) @ ms ! i"
    using c by (simp_all add: is_chunk_def)
  have idx: "unat (from_le (slice 0 2 (payload_deref p)) :: u16) = i" "unat (from_le (slice 2 4 (payload_deref p)) :: u16) = length ms"
    using i ms(2) by (simp_all add: d slice_def unat_of_nat)
  obtain q where q: "payload_restrict p 4 (length (payload_deref p)) = Some q" "payload_deref q = ms ! i"
    using payload_restrict_visible [of p 4 "length (payload_deref p)"]
    by (cases "payload_restrict p 4 (length (payload_deref p))") (auto simp: payload_restrict_def d slice_def)
  show "i \<in> S \<Longrightarrow> on_chunk a p = (CR_Ignored, ?a)"
    using idx i ms(1) holds_slot [OF h i] d by (simp add: on_chunk_def Let_def)
  assume S: "i \<notin> S"
  define b where "b = store_chunk ?a i q"
  have hb: "holds ms (insert i S) b" unfolding b_def by (rule holds_store [OF h i S q(2)])
  have "ca_payload_bytes ?a + length (ms ! i) \<le> length (concat ms)"
    using length_concat_part [OF i S] h holds_content [OF h] by (simp add: holds_def aggregator_wf_def)
  then have "\<not> ca_payload_bytes ?a + (length (payload_deref p) - 4) \<ge> 2 ^ 64" using ms(3) d by simp
  moreover have "ca_total b = length ms" "ca_received b = card (insert i S)"
    using hb holds_received [OF hb] by (simp_all add: holds_def)
  moreover have "reset_counters (b\<lparr>ca_chunks := []\<rparr>) = aggregator_new" by (simp add: reset_counters_def aggregator_new_def)
  ultimately have "on_chunk a p = (if card (insert i S) \<noteq> length ms then (CR_Stored, b)
      else (CR_Complete \<lparr>cp_chunks = ca_chunks b, cp_len = ca_payload_bytes b\<rparr>, aggregator_new))"
    using idx i ms(1) holds_slot [OF h i] S d q by (simp add: on_chunk_def Let_def b_def)
  with hb show "\<exists>b. holds ms (insert i S) b \<and>
       on_chunk a p = (if card (insert i S) \<noteq> length ms then (CR_Stored, b)
                       else (CR_Complete \<lparr>cp_chunks = ca_chunks b, cp_len = ca_payload_bytes b\<rparr>, aggregator_new))" by blast
qed

fun chunk_run :: "chunk_aggregator \<Rightarrow> payload list \<Rightarrow> chunked_response_result list \<times> chunk_aggregator" where
  "chunk_run a [] = ([], a)"
| "chunk_run a (p # ps) = (case on_chunk a p of (r, a) \<Rightarrow> case chunk_run a ps of (rs, a) \<Rightarrow> (r # rs, a))"

lemma chunk_run_append:
  "chunk_run a (ps @ qs) = (case chunk_run a ps of (rs, b) \<Rightarrow> case chunk_run b qs of (rs', b) \<Rightarrow> (rs @ rs', b))"
  by (induction ps arbitrary: a) (auto split: prod.splits)

lemma table_of_holds [simp]: "holds ms S a \<Longrightarrow> ensure_table a (length ms) = a"
  by (simp add: holds_def ensure_table_def)

lemma chunk_run_partial:
  assumes ms: "0 < length ms" "length ms < 2 ^ 16" "length (concat ms) < 2 ^ 64"
    and "list_all2 (is_chunk ms) order ps" "holds ms S (ensure_table a (length ms))" "k < length ms" "k \<notin> S \<union> set order"
  shows "\<exists>rs b. chunk_run a ps = (rs, b) \<and> set rs \<subseteq> {CR_Ignored, CR_Stored} \<and> holds ms (S \<union> set order) (ensure_table b (length ms))"
  using assms(4-7)
proof (induction arbitrary: a S rule: list_all2_induct)
  case Nil
  then show ?case by simp
next
  case (Cons i ks p ps)
  let ?a = "ensure_table a (length ms)"
  obtain r b where r: "on_chunk a p = (r, b)" by fastforce
  have "insert i S \<subseteq> {..<length ms}"
    using holds_bound [OF Cons.prems(1)] Cons.hyps(1) by (auto simp: is_chunk_def)
  moreover have "insert i S \<noteq> {..<length ms}" using Cons.prems(2,3) by auto
  ultimately have card: "card (insert i S) \<noteq> length ms"
    by (metis card_lessThan card_subset_eq finite_lessThan)
  have "holds ms (insert i S) (ensure_table b (length ms)) \<and> r \<in> {CR_Ignored, CR_Stored}"
  proof (cases "i \<in> S")
    case True
    then show ?thesis
      using on_chunk_cases(1) [OF ms Cons.hyps(1) Cons.prems(1)] r Cons.prems(1) by (auto simp: insert_absorb)
  next
    case False
    then obtain b' where "holds ms (insert i S) b'" "on_chunk a p = (CR_Stored, b')"
      using on_chunk_cases(2) [OF ms Cons.hyps(1) Cons.prems(1)] card by auto
    then show ?thesis using r by simp
  qed
  moreover from this Cons.IH [of "insert i S" b] Cons.prems obtain rs b' where
    "chunk_run b ps = (rs, b')" "set rs \<subseteq> {CR_Ignored, CR_Stored}" "holds ms (insert i S \<union> set ks) (ensure_table b' (length ms))"
    by auto
  ultimately show ?case using r by auto
qed

text \<open>C9: Assembly of a chunked response.  Its chunks may arrive in any order and any number of times, and
  from any offset of their receive buffers: as long as one is missing nothing is completed, the first arrival of the
  last missing chunk completes the response with the parts in index order, whatever the collector held for another
  chunk count is dropped, and the collector is ready for the next response.\<close>

theorem chunked_assembles:
  assumes ms: "0 < length ms" "length ms < 2 ^ 16" "length (concat ms) < 2 ^ 64"
    and arrive: "list_all2 (is_chunk ms) order ps" "is_chunk ms k p" "k \<notin> set order" "insert k (set order) = {..<length ms}"
    and a: "aggregator_wf a" "ca_total a \<noteq> length ms"
  shows "\<exists>rs cp. chunk_run a (ps @ [p]) = (rs @ [CR_Complete cp], aggregator_new)
     \<and> set rs \<subseteq> {CR_Ignored, CR_Stored} \<and> chunked_into_vec cp = concat ms \<and> cp_len cp = length (concat ms)"
proof -
  have k: "k < length ms" using arrive(2) by (simp add: is_chunk_def)
  obtain rs b where b: "chunk_run a ps = (rs, b)" "set rs \<subseteq> {CR_Ignored, CR_Stored}"
      "holds ms (set order) (ensure_table b (length ms))"
    using chunk_run_partial [OF ms arrive(1) holds_table [OF a] k] arrive(3) by auto
  have "card (insert k (set order)) = length ms" unfolding arrive(4) by simp
  then obtain b' where b': "holds ms {..<length ms} b'"
      "on_chunk b p = (CR_Complete \<lparr>cp_chunks = ca_chunks b', cp_len = ca_payload_bytes b'\<rparr>, aggregator_new)"
    using on_chunk_cases(2) [OF ms arrive(2) b(3) arrive(3)] arrive(4) by auto
  have "map chunk_bytes (ca_chunks b') = map (\<lambda>i. ms ! i) [0..<length ms]"
    unfolding holds_content [OF b'(1)] by (intro map_cong) auto
  then have c: "map chunk_bytes (ca_chunks b') = ms" by (simp add: map_nth)
  then have "ca_payload_bytes b' = length (concat ms)" using b'(1) by (simp add: holds_def aggregator_wf_def)
  then show ?thesis
    using b b'(2) c by (auto simp: chunk_run_append chunked_into_vec_def)
qed

theorem chunked_assembles_witness:
  "\<exists>rs cp. chunk_run aggregator_new
      ([\<lparr>pl_bytes = [9, 1, 0, 2, 0, 7], pl_start = 1\<rparr>, \<lparr>pl_bytes = [1, 0, 2, 0, 7], pl_start = 0\<rparr>]
        @ [\<lparr>pl_bytes = [0, 0, 2, 0, 5, 6], pl_start = 0\<rparr>]) = (rs @ [CR_Complete cp], aggregator_new)
     \<and> set rs \<subseteq> {CR_Ignored, CR_Stored} \<and> chunked_into_vec cp = concat [[5, 6], [7]] \<and> cp_len cp = length (concat [[5, 6], [7 :: u8]])"
proof (rule chunked_assembles [where order = "[1, 1]" and k = 0])
  show "list_all2 (is_chunk [[5, 6], [7]]) [1, 1]
      [\<lparr>pl_bytes = [9, 1, 0, 2, 0, 7], pl_start = 1\<rparr>, \<lparr>pl_bytes = [1, 0, 2, 0, 7], pl_start = 0\<rparr>]"
    by (simp add: is_chunk_def payload_deref_def) code_simp
  show "is_chunk [[5, 6], [7]] 0 \<lparr>pl_bytes = [0, 0, 2, 0, 5, 6], pl_start = 0\<rparr>" by code_simp
qed (auto simp: aggregator_wf_def aggregator_new_def)

end
