(* ===== verification/Engine_Api.thy ===== *)
theory Engine_Api
  imports Decode Strings Chunked
begin

text \<open>
  Responses of the Engine API: the parser of \<^verbatim>\<open>commands/engine_api/response.rs\<close> in its copying and its
  buffer-taking form, the registry of waiting callers (\<^verbatim>\<open>api_pending.rs\<close>), the collectors of chunked
  responses and the route of a response through them (\<^verbatim>\<open>client/protocol_api.rs\<close>).

  The DEFLATE decoder is third-party code: the parameter \<open>inflate\<close> gives, for a compressed body, the
  results of its successive \<^verbatim>\<open>read\<close> calls, \<open>None\<close> being an error.  Instants are nanosecond counts.  A
  channel is the number of its receiver, and what was sent into channels is a log.
\<close>

section \<open>Response parser\<close>

type_synonym inflate = "bytes \<Rightarrow> bytes option list"

definition MAX_INFLATE_OUTPUT_SIZE :: nat where
  "MAX_INFLATE_OUTPUT_SIZE = 512 * 1024 * 1024"

fun read_inflate_to_vec :: "bytes option list \<Rightarrow> nat \<Rightarrow> bytes \<Rightarrow> bytes option" where
  "read_inflate_to_vec [] max_output out = Some out"
| "read_inflate_to_vec (None # rs) max_output out = None"
| "read_inflate_to_vec (Some buf # rs) max_output out =
     (if buf = [] then Some out
      else if length out + length buf > max_output then None
      else read_inflate_to_vec rs max_output (out @ buf))"

definition read_zero_tail :: "nat \<Rightarrow> bytes \<Rightarrow> nat \<Rightarrow> bytes \<times> nat" where
  "read_zero_tail n data pos =
     (if pos < length data
      then let k = min (length data - pos) n in (take k (drop pos data) @ replicate (n - k) 0, pos + k)
      else (replicate n 0, pos))"

definition read_u8_zero_tail :: "bytes \<Rightarrow> nat \<Rightarrow> u8 \<times> nat" where
  "read_u8_zero_tail data pos = (case read_zero_tail 1 data pos of (bs, pos) \<Rightarrow> (bs ! 0, pos))"

definition read_i32_zero_tail :: "bytes \<Rightarrow> nat \<Rightarrow> u32 \<times> nat" where
  "read_i32_zero_tail data pos = (case read_zero_tail 4 data pos of (bs, pos) \<Rightarrow> (from_le bs, pos))"

definition read_u64_zero_tail :: "bytes \<Rightarrow> nat \<Rightarrow> u64 \<times> nat" where
  "read_u64_zero_tail data pos = (case read_zero_tail 8 data pos of (bs, pos) \<Rightarrow> (from_le bs, pos))"

text \<open>\<open>er_error_code\<close> is the bit pattern of the \<^verbatim>\<open>i32\<close>.\<close>

record engine_response =
  er_ver :: u16
  er_request_uid :: u64
  er_method :: engine_method
  er_success :: bool
  er_error_code :: u32
  er_error_msg :: bytes
  er_data :: bytes

definition parse_response_header :: "bytes \<Rightarrow> (engine_response \<times> (nat \<times> nat) \<times> bool) option" where
  "parse_response_header data =
     (if length data < 11 then None
      else let ver = from_le (slice 1 3 data);
               (request_uid, pos) = read_u64_zero_tail data 11;
               (meth, pos) = read_u8_zero_tail data pos;
               (success, pos) = read_u8_zero_tail data pos;
               (error_code, pos) = read_i32_zero_tail data pos
           in case read_string data pos of
                None \<Rightarrow> None
              | Some (error_msg, pos) \<Rightarrow>
                  (let (is_compressed, pos) = read_u8_zero_tail data pos;
                       (sz, pos) = read_i32_zero_tail data pos;
                       sz = sint sz;
                       stop = pos + min (length data - pos) (nat (max sz 0))
                   in Some (\<lparr>er_ver = ver, er_request_uid = request_uid, er_method = method_from_byte meth,
                             er_success = (success \<noteq> 0), er_error_code = error_code, er_error_msg = error_msg,
                             er_data = []\<rparr>,
                            (pos, stop), is_compressed \<noteq> 0 \<and> sz > 0)))"

definition decode_body :: "inflate \<Rightarrow> bytes \<Rightarrow> bool \<Rightarrow> bytes option" where
  "decode_body inflate raw compressed =
     (if \<not> compressed then Some raw else read_inflate_to_vec (inflate raw) MAX_INFLATE_OUTPUT_SIZE [])"

definition parse_engine_response :: "inflate \<Rightarrow> bytes \<Rightarrow> engine_response option" where
  "parse_engine_response inflate data =
     (case parse_response_header data of
        None \<Rightarrow> None
      | Some (response, (a, b), compressed) \<Rightarrow>
          map_option (\<lambda>body. response\<lparr>er_data := body\<rparr>) (decode_body inflate (slice a b data) compressed))"

definition payload_default :: payload where
  "payload_default = \<lparr>pl_bytes = [], pl_start = 0\<rparr>"

definition parse_engine_response_owned :: "inflate \<Rightarrow> payload \<Rightarrow> (engine_response \<times> payload) option \<times> payload" where
  "parse_engine_response_owned inflate p =
     (case parse_response_header (payload_deref p) of
        None \<Rightarrow> (None, p)
      | Some (response, (a, b), compressed) \<Rightarrow>
          (if compressed
           then case decode_body inflate (slice a b (payload_deref p)) True of
                  None \<Rightarrow> (None, p)
                | Some body \<Rightarrow> (Some (response, payload_from body), payload_default)
           else case payload_restrict p a b of
                  None \<Rightarrow> (None, p)
                | Some body \<Rightarrow> (Some (response, body), payload_default)))"

section \<open>Waiting callers\<close>

type_synonym instant = int

definition SWEEP_INTERVAL :: instant where
  "SWEEP_INTERVAL = 1000000000"

record pending_entry =
  pe_tx :: nat
  pe_deadline :: instant

record api_pending =
  ap_map :: "(u64 \<times> pending_entry) list"
  ap_last_sweep :: instant
  ap_next_rx :: nat
  ap_sent :: "(nat \<times> engine_response) list"

definition api_pending_default :: "instant \<Rightarrow> api_pending" where
  "api_pending_default now = \<lparr>ap_map = [], ap_last_sweep = now, ap_next_rx = 0, ap_sent = []\<rparr>"

definition sweep_expired_locked :: "api_pending \<Rightarrow> instant \<Rightarrow> bool \<Rightarrow> nat \<times> api_pending" where
  "sweep_expired_locked st now force =
     (if \<not> force \<and> max (now - ap_last_sweep st) 0 < SWEEP_INTERVAL then (0, st)
      else let kept = filter (\<lambda>(_, e). pe_deadline e > now) (ap_map st)
           in (length (ap_map st) - length kept, st\<lparr>ap_last_sweep := now, ap_map := kept\<rparr>))"

text \<open>The latest \<^verbatim>\<open>Instant\<close>: a signed 64-bit number of seconds and the nanoseconds of the last one.\<close>

definition INSTANT_MAX :: instant where
  "INSTANT_MAX = (2 ^ 63 - 1) * 1000000000 + 999999999"

definition deadline_from :: "instant \<Rightarrow> instant \<Rightarrow> instant" where
  "deadline_from now timeout =
     (if now + timeout \<le> INSTANT_MAX then now + timeout else now + 365 * 24 * 60 * 60 * 1000000000)"

definition register_with_timeout :: "api_pending \<Rightarrow> u64 \<Rightarrow> instant \<Rightarrow> instant \<Rightarrow> nat \<times> api_pending" where
  "register_with_timeout st uid timeout now =
     (let rx = ap_next_rx st;
          st = snd (sweep_expired_locked (st\<lparr>ap_next_rx := rx + 1\<rparr>) now False)
      in (rx, st\<lparr>ap_map := map_insert uid \<lparr>pe_tx = rx, pe_deadline = deadline_from now timeout\<rparr> (ap_map st)\<rparr>))"

text \<open>\<open>build\<close> makes the response, possibly changing what it was made from; it runs for a live waiter only.\<close>

definition dispatch_registered_with ::
  "api_pending \<Rightarrow> u64 \<Rightarrow> ('p \<Rightarrow> engine_response option \<times> 'p) \<Rightarrow> 'p \<Rightarrow> instant \<Rightarrow> instant \<Rightarrow> bool \<times> api_pending \<times> 'p" where
  "dispatch_registered_with st uid build p now now2 =
     (case map_of (ap_map st) uid of
        None \<Rightarrow> (False, snd (sweep_expired_locked st now False), p)
      | Some entry \<Rightarrow>
          (let st = st\<lparr>ap_map := map_remove uid (ap_map st)\<rparr>
           in if pe_deadline entry \<le> now then (False, st, p)
              else case build p of (built, p) \<Rightarrow>
                (case built of
                   Some resp \<Rightarrow>
                     (if er_request_uid resp = uid
                      then (True, st\<lparr>ap_sent := ap_sent st @ [(pe_tx entry, resp)]\<rparr>, p)
                      else (False, if pe_deadline entry > now2 then st\<lparr>ap_map := map_insert uid entry (ap_map st)\<rparr> else st, p))
                 | None \<Rightarrow>
                     (False, if pe_deadline entry > now2 then st\<lparr>ap_map := map_insert uid entry (ap_map st)\<rparr> else st, p))))"

definition api_pending_remove :: "api_pending \<Rightarrow> u64 \<Rightarrow> api_pending" where
  "api_pending_remove st uid = st\<lparr>ap_map := map_remove uid (ap_map st)\<rparr>"

section \<open>Route of a response\<close>

record decoded_payload =
  dp_raw :: payload
  dp_parsed_api :: "engine_response option option"

definition decoded_payload_from :: "payload \<Rightarrow> decoded_payload" where
  "decoded_payload_from raw = \<lparr>dp_raw = raw, dp_parsed_api = None\<rparr>"

definition parse_api :: "inflate \<Rightarrow> decoded_payload \<Rightarrow> engine_response option \<times> decoded_payload" where
  "parse_api inflate p =
     (case dp_parsed_api p of
        Some r \<Rightarrow> (r, p)
      | None \<Rightarrow> (let r = parse_engine_response inflate (payload_deref (dp_raw p)) in (r, p\<lparr>dp_parsed_api := Some r\<rparr>)))"

abbreviation "Method_GetStartupState \<equiv> EngineMethod 36"
abbreviation "Method_RequestMarketHistory \<equiv> EngineMethod 34"

definition method_applies_after_pending :: "engine_method \<Rightarrow> bool" where
  "method_applies_after_pending m \<longleftrightarrow> m \<in> {Method_GetMarketsList, Method_UpdateMarketsList, Method_GetStartupState}"

text \<open>What the waiter is given: for the methods it applies itself, the parsed response is moved out of the payload.\<close>

definition build_for_waiter :: "inflate \<Rightarrow> decoded_payload \<Rightarrow> engine_response option \<times> decoded_payload" where
  "build_for_waiter inflate p =
     (case parse_api inflate p of
        (None, p) \<Rightarrow> (None, p)
      | (Some r, p) \<Rightarrow>
          (if method_applies_after_pending (er_method r) then (Some r, p\<lparr>dp_parsed_api := Some None\<rparr>) else (Some r, p)))"

definition dispatch_api_pending_decoded ::
  "inflate \<Rightarrow> api_pending \<Rightarrow> u8 \<Rightarrow> decoded_payload \<Rightarrow> instant \<Rightarrow> instant \<Rightarrow> bool \<times> api_pending \<times> decoded_payload" where
  "dispatch_api_pending_decoded inflate st cmd p now now2 =
     (if cmd \<noteq> to_byte Command_API then (False, st, p)
      else case engine_response_request_uid_from_payload (payload_deref (dp_raw p)) of
             None \<Rightarrow> (False, st, p)
           | Some uid \<Rightarrow> dispatch_registered_with st uid (build_for_waiter inflate) p now now2)"

record partial_response =
  pt_aggregator :: chunk_aggregator
  pt_progress :: u64

datatype parse_job =
  Job_Candles u64 chunked_payload
| Job_MarketHistory u64 chunked_payload
| History_Failed u64 u32 bytes

text \<open>The completed payloads handed to the parser thread, and the failures reported to the callers, form \<open>pg_jobs\<close>.\<close>

record pending_api_state =
  pg_api :: api_pending
  pg_candles :: "(u64 \<times> partial_response) list"
  pg_history :: "(u64 \<times> partial_response) list"
  pg_jobs :: "parse_job list"

definition pending_api_new :: "instant \<Rightarrow> pending_api_state" where
  "pending_api_new now = \<lparr>pg_api = api_pending_default now, pg_candles = [], pg_history = [], pg_jobs = []\<rparr>"

definition chunk_into_partial :: "partial_response \<Rightarrow> payload \<Rightarrow> chunked_response_result \<times> partial_response" where
  "chunk_into_partial partial body =
     (case on_chunk (pt_aggregator partial) body of
        (r, a) \<Rightarrow>
          (r, \<lparr>pt_aggregator = a, pt_progress = (if r = CR_Ignored then pt_progress partial else pt_progress partial + 1)\<rparr>))"

definition handle_candles_chunk_in_pending ::
  "pending_api_state \<Rightarrow> engine_response \<Rightarrow> payload \<Rightarrow> bool \<times> pending_api_state" where
  "handle_candles_chunk_in_pending pg resp body =
     (let uid = er_request_uid resp
      in case map_of (pg_candles pg) uid of
           None \<Rightarrow> (False, pg)
         | Some partial \<Rightarrow>
             if \<not> er_success resp then (True, pg\<lparr>pg_candles := map_remove uid (pg_candles pg)\<rparr>)
             else (case chunk_into_partial partial body of
                     (CR_Complete zipped, partial) \<Rightarrow>
                       (True, pg\<lparr>pg_candles := map_remove uid (pg_candles pg), pg_jobs := pg_jobs pg @ [Job_Candles uid zipped]\<rparr>)
                   | (_, partial) \<Rightarrow> (True, pg\<lparr>pg_candles := map_insert uid partial (pg_candles pg)\<rparr>)))"

definition handle_market_history_chunk_in_pending ::
  "pending_api_state \<Rightarrow> engine_response \<Rightarrow> payload \<Rightarrow> bool \<times> pending_api_state" where
  "handle_market_history_chunk_in_pending pg resp body =
     (let uid = er_request_uid resp
      in case map_of (pg_history pg) uid of
           None \<Rightarrow> (False, pg)
         | Some partial \<Rightarrow>
             if \<not> er_success resp
             then (True, pg\<lparr>pg_history := map_remove uid (pg_history pg),
                            pg_jobs := pg_jobs pg @ [History_Failed uid (er_error_code resp) (er_error_msg resp)]\<rparr>)
             else (case chunk_into_partial partial body of
                     (CR_Complete compressed, partial) \<Rightarrow>
                       (True, pg\<lparr>pg_history := map_remove uid (pg_history pg), pg_jobs := pg_jobs pg @ [Job_MarketHistory uid compressed]\<rparr>)
                   | (_, partial) \<Rightarrow> (True, pg\<lparr>pg_history := map_insert uid partial (pg_history pg)\<rparr>)))"

definition dispatch_chunked_api_response ::
  "inflate \<Rightarrow> pending_api_state \<Rightarrow> u8 \<Rightarrow> payload \<Rightarrow> bool \<times> pending_api_state \<times> payload" where
  "dispatch_chunked_api_response inflate pg cmd p =
     (if cmd \<noteq> to_byte Command_API then (False, pg, p)
      else case (engine_response_method_from_payload (payload_deref p), engine_response_request_uid_from_payload (payload_deref p)) of
             (Some meth, Some uid) \<Rightarrow>
               (let registered = (if meth = Method_RequestCandlesData then map_of (pg_candles pg) uid \<noteq> None
                                  else if meth = Method_RequestMarketHistory then map_of (pg_history pg) uid \<noteq> None
                                  else False)
                in if \<not> registered then (False, pg, p)
                   else case parse_engine_response_owned inflate p of
                          (None, p) \<Rightarrow> (False, pg, p)
                        | (Some (resp, body), p) \<Rightarrow>
                            (if meth = Method_RequestCandlesData
                             then case handle_candles_chunk_in_pending pg resp body of (b, pg) \<Rightarrow> (b, pg, p)
                             else case handle_market_history_chunk_in_pending pg resp body of (b, pg) \<Rightarrow> (b, pg, p)))
           | _ \<Rightarrow> (False, pg, p))"

text \<open>How a response ends: absorbed by its waiter or collector, delivered with the client's bookkeeping of it, or
  passed on unparsed.\<close>

datatype api_outcome = Api_Absorbed | Api_Deliver engine_response decoded_payload | Api_Raw decoded_payload

definition process_api_command_decoded ::
  "inflate \<Rightarrow> pending_api_state \<Rightarrow> decoded_payload \<Rightarrow> bool \<Rightarrow> bool \<Rightarrow> instant \<Rightarrow> instant \<Rightarrow> api_outcome \<times> pending_api_state" where
  "process_api_command_decoded inflate pg p api_pending_consumed chunked_consumed now now2 =
     (if chunked_consumed then (Api_Absorbed, pg)
      else case dispatch_chunked_api_response inflate pg (to_byte Command_API) (dp_raw p) of
             (True, pg, raw) \<Rightarrow> (Api_Absorbed, pg)
           | (False, pg, raw) \<Rightarrow>
               (let p = p\<lparr>dp_raw := raw\<rparr>
                in case engine_response_meta_from_payload (payload_deref raw) of
                     None \<Rightarrow> (Api_Raw p, pg)
                   | Some meta \<Rightarrow>
                       if api_pending_consumed \<and> method_applies_after_pending (em_method meta) then (Api_Absorbed, pg)
                       else (case parse_api inflate p of
                               (None, p) \<Rightarrow> (Api_Raw p, pg)
                             | (Some resp, p) \<Rightarrow>
                                 (Api_Deliver resp p,
                                  if api_pending_consumed then pg
                                  else pg\<lparr>pg_api := fst (snd (dispatch_registered_with (pg_api pg) (er_request_uid resp)
                                                        (\<lambda>u. (Some resp, u)) () now now2))\<rparr>))))"

section \<open>The parser\<close>

lemma read_zero_tail_pos: "pos \<le> length data \<Longrightarrow> snd (read_zero_tail n data pos) = min (pos + n) (length data)"
  by (auto simp: read_zero_tail_def Let_def)

lemma read_zero_tail_full: "pos + n \<le> length data \<Longrightarrow> read_zero_tail n data pos = (slice pos (pos + n) data, pos + n)"
  by (auto simp: read_zero_tail_def slice_def Let_def)

text \<open>The fixed part of a header that has one, and the position of the error message.\<close>

lemma header_prefix:
  assumes "25 \<le> length data"
  shows "read_u64_zero_tail data 11 = (from_le (slice 11 19 data), 19)"
    "read_u8_zero_tail data 19 = (data ! 19, 20)" "read_u8_zero_tail data 20 = (data ! 20, 21)"
    "read_i32_zero_tail data 21 = (from_le (slice 21 25 data), 25)"
  using assms
  by (simp_all add: read_u64_zero_tail_def read_u8_zero_tail_def read_i32_zero_tail_def read_zero_tail_full)
    (simp_all add: slice_def take_Suc hd_drop_conv_nth)

lemma zero_tail_positions:
  "pos \<le> length data \<Longrightarrow> snd (read_u64_zero_tail data pos) = min (pos + 8) (length data)"
  "pos \<le> length data \<Longrightarrow> snd (read_u8_zero_tail data pos) = min (pos + 1) (length data)"
  "pos \<le> length data \<Longrightarrow> snd (read_i32_zero_tail data pos) = min (pos + 4) (length data)"
  using read_zero_tail_pos [of pos data]
  by (simp_all add: read_u64_zero_tail_def read_u8_zero_tail_def read_i32_zero_tail_def case_prod_unfold)

lemma header_short:
  assumes "length data < 27"
  shows "parse_response_header data = None"
proof (cases "length data < 11")
  case False
  define p where "p = snd (read_i32_zero_tail data (snd (read_u8_zero_tail data (snd (read_u8_zero_tail data
     (snd (read_u64_zero_tail data 11)))))))"
  have "p = min 25 (length data)" using False by (simp add: p_def zero_tail_positions)
  then have "read_string data p = None" using assms by (auto simp: read_string_def)
  with False show ?thesis
    by (simp add: parse_response_header_def case_prod_unfold Let_def flip: p_def)
qed (simp add: parse_response_header_def)

lemma header_meta:
  "map_option (\<lambda>(r, _). \<lparr>em_request_uid = er_request_uid r, em_method = er_method r, em_success = er_success r\<rparr>)
     (parse_response_header d) = engine_response_meta_from_payload d"
proof (cases "length d < 27")
  case True
  then show ?thesis
    by (auto simp: header_short engine_response_meta_from_payload_def get_range_def get_at_def split: option.split)
next
  case False
  then show ?thesis
    by (simp add: parse_response_header_def engine_response_meta_from_payload_def header_prefix get_range_def get_at_def
        read_string_def Let_def case_prod_unfold)
qed

lemma header_range:
  assumes "parse_response_header d = Some (r, (a, b), c)"
  shows "a \<le> b" "b \<le> length d" "er_data r = []"
proof -
  have l: "27 \<le> length d" using assms header_short [of d] by (cases "length d < 27") auto
  obtain e p where s: "read_string d 25 = Some (e, p)" "p \<le> length d"
    using assms l by (auto simp: parse_response_header_def header_prefix read_string_def Let_def split: if_splits)
  then have "snd (read_i32_zero_tail d (snd (read_u8_zero_tail d p))) \<le> length d"
    by (simp add: zero_tail_positions)
  then show "a \<le> b" "b \<le> length d" "er_data r = []"
    using assms l s by (auto simp: parse_response_header_def header_prefix Let_def case_prod_unfold)
qed

lemma owned_cases:
  obtains "parse_engine_response_owned inflate p = (None, p)" "parse_engine_response inflate (payload_deref p) = None"
  | r body where "parse_engine_response_owned inflate p = (Some (r, body), payload_default)"
      "parse_engine_response inflate (payload_deref p) = Some (r\<lparr>er_data := payload_deref body\<rparr>)"
proof (cases "parse_response_header (payload_deref p)")
  case None
  then show thesis using that(1) by (simp add: parse_engine_response_owned_def parse_engine_response_def)
next
  case (Some x)
  obtain r ab c where "x = (r, ab, c)" by (rule prod_cases3)
  moreover obtain a b where "ab = (a, b)" by (rule prod.exhaust)
  ultimately have x: "x = (r, (a, b), c)" by simp
  note hr = header_range [OF Some [unfolded x]]
  obtain q where q: "payload_restrict p a b = Some q" "payload_deref q = slice a b (payload_deref p)"
    using payload_restrict_visible [of p a b] hr by (cases "payload_restrict p a b") (auto simp: payload_restrict_def)
  have f: "payload_deref (payload_from body) = body" for body by (simp add: payload_from_def payload_deref_def)
  show thesis
  proof (cases c)
    case True
    then show thesis
      using Some x f that(1) that(2) [of r "payload_from body" for body]
      by (cases "decode_body inflate (slice a b (payload_deref p)) True")
        (auto simp: parse_engine_response_owned_def parse_engine_response_def)
  next
    case False
    then show thesis
      using Some x q that(2) [of r q] by (simp add: parse_engine_response_owned_def parse_engine_response_def decode_body_def)
  qed
qed

text \<open>C10: The two parsers of a response agree.  Parsing that takes the body out of the receive buffer succeeds
  exactly when the copying parser does, with the same fields and the same body bytes; when it fails the buffer is
  untouched, and it never runs out of bounds.\<close>

theorem owned_parse_agrees:
  "map_option (\<lambda>(r, body). r\<lparr>er_data := payload_deref body\<rparr>) (fst (parse_engine_response_owned inflate p)) =
     parse_engine_response inflate (payload_deref p)
   \<and> (fst (parse_engine_response_owned inflate p) = None \<and> snd (parse_engine_response_owned inflate p) = p
      \<or> snd (parse_engine_response_owned inflate p) = payload_default)"
  by (rule owned_cases [of inflate p]) simp_all

section \<open>Waiting callers are answered at most once\<close>

text \<open>The calls the registry sees, in any order; for a dispatch, the response that was built from the payload.\<close>

datatype pending_op =
  PO_Register u64 instant instant
| PO_Remove u64
| PO_Dispatch u64 "engine_response option" instant instant

text \<open>The registry with the history of its registrations: receiver, uid and deadline.\<close>

primrec pending_step :: "api_pending \<times> (nat \<times> u64 \<times> instant) list \<Rightarrow> pending_op \<Rightarrow> api_pending \<times> (nat \<times> u64 \<times> instant) list" where
  "pending_step s (PO_Register uid timeout now) =
     (case register_with_timeout (fst s) uid timeout now of (rx, st) \<Rightarrow> (st, snd s @ [(rx, uid, deadline_from now timeout)]))"
| "pending_step s (PO_Remove uid) = (api_pending_remove (fst s) uid, snd s)"
| "pending_step s (PO_Dispatch uid built now now2) =
     (fst (snd (dispatch_registered_with (fst s) uid (\<lambda>u. (built, u)) () now now2)), snd s)"

definition pending_inv :: "api_pending \<times> (nat \<times> u64 \<times> instant) list \<Rightarrow> bool" where
  "pending_inv s \<longleftrightarrow>
     (let st = fst s; regs = snd s
      in distinct (map fst (ap_map st))
         \<and> distinct (map fst (ap_sent st) @ map (pe_tx \<circ> snd) (ap_map st))
         \<and> (\<forall>(uid, e) \<in> set (ap_map st). (pe_tx e, uid, pe_deadline e) \<in> set regs)
         \<and> (\<forall>(rx, r) \<in> set (ap_sent st). \<exists>dl. (rx, er_request_uid r, dl) \<in> set regs)
         \<and> (\<forall>r \<in> set regs. fst r < ap_next_rx st) \<and> distinct (map fst regs))"

lemma tx_below:
  assumes "pending_inv s" "(uid, e) \<in> set (ap_map (fst s))"
  shows "pe_tx e < ap_next_rx (fst s)"
  using assms unfolding pending_inv_def Let_def by fastforce

lemma sent_below:
  assumes "pending_inv s" "(rx, r) \<in> set (ap_sent (fst s))"
  shows "rx < ap_next_rx (fst s)"
  using assms unfolding pending_inv_def Let_def by fastforce

text \<open>Dropping entries keeps the invariant.\<close>

lemma pending_inv_filter:
  assumes "pending_inv (st, regs)"
  shows "pending_inv (st\<lparr>ap_last_sweep := t, ap_map := filter P (ap_map st)\<rparr>, regs)"
  using assms by (auto simp: pending_inv_def distinct_map_filter comp_def)

lemma pending_inv_sweep:
  "pending_inv (st, regs) \<Longrightarrow> pending_inv (snd (sweep_expired_locked st now force), regs)"
  using pending_inv_filter [of st regs] by (simp add: sweep_expired_locked_def Let_def)

lemma pending_inv_remove: "pending_inv (st, regs) \<Longrightarrow> pending_inv (st\<lparr>ap_map := map_remove uid (ap_map st)\<rparr>, regs)"
  using pending_inv_filter [where st = st and P = "\<lambda>e. fst e \<noteq> uid" and t = "ap_last_sweep st" and regs = regs]
  by (simp add: map_remove_def)

text \<open>A removed entry is fresh again with respect to what is left.\<close>

lemma removed_tx_fresh:
  assumes "pending_inv (st, regs)" "map_of (ap_map st) uid = Some e"
  shows "pe_tx e \<notin> (pe_tx \<circ> snd) ` set (map_remove uid (ap_map st))" "pe_tx e \<notin> fst ` set (ap_sent st)"
    "(pe_tx e, uid, pe_deadline e) \<in> set regs"
proof -
  have e: "(uid, e) \<in> set (ap_map st)" using assms(2) by (rule map_of_SomeD)
  have d: "distinct (map fst (ap_sent st) @ map (pe_tx \<circ> snd) (ap_map st))"
    using assms(1) by (simp add: pending_inv_def)
  then have inj: "inj_on (pe_tx \<circ> snd) (set (ap_map st))" by (simp add: distinct_map)
  show "pe_tx e \<notin> (pe_tx \<circ> snd) ` set (map_remove uid (ap_map st))"
  proof
    assume "pe_tx e \<in> (pe_tx \<circ> snd) ` set (map_remove uid (ap_map st))"
    then obtain x where x: "x \<in> set (ap_map st)" "fst x \<noteq> uid" "pe_tx (snd x) = pe_tx e"
      by (auto simp: set_map_remove)
    then show False using inj_onD [OF inj, of x "(uid, e)"] e by auto
  qed
  show "pe_tx e \<notin> fst ` set (ap_sent st)" using d e by force
  show "(pe_tx e, uid, pe_deadline e) \<in> set regs" using assms(1) e by (auto simp: pending_inv_def)
qed

lemma pending_inv_reinsert:
  assumes "pending_inv (st, regs)" "map_of (ap_map st) uid = Some e"
  shows "pending_inv (st\<lparr>ap_map := map_insert uid e (map_remove uid (ap_map st))\<rparr>, regs)"
proof -
  have "map_remove uid (map_remove uid m) = map_remove uid m" for m :: "(u64 \<times> pending_entry) list"
    by (simp add: map_remove_def)
  then show ?thesis
    using pending_inv_remove [OF assms(1), of uid] removed_tx_fresh [OF assms]
    by (auto simp: pending_inv_def map_insert_def set_map_remove)
qed

lemma pending_inv_send:
  assumes "pending_inv (st, regs)" "map_of (ap_map st) uid = Some e" "er_request_uid r = uid"
  shows "pending_inv (st\<lparr>ap_map := map_remove uid (ap_map st), ap_sent := ap_sent st @ [(pe_tx e, r)]\<rparr>, regs)"
  using pending_inv_remove [OF assms(1), of uid] removed_tx_fresh [OF assms(1,2)] assms(3)
  by (auto simp: pending_inv_def)

lemma pending_inv_dispatch:
  assumes "pending_inv (st, regs)"
  shows "pending_inv (fst (snd (dispatch_registered_with st uid build p now now2)), regs)"
proof (cases "map_of (ap_map st) uid")
  case None
  then show ?thesis by (simp add: dispatch_registered_with_def pending_inv_sweep [OF assms])
next
  case (Some e)
  then show ?thesis
    using pending_inv_remove [OF assms, of uid] pending_inv_reinsert [OF assms Some] pending_inv_send [OF assms Some]
    by (auto simp: dispatch_registered_with_def Let_def split: prod.splits option.splits)
qed

lemma pending_inv_register:
  assumes "pending_inv (st, regs)" "register_with_timeout st uid timeout now = (rx, st')"
  shows "pending_inv (st', regs @ [(rx, uid, deadline_from now timeout)])"
proof -
  define st1 where "st1 = snd (sweep_expired_locked (st\<lparr>ap_next_rx := ap_next_rx st + 1\<rparr>) now False)"
  have r: "rx = ap_next_rx st" "st' = st1\<lparr>ap_map := map_insert uid \<lparr>pe_tx = rx, pe_deadline = deadline_from now timeout\<rparr> (ap_map st1)\<rparr>"
    using assms(2) by (auto simp: register_with_timeout_def st1_def Let_def)
  have "pending_inv (st\<lparr>ap_next_rx := ap_next_rx st + 1\<rparr>, regs)"
    using assms(1) by (auto simp: pending_inv_def)
  then have i: "pending_inv (st1, regs)" unfolding st1_def by (rule pending_inv_sweep)
  have s: "set (ap_map st1) \<subseteq> set (ap_map st)" "ap_sent st1 = ap_sent st" "ap_next_rx st1 = Suc rx"
    by (auto simp: st1_def sweep_expired_locked_def Let_def r(1))
  have f: "rx \<notin> (pe_tx \<circ> snd) ` set (ap_map st1)" "rx \<notin> fst ` set (ap_sent st1)" "rx \<notin> fst ` set regs"
    using tx_below [OF assms(1)] sent_below [OF assms(1)] assms(1) s(1,2) by (force simp: r(1) pending_inv_def)+
  show ?thesis
    using pending_inv_remove [OF i, of uid] f s(2,3)
    by (auto simp: pending_inv_def r(2) map_insert_def set_map_remove less_Suc_eq)
qed

lemma pending_inv_step: "pending_inv s \<Longrightarrow> pending_inv (pending_step s op)"
  using pending_inv_register [of "fst s" "snd s"] pending_inv_remove [of "fst s" "snd s"] pending_inv_dispatch [of "fst s" "snd s"]
  by (cases op) (simp_all add: api_pending_remove_def case_prod_unfold)

text \<open>C8: A caller that waits for a response is answered at most once, and with its response: whatever sequence of
  registrations, cancellations and arrivals the registry sees, also with repeated, expired, malformed and unknown
  responses, no channel is written twice, and what is written into a channel carries the uid the channel was
  registered for.\<close>

theorem waiter_answered_once:
  assumes "(st, regs) = foldl pending_step (api_pending_default now, []) ops"
  shows "distinct (map fst (ap_sent st)) \<and>
     (\<forall>rx r. (rx, r) \<in> set (ap_sent st) \<longrightarrow> (\<exists>dl. (rx, er_request_uid r, dl) \<in> set regs)) \<and> distinct (map fst regs)"
proof -
  have "pending_inv s \<Longrightarrow> pending_inv (foldl pending_step s ops)" for s
    by (induction ops arbitrary: s) (simp_all add: pending_inv_step)
  moreover have "pending_inv (api_pending_default now, [])" by (simp add: pending_inv_def api_pending_default_def)
  ultimately have "pending_inv (st, regs)" using assms by simp
  then show ?thesis by (auto simp: pending_inv_def)
qed

theorem waiter_answered_once_witness:
  "\<exists>r. map fst (ap_sent (fst (foldl pending_step (api_pending_default 0, [])
        [PO_Register 7 12 0, PO_Dispatch 7 (Some r) 1 2, PO_Dispatch 7 (Some r) 2 3]))) = [0]
     \<and> distinct (map fst (ap_sent (fst (foldl pending_step (api_pending_default 0, [])
        [PO_Register 7 12 0, PO_Dispatch 7 (Some r) 1 2, PO_Dispatch 7 (Some r) 2 3]))))"
proof -
  define r where "r = \<lparr>er_ver = 3, er_request_uid = 7, er_method = EngineMethod 1, er_success = True, er_error_code = 0,
                       er_error_msg = [], er_data = []\<rparr>"
  let ?ops = "[PO_Register 7 12 0, PO_Dispatch 7 (Some r) 1 2, PO_Dispatch 7 (Some r) 2 3]"
  obtain st regs where s: "(st, regs) = foldl pending_step (api_pending_default 0, []) ?ops" by (metis surj_pair)
  have "map fst (ap_sent (fst (foldl pending_step (api_pending_default 0, []) ?ops))) = [0]"
    by (simp add: register_with_timeout_def dispatch_registered_with_def sweep_expired_locked_def api_pending_default_def
        map_insert_def map_remove_def SWEEP_INTERVAL_def r_def deadline_from_def INSTANT_MAX_def)
  moreover have "distinct (map fst (ap_sent (fst (foldl pending_step (api_pending_default 0, []) ?ops))))"
    using waiter_answered_once [OF s] by (simp only: s [symmetric] fst_conv)
  ultimately show ?thesis by (intro exI conjI)
qed

section \<open>No response is lost\<close>

lemma parse_engine_response_header:
  "parse_engine_response inflate d = Some r \<Longrightarrow>
     \<exists>h ab c. parse_response_header d = Some (h, ab, c) \<and> er_request_uid r = er_request_uid h \<and> er_method r = er_method h"
  by (auto simp: parse_engine_response_def split: option.splits)

text \<open>Peeking at the uid and the method of a response agrees with parsing it.\<close>

lemma parsed_meta:
  assumes "parse_engine_response inflate d = Some r"
  shows "engine_response_request_uid_from_payload d = Some (er_request_uid r)"
    "engine_response_method_from_payload d = Some (er_method r)"
    "\<exists>meta. engine_response_meta_from_payload d = Some meta \<and> em_method meta = er_method r"
proof -
  obtain h ab c where h: "parse_response_header d = Some (h, ab, c)" "er_request_uid r = er_request_uid h" "er_method r = er_method h"
    using parse_engine_response_header [OF assms] by blast
  then have m: "engine_response_meta_from_payload d =
      Some \<lparr>em_request_uid = er_request_uid r, em_method = er_method r, em_success = er_success h\<rparr>"
    using header_meta [of d] by simp
  then show "\<exists>meta. engine_response_meta_from_payload d = Some meta \<and> em_method meta = er_method r" by simp
  from m show "engine_response_request_uid_from_payload d = Some (er_request_uid r)"
    "engine_response_method_from_payload d = Some (er_method r)"
    by (auto simp: engine_response_meta_from_payload_def engine_response_request_uid_from_payload_def
        engine_response_method_from_payload_def split: option.splits if_splits)
qed

lemma handle_chunk_registered:
  "map_of (pg_candles pg) (er_request_uid r) \<noteq> None \<Longrightarrow> fst (handle_candles_chunk_in_pending pg r body)"
  "map_of (pg_history pg) (er_request_uid r) \<noteq> None \<Longrightarrow> fst (handle_market_history_chunk_in_pending pg r body)"
  by (auto simp: handle_candles_chunk_in_pending_def handle_market_history_chunk_in_pending_def Let_def
      split: prod.splits option.splits chunked_response_result.splits)

text \<open>A response goes into the collector registered for its method and uid, or its payload is left alone.\<close>

definition collector_for :: "pending_api_state \<Rightarrow> engine_response \<Rightarrow> bool" where
  "collector_for pg r \<longleftrightarrow>
     er_method r = Method_RequestCandlesData \<and> map_of (pg_candles pg) (er_request_uid r) \<noteq> None
     \<or> er_method r = Method_RequestMarketHistory \<and> map_of (pg_history pg) (er_request_uid r) \<noteq> None"

lemma chunked_dispatch_cases:
  assumes "dispatch_chunked_api_response inflate pg cmd p = (b, pg', p')"
  obtains "\<not> b" "pg' = pg" "p' = p"
  | r where b "parse_engine_response inflate (payload_deref p) = Some r" "collector_for pg r" "pg_api pg' = pg_api pg"
proof (rule owned_cases [of inflate p])
  assume "parse_engine_response_owned inflate p = (None, p)"
  then show thesis
    using assms that(1) by (auto simp: dispatch_chunked_api_response_def Let_def split: if_splits option.splits)
next
  fix r body
  assume o: "parse_engine_response_owned inflate p = (Some (r, body), payload_default)"
    and pr: "parse_engine_response inflate (payload_deref p) = Some (r\<lparr>er_data := payload_deref body\<rparr>)"
  have m: "engine_response_request_uid_from_payload (payload_deref p) = Some (er_request_uid r)"
    "engine_response_method_from_payload (payload_deref p) = Some (er_method r)"
    using parsed_meta(1,2) [OF pr] by simp_all
  have api: "pg_api (snd (handle_candles_chunk_in_pending pg r body)) = pg_api pg"
    "pg_api (snd (handle_market_history_chunk_in_pending pg r body)) = pg_api pg"
    by (auto simp: handle_candles_chunk_in_pending_def handle_market_history_chunk_in_pending_def Let_def
        split: prod.splits option.splits chunked_response_result.splits)
  show thesis
  proof (cases "cmd = to_byte Command_API \<and> collector_for pg r")
    case True
    then have "b" "pg_api pg' = pg_api pg"
      using assms o m api handle_chunk_registered [of pg r body]
      by (auto simp: dispatch_chunked_api_response_def collector_for_def Let_def case_prod_unfold split: if_splits)
    then show thesis using that(2) pr True by (simp add: collector_for_def)
  next
    case False
    then show thesis
      using assms m that(1) by (auto simp: dispatch_chunked_api_response_def collector_for_def Let_def split: if_splits)
  qed
qed

lemma api_pending_cases:
  assumes "dispatch_api_pending_decoded inflate st cmd (decoded_payload_from raw) now now2 = (b, st', p)"
  obtains "\<not> b" "ap_sent st' = ap_sent st" "dp_raw p = raw"
      "dp_parsed_api p = None \<or> dp_parsed_api p = Some (parse_engine_response inflate (payload_deref raw))"
  | rx r where b "parse_engine_response inflate (payload_deref raw) = Some r" "ap_sent st' = ap_sent st @ [(rx, r)]" "dp_raw p = raw"
      "method_applies_after_pending (er_method r) \<or> dp_parsed_api p = Some (Some r)"
proof -
  let ?d = "payload_deref raw" and ?p = "decoded_payload_from raw"
  have sw: "ap_sent (snd (sweep_expired_locked s t f)) = ap_sent s" for s t f
    by (simp add: sweep_expired_locked_def Let_def)
  show thesis
  proof (cases "parse_engine_response inflate ?d")
    case None
    then have "build_for_waiter inflate ?p = (None, ?p\<lparr>dp_parsed_api := Some None\<rparr>)"
      by (simp add: build_for_waiter_def parse_api_def decoded_payload_from_def)
    then show thesis
      using assms that(1) None sw
      by (auto simp: dispatch_api_pending_decoded_def dispatch_registered_with_def decoded_payload_from_def Let_def
          split: if_splits option.splits)
  next
    case (Some r)
    then have "build_for_waiter inflate ?p = (Some r, ?p\<lparr>dp_parsed_api := Some (if method_applies_after_pending (er_method r) then None else Some r)\<rparr>)"
      by (simp add: build_for_waiter_def parse_api_def decoded_payload_from_def Let_def)
    then show thesis
      using assms that Some sw parsed_meta(1) [OF Some]
      by (auto simp: dispatch_api_pending_decoded_def dispatch_registered_with_def decoded_payload_from_def Let_def
          split: if_splits option.splits)
  qed
qed

lemma parse_api_raw: "parse_api inflate p = (r, q) \<Longrightarrow> dp_raw q = dp_raw p"
  by (auto simp: parse_api_def Let_def split: option.splits)

lemma process_api_raw:
  assumes "process_api_command_decoded inflate pg p b1 b2 n1 n2 = (out, pg')" "out = Api_Deliver r q \<or> out = Api_Raw q"
  shows "dp_raw q = dp_raw p \<and> \<not> b2"
proof -
  obtain b pg2 raw where d: "dispatch_chunked_api_response inflate pg (to_byte Command_API) (dp_raw p) = (b, pg2, raw)"
    by (metis prod_cases3)
  have "\<not> b \<Longrightarrow> raw = dp_raw p" using chunked_dispatch_cases [OF d] by blast
  then show ?thesis
    using assms d
    by (cases b) (auto simp: process_api_command_decoded_def Let_def split: if_splits option.splits prod.splits
        dest: parse_api_raw)
qed

text \<open>The path of one received Engine API response: the waiting caller, the collectors, then the ordinary data path.\<close>

definition api_receive ::
  "inflate \<Rightarrow> pending_api_state \<Rightarrow> payload \<Rightarrow> (nat \<Rightarrow> instant) \<Rightarrow> api_outcome \<times> pending_api_state" where
  "api_receive inflate pg raw clock =
     (case dispatch_api_pending_decoded inflate (pg_api pg) (to_byte Command_API) (decoded_payload_from raw) (clock 0) (clock 1) of
        (consumed, api, p) \<Rightarrow>
          (case dispatch_chunked_api_response inflate (pg\<lparr>pg_api := api\<rparr>) (to_byte Command_API) (dp_raw p) of
             (chunked, pg, raw) \<Rightarrow>
               process_api_command_decoded inflate pg (p\<lparr>dp_raw := raw\<rparr>) consumed chunked (clock 2) (clock 3)))"

text \<open>C7: No Engine API response is lost.  Every response that arrives is absorbed by the one who asked for it - a
  waiting caller of one of the methods that apply their own result, or the collector registered for its method and uid -
  or it is delivered with its payload intact: parsed when it is well formed, raw only when it is not.\<close>

theorem api_response_not_lost:
  "case api_receive inflate pg raw clock of (out, pg') \<Rightarrow>
     (case out of
        Api_Deliver r p \<Rightarrow> dp_raw p = raw \<and> parse_engine_response inflate (payload_deref raw) = Some r
      | Api_Raw p \<Rightarrow> dp_raw p = raw \<and> parse_engine_response inflate (payload_deref raw) = None
      | Api_Absorbed \<Rightarrow>
          (\<exists>r. parse_engine_response inflate (payload_deref raw) = Some r \<and>
             (collector_for pg r \<or>
              method_applies_after_pending (er_method r) \<and>
              (\<exists>rx. ap_sent (pg_api pg') = ap_sent (pg_api pg) @ [(rx, r)]))))"
proof -
  obtain b1 api p where 1: "dispatch_api_pending_decoded inflate (pg_api pg) (to_byte Command_API) (decoded_payload_from raw)
      (clock 0) (clock 1) = (b1, api, p)" by (metis prod_cases3)
  let ?pg = "pg\<lparr>pg_api := api\<rparr>"
  have coll: "collector_for ?pg r = collector_for pg r" for r by (simp add: collector_for_def)
  have raw: "dp_raw p = raw" using 1 by (rule api_pending_cases) auto
  obtain b2 pg2 raw2 where 2: "dispatch_chunked_api_response inflate ?pg (to_byte Command_API) raw = (b2, pg2, raw2)"
    by (metis prod_cases3)
  have run: "api_receive inflate pg raw clock =
      process_api_command_decoded inflate pg2 (p\<lparr>dp_raw := raw2\<rparr>) b1 b2 (clock 2) (clock 3)"
    by (simp only: api_receive_def 1 raw 2 prod.case)
  show ?thesis
  proof (rule chunked_dispatch_cases [OF 2])
    fix r
    assume "b2" "parse_engine_response inflate (payload_deref raw) = Some r" "collector_for ?pg r"
    then show ?thesis by (simp add: run process_api_command_decoded_def coll)
  next
    assume c: "\<not> b2" "pg2 = ?pg" "raw2 = raw"
    have p: "p\<lparr>dp_raw := raw\<rparr> = p" using raw by simp
    note run = run [unfolded process_api_command_decoded_def c(2,3) p] and c = c(1) 2 [unfolded c(2,3)]
    show ?thesis
    proof (rule api_pending_cases [OF 1])
      assume "\<not> b1" "dp_parsed_api p = None \<or> dp_parsed_api p = Some (parse_engine_response inflate (payload_deref raw))"
      then show ?thesis
        using c raw parsed_meta(3) [of inflate "payload_deref raw"]
        by (cases "parse_engine_response inflate (payload_deref raw)")
          (auto simp: run parse_api_def Let_def split: option.splits)
    next
      fix rx r
      assume "b1" and r: "parse_engine_response inflate (payload_deref raw) = Some r" "ap_sent api = ap_sent (pg_api pg) @ [(rx, r)]"
        "method_applies_after_pending (er_method r) \<or> dp_parsed_api p = Some (Some r)"
      moreover obtain meta where "engine_response_meta_from_payload (payload_deref raw) = Some meta" "em_method meta = er_method r"
        using parsed_meta(3) [OF r(1)] by blast
      ultimately show ?thesis
        using c raw by (auto simp: run parse_api_def Let_def)
    qed
  qed
qed

end
