(* ===== verification/Transport.thy ===== *)
theory Transport
  imports Wire Crypto
begin

text \<open>
  The wire layer of \<^verbatim>\<open>transport/\<close>: the SipHash-1-3 transport MAC (\<^verbatim>\<open>mac.rs\<close>), the xoroshiro128+
  whitening (\<^verbatim>\<open>outer_crypt.rs\<close>), the STUN and DNS transport modes (\<^verbatim>\<open>extended.rs\<close>) and the packing
  and unpacking of whole datagrams (\<^verbatim>\<open>mod.rs\<close>).
\<close>

section \<open>SipHash-1-3\<close>

type_synonym sip_state = "u64 \<times> u64 \<times> u64 \<times> u64"

definition sipround :: "sip_state \<Rightarrow> sip_state" where
  "sipround st =
     (let (v0, v1, v2, v3) = st;
          v0 = v0 + v1;
          v1 = word_rotl 13 v1;
          v1 = v1 XOR v0;
          v0 = word_rotl 32 v0;
          v2 = v2 + v3;
          v3 = word_rotl 16 v3;
          v3 = v3 XOR v2;
          v0 = v0 + v3;
          v3 = word_rotl 21 v3;
          v3 = v3 XOR v0;
          v2 = v2 + v1;
          v1 = word_rotl 17 v1;
          v1 = v1 XOR v2;
          v2 = word_rotl 32 v2
      in (v0, v1, v2, v3))"

text \<open>One block: xor it into \<open>v3\<close>, one round, xor it into \<open>v0\<close>.\<close>

definition sip_block :: "sip_state \<Rightarrow> u64 \<Rightarrow> sip_state" where
  "sip_block st m =
     (let (v0, v1, v2, v3) = st;
          (w0, w1, w2, w3) = sipround (v0, v1, v2, v3 XOR m)
      in (w0 XOR m, w1, w2, w3))"

definition sip_tail :: "nat \<Rightarrow> bytes \<Rightarrow> u64" where
  "sip_tail len rest =
     foldl (\<lambda>b (i, byte). b OR push_bit (8 * i) (ucast byte)) (push_bit 56 (of_nat len)) (enumerate 0 rest)"

definition siphash13_finish :: "sip_state \<Rightarrow> bytes \<Rightarrow> u32" where
  "siphash13_finish st data =
     (let (chunks, rest) = chunks_exact 8 data;
          st = foldl (\<lambda>st chunk. sip_block st (from_le chunk)) st chunks;
          st = sip_block st (sip_tail (length data) rest);
          (v0, v1, v2, v3) = st;
          (v0, v1, v2, v3) = sipround (sipround (sipround (v0, v1, v2 XOR 0xff, v3)))
      in ucast (v0 XOR v1 XOR v2 XOR v3))"

definition siphash13_init :: "bytes \<Rightarrow> sip_state" where
  "siphash13_init key =
     (let k0 = from_le (slice 0 8 key); k1 = from_le (slice 8 16 key)
      in (k0 XOR 0x736f6d6570736575, k1 XOR 0x646f72616e646f6d,
          k0 XOR 0x6c7967656e657261, k1 XOR 0x7465646279746573))"

definition calculate_mac32 :: "bytes \<Rightarrow> bytes \<Rightarrow> u32" where
  "calculate_mac32 key data = siphash13_finish (siphash13_init key) data"

record mac_context =
  mc_state :: sip_state
  mc_obf_key :: bytes

definition mac_context_new :: "(bytes \<Rightarrow> nat \<Rightarrow> bytes) \<Rightarrow> bytes \<Rightarrow> mac_context" where
  "mac_context_new shake key =
     \<lparr>mc_state = siphash13_init key, mc_obf_key = derive_obfuscation_key shake key\<rparr>"

definition mac :: "mac_context \<Rightarrow> bytes \<Rightarrow> u32" where
  "mac ctx data = siphash13_finish (mc_state ctx) data"

section \<open>Outer whitening\<close>

definition next_keystream :: "u64 \<times> u64 \<Rightarrow> u64 \<times> (u64 \<times> u64)" where
  "next_keystream st =
     (let (s0, s1) = st;
          ks = s0 + s1;
          ks = ks XOR drop_bit 11 ks;
          ks = ks XOR drop_bit 23 ks;
          t = s1 XOR s0
      in (ks, (word_rotl 55 s0 XOR t XOR push_bit 14 t, word_rotl 36 t)))"

primrec crypt_chunks :: "u64 \<times> u64 \<Rightarrow> bytes list \<Rightarrow> bytes list \<times> (u64 \<times> u64)" where
  "crypt_chunks st [] = ([], st)"
| "crypt_chunks st (c # cs) =
     (let (ks, st1) = next_keystream st;
          (cs', st2) = crypt_chunks st1 cs
      in (le_bytes 8 (from_le c XOR ks) # cs', st2))"

primrec crypt_tail :: "u64 \<times> u64 \<Rightarrow> bytes \<Rightarrow> bytes" where
  "crypt_tail st [] = []"
| "crypt_tail st (b # bs) =
     (let (ks, st1) = next_keystream st in (b XOR ucast ks) # crypt_tail st1 bs)"

definition whiten_state :: "bytes \<Rightarrow> byte \<Rightarrow> u64 \<times> u64" where
  "whiten_state key seed_byte =
     (let seed = ucast seed_byte :: u64
      in (from_le (slice 0 8 key) XOR seed,
          from_le (slice 8 16 key) XOR (seed * 0x9E3779B97F4A7C15)))"

definition outer_light_crypt :: "bytes \<Rightarrow> bytes \<Rightarrow> bytes" where
  "outer_light_crypt key buf =
     (if length buf \<le> 1 then buf
      else let (chunks, rest) = chunks_exact 8 (drop 1 buf);
               (chunks', st) = crypt_chunks (whiten_state key (buf ! 0)) chunks
           in buf ! 0 # concat chunks' @ crypt_tail st rest)"

section \<open>Transport modes\<close>

definition STUN_MAGIC :: bytes where
  "STUN_MAGIC = [0x21, 0x12, 0xA4, 0x42]"

definition DNS_WARMUP_REQUEST :: bytes where
  "DNS_WARMUP_REQUEST =
     [0x4D, 0x50, 0x01, 0x00, 0x00, 0x01, 0x00, 0x00, 0x00, 0x00, 0x00, 0x00, 0x00,
      0x00, 0x01, 0x00, 0x01]"

definition DNS_WARMUP_RESPONSE :: bytes where
  "DNS_WARMUP_RESPONSE =
     [0x4D, 0x50, 0x81, 0x80, 0x00, 0x01, 0x00, 0x00, 0x00, 0x00, 0x00, 0x00, 0x00,
      0x00, 0x01, 0x00, 0x01]"

definition DNS_WARMUP_INTERVAL :: u32 where
  "DNS_WARMUP_INTERVAL = 100"

record mode_state =
  sent_count_dns :: u32

definition mode_state_new :: mode_state where
  "mode_state_new = \<lparr>sent_count_dns = 0\<rparr>"

definition next_dns_warmup_packet :: "mode_state \<Rightarrow> bytes option \<times> mode_state" where
  "next_dns_warmup_packet st =
     (if sent_count_dns st mod DNS_WARMUP_INTERVAL = 0 then Some DNS_WARMUP_REQUEST else None,
      st\<lparr>sent_count_dns := sent_count_dns st + 1\<rparr>)"

definition wrap_in_stun :: "bytes \<Rightarrow> bool \<Rightarrow> bytes" where
  "wrap_in_stun data is_server =
     (let data_len = length data;
          type_bytes = (if is_server then [0x01, 0x01] else [0x00, 0x01])
      in if data_len = 0 then data
         else if data_len \<le> 11
         then type_bytes @ [0, 0] @ STUN_MAGIC @ [of_nat data_len] @ data @ replicate (11 - data_len) 0
         else let attr_len = 4 + (data_len - 12);
                  payload_len = data_len - 12
              in type_bytes @ [of_nat (attr_len div 256), of_nat (attr_len mod 256)] @ STUN_MAGIC @
                 take 12 data @ [0x00, 0x13, of_nat (payload_len div 256), of_nat (payload_len mod 256)] @
                 drop 12 data)"

definition unwrap_from_stun :: "bytes \<Rightarrow> bytes option" where
  "unwrap_from_stun raw =
     (if length raw < 20 then None
      else if slice 4 8 raw \<noteq> STUN_MAGIC then None
      else if \<not> (raw ! 1 = 0x01 \<and> (raw ! 0 = 0x00 \<or> raw ! 0 = 0x01)) then None
      else let len = unat (raw ! 2) * 256 + unat (raw ! 3)
           in if len = 0
              then let payload_len = unat (raw ! 8)
                   in if \<not> (1 \<le> payload_len \<and> payload_len \<le> 11) then None
                      else Some (slice 9 (9 + payload_len) raw)
              else if length raw < 24 then None
              else if raw ! 20 \<noteq> 0x00 \<or> raw ! 21 \<noteq> 0x13 then None
              else let attr_len = unat (raw ! 22) * 256 + unat (raw ! 23)
                   in if length raw < 24 + attr_len then None
                      else Some (slice 8 20 raw @ slice 24 (24 + attr_len) raw))"

definition is_dns_warmup :: "bytes \<Rightarrow> bool" where
  "is_dns_warmup data \<longleftrightarrow>
     \<not> length data < 17 \<and>
     \<not> (data ! 0 \<noteq> 0x4D \<or> data ! 1 \<noteq> 0x50) \<and>
     ((data ! 2 = 0x01 \<and> data ! 3 = 0x00) \<or> (data ! 2 = 0x81 \<and> data ! 3 = 0x80)) \<and>
     \<not> (data ! 4 \<noteq> 0x00 \<or> data ! 5 \<noteq> 0x01) \<and>
     \<not> data ! 12 \<noteq> 0x00"

definition wrap_client_packet :: "bytes \<Rightarrow> u8 \<Rightarrow> mode_state \<Rightarrow> bytes \<times> bytes option \<times> mode_state" where
  "wrap_client_packet data mask_ver st =
     (if mask_ver = 1 then (wrap_in_stun data False, None, st)
      else if mask_ver = 2 then (data, next_dns_warmup_packet st)
      else (data, None, st))"

definition unwrap_server_packet :: "bytes \<Rightarrow> u8 \<Rightarrow> bytes option" where
  "unwrap_server_packet raw mask_ver =
     (if mask_ver = 1 then unwrap_from_stun raw
      else if mask_ver = 2 \<and> is_dns_warmup raw then None
      else Some raw)"

definition normalize_mode :: "u8 \<Rightarrow> u8" where
  "normalize_mode mask_ver = (if mask_ver = 1 \<or> mask_ver = 2 then mask_ver else 0)"

section \<open>Datagrams\<close>

text \<open>\<open>rnd\<close> is the random seed byte of the header.\<close>

definition pack_client_packet ::
  "mac_context \<Rightarrow> u8 \<Rightarrow> u8 \<Rightarrow> u64 \<Rightarrow> bytes \<Rightarrow> u8 \<Rightarrow> mode_state \<Rightarrow> bytes \<times> bytes option \<times> mode_state" where
  "pack_client_packet ctx rnd cmd client_id payload mask_ver st =
     (let hdr = client_header_new rnd cmd client_id;
          buf = client_header_to_bytes hdr @ payload;
          buf = overwrite 1 (le_bytes 4 (mac ctx buf)) buf;
          buf = outer_light_crypt (mc_obf_key ctx) buf
      in wrap_client_packet buf (normalize_mode mask_ver) st)"

definition transport_unpack_with_mac ::
  "mac_context \<Rightarrow> bytes \<Rightarrow> u8 \<Rightarrow> (server_msg_header \<times> payload) option" where
  "transport_unpack_with_mac ctx raw mask_ver =
     (case unwrap_server_packet raw (normalize_mode mask_ver) of
        None \<Rightarrow> None
      | Some buf \<Rightarrow>
          (if length buf < SERVER_HDR_SIZE then None
           else let buf = outer_light_crypt (mc_obf_key ctx) buf
                in case server_header_from_bytes (take SERVER_HDR_SIZE buf) of
                     None \<Rightarrow> None
                   | Some hdr \<Rightarrow>
                       (let saved = slice 1 5 buf;
                            buf = overwrite 1 (le_bytes 4 (0 :: u32)) buf;
                            computed = mac ctx buf;
                            buf = overwrite 1 saved buf
                        in if computed \<noteq> sh_checksum hdr then None
                           else if sh_ver hdr \<noteq> TRANSPORT_VER then None
                           else map_option (Pair hdr)
                                  (payload_restrict (payload_from buf) SERVER_HDR_SIZE
                                     (length (payload_deref (payload_from buf)))))))"

definition transport_unpack ::
  "(bytes \<Rightarrow> nat \<Rightarrow> bytes) \<Rightarrow> bytes \<Rightarrow> bytes \<Rightarrow> u8 \<Rightarrow> (server_msg_header \<times> bytes) option" where
  "transport_unpack shake mac_key raw mask_ver =
     map_option (\<lambda>(hdr, p). (hdr, payload_into_vec p))
       (transport_unpack_with_mac (mac_context_new shake mac_key) raw mask_ver)"

section \<open>Whitening properties\<close>

lemma crypt_chunks_shape:
  "length (fst (crypt_chunks st cs)) = length cs \<and> (\<forall>c \<in> set (fst (crypt_chunks st cs)). length c = 8)"
  by (induction cs arbitrary: st) (simp_all add: Let_def case_prod_unfold)

lemma crypt_chunks_twice:
  "\<forall>c \<in> set cs. length c = 8 \<Longrightarrow>
     crypt_chunks st (fst (crypt_chunks st cs)) = (cs, snd (crypt_chunks st cs))"
  by (induction cs arbitrary: st)
    (simp_all add: Let_def case_prod_unfold le_bytes_from_le_64 xor.assoc)

lemma length_crypt_tail [simp]: "length (crypt_tail st bs) = length bs"
  by (induction bs arbitrary: st) (simp_all add: Let_def case_prod_unfold)

lemma crypt_tail_twice: "crypt_tail st (crypt_tail st bs) = bs"
  by (induction bs arbitrary: st) (simp_all add: Let_def case_prod_unfold xor.assoc)

lemma outer_light_crypt_blocks:
  assumes "\<forall>c \<in> set cs. length c = 8" "length r < 8"
  shows "outer_light_crypt key (b # concat cs @ r) =
           b # concat (fst (crypt_chunks (whiten_state key b) cs)) @
               crypt_tail (snd (crypt_chunks (whiten_state key b) cs)) r"
proof (cases "concat cs @ r = []")
  case True
  moreover have "cs = []"
    using True assms(1) by (cases cs) auto
  ultimately show ?thesis by (simp add: outer_light_crypt_def)
next
  case False
  then have "\<not> length (b # concat cs @ r) \<le> 1" by simp
  with assms show ?thesis
    unfolding outer_light_crypt_def
    by (subst if_not_P) (simp_all add: chunks_exact_concat case_prod_unfold Let_def)
qed

lemma outer_light_crypt_cases:
  obtains "buf = []" | b cs r where "buf = b # concat cs @ r" "\<forall>c \<in> set cs. length c = 8" "length r < 8"
proof (cases buf)
  case (Cons b data)
  obtain cs r where "chunks_exact 8 data = (cs, r)" by (cases "chunks_exact 8 data")
  with chunks_exact_split [OF _ this] Cons that(2) show ?thesis by simp
qed (use that in simp)

lemma length_outer_light_crypt [simp]: "length (outer_light_crypt key buf) = length buf"
proof (cases buf rule: outer_light_crypt_cases)
  case (2 b cs r)
  have "length (concat (fst (crypt_chunks st cs))) = length (concat cs)" for st
    using crypt_chunks_shape [of st cs] 2(2) by (simp add: length_concat_uniform [where n = 8])
  with 2 show ?thesis by (simp add: outer_light_crypt_blocks)
qed (simp add: outer_light_crypt_def)

lemma outer_light_crypt_twice:
  "outer_light_crypt key (outer_light_crypt key buf) = buf"
proof (cases buf rule: outer_light_crypt_cases)
  case (2 b cs r)
  let ?st = "whiten_state key b"
  have "\<forall>c \<in> set (fst (crypt_chunks ?st cs)). length c = 8"
    using crypt_chunks_shape by blast
  with 2 show ?thesis
    by (simp add: outer_light_crypt_blocks crypt_chunks_twice crypt_tail_twice)
qed (simp add: outer_light_crypt_def)

text \<open>The outer whitening is its own inverse on every buffer and for every key, across the
  8-byte block path and the byte-wise tail; in particular it never changes the length.\<close>

theorem outer_light_crypt_involution:
  "outer_light_crypt key (outer_light_crypt key buf) = buf
     \<and> length (outer_light_crypt key buf) = length buf"
  by (simp add: outer_light_crypt_twice)

section \<open>Transport mode properties\<close>

lemma wrap_in_stun_short:
  assumes "0 < length d" "length d \<le> 11"
  shows "unwrap_from_stun (wrap_in_stun d srv) = Some d"
  using assms Suc_leI [OF assms(1)]
  by (auto simp: wrap_in_stun_def unwrap_from_stun_def Let_def STUN_MAGIC_def slice_def unat_of_nat_byte)

lemma wrap_in_stun_long:
  assumes "12 \<le> length d" "length d \<le> 65543"
  shows "unwrap_from_stun (wrap_in_stun d srv) = Some d"
proof -
  let ?a = "4 + (length d - 12)" and ?p = "length d - 12"
  have hi: "?a div 256 < 256" "?p div 256 < 256" using assms(2) by auto
  have w: "wrap_in_stun d srv = (if srv then [1, 1] else [0, 1]) @ [of_nat (?a div 256), of_nat (?a mod 256)] @
      STUN_MAGIC @ take 12 d @ [0, 0x13, of_nat (?p div 256), of_nat (?p mod 256)] @ drop 12 d"
    using assms by (auto simp: wrap_in_stun_def Let_def)
  have t: "length (take 12 d) = 12" using assms by simp
  have "(?a div 256) * 256 + ?a mod 256 \<noteq> 0" by (subst div_mult_mod_eq) simp
  then show ?thesis
    unfolding w unwrap_from_stun_def Let_def
    using t assms(1) hi div_mult_mod_eq [of ?p 256]
    by (cases srv) (simp_all add: STUN_MAGIC_def slice_def nth_append unat_of_nat_byte)
qed

lemma stun_roundtrip:
  "0 < length d \<Longrightarrow> length d \<le> 65543 \<Longrightarrow> unwrap_from_stun (wrap_in_stun d srv) = Some d"
  using wrap_in_stun_short [of d srv] wrap_in_stun_long [of d srv] by (cases "length d \<le> 11") auto

lemma dns_warmup_recognised: "is_dns_warmup DNS_WARMUP_REQUEST" "is_dns_warmup DNS_WARMUP_RESPONSE"
  by (simp_all add: is_dns_warmup_def DNS_WARMUP_REQUEST_def DNS_WARMUP_RESPONSE_def)

section \<open>Datagram properties\<close>

lemma overwrite_server_checksum:
  "overwrite (Suc 0) (le_bytes 4 c) (server_header_to_bytes h @ d) =
     server_header_to_bytes (h\<lparr>sh_checksum := c\<rparr>) @ d"
  by (simp add: overwrite_def server_header_to_bytes_def)

lemma overwrite_client_checksum:
  "overwrite (Suc 0) (le_bytes 4 c) (client_header_to_bytes h @ d) =
     client_header_to_bytes (h\<lparr>ch_checksum := c\<rparr>) @ d"
  by (simp add: overwrite_def client_header_to_bytes_def)

lemma slice_server_checksum: "slice (Suc 0) 5 (server_header_to_bytes h @ d) = le_bytes 4 (sh_checksum h)"
  by (simp add: slice_def server_header_to_bytes_def)

lemma length_server_header [simp]: "length (server_header_to_bytes h) = 7"
  by (simp add: server_header_to_bytes_def)

lemma server_header_take: "server_header_from_bytes (server_header_to_bytes h) = Some h"
  by (rule server_header.get_put_exact) simp

lemma server_buf_split:
  assumes "SERVER_HDR_SIZE \<le> length buf"
  obtains hdr d where "buf = server_header_to_bytes hdr @ d"
  using server_header.put_get [OF assms] append_take_drop_id [of SERVER_HDR_SIZE buf] that by metis

text \<open>The datagram a peer has to send for a header and a payload to be delivered.\<close>

definition server_datagram :: "mac_context \<Rightarrow> server_msg_header \<Rightarrow> bytes \<Rightarrow> bytes" where
  "server_datagram ctx hdr data =
     outer_light_crypt (mc_obf_key ctx)
       (server_header_to_bytes (hdr\<lparr>sh_checksum := mac ctx (server_header_to_bytes (hdr\<lparr>sh_checksum := 0\<rparr>) @ data)\<rparr>)
          @ data)"

lemma unpack_buffer:
  assumes "unwrap_server_packet raw (normalize_mode m) = Some (outer_light_crypt (mc_obf_key ctx) (server_header_to_bytes h @ d))"
  shows "map_option (apsnd payload_deref) (transport_unpack_with_mac ctx raw m) =
     (if sh_checksum h = mac ctx (server_header_to_bytes (h\<lparr>sh_checksum := 0\<rparr>) @ d) \<and> sh_ver h = TRANSPORT_VER
      then Some (h, d) else None)"
proof -
  have "h\<lparr>sh_checksum := 0, sh_checksum := sh_checksum h\<rparr> = h" by simp
  then show ?thesis
    using assms
    by (simp add: transport_unpack_with_mac_def outer_light_crypt_twice SERVER_HDR_SIZE_def Let_def
          server_header_take overwrite_server_checksum slice_server_checksum
          payload_restrict_def payload_from_def payload_deref_def)
qed

lemma server_datagram_fixed:
  "sh_checksum h = mac ctx (server_header_to_bytes (h\<lparr>sh_checksum := 0\<rparr>) @ d) \<Longrightarrow>
     server_datagram ctx h d = outer_light_crypt (mc_obf_key ctx) (server_header_to_bytes h @ d)"
  by (simp add: server_datagram_def flip: server_msg_header.surjective)
    (metis server_msg_header.surjective server_msg_header.update_convs(2))

lemma unpack_Some_unwrapped:
  assumes "transport_unpack_with_mac ctx raw m = Some r"
  obtains h d where "unwrap_server_packet raw (normalize_mode m) =
    Some (outer_light_crypt (mc_obf_key ctx) (server_header_to_bytes h @ d))"
proof -
  obtain buf where u: "unwrap_server_packet raw (normalize_mode m) = Some buf" and "SERVER_HDR_SIZE \<le> length buf"
    using assms by (auto simp: transport_unpack_with_mac_def split: option.splits if_splits)
  then obtain h d where "outer_light_crypt (mc_obf_key ctx) buf = server_header_to_bytes h @ d"
    using server_buf_split [of "outer_light_crypt (mc_obf_key ctx) buf"] by auto
  then have "buf = outer_light_crypt (mc_obf_key ctx) (server_header_to_bytes h @ d)"
    using outer_light_crypt_twice [of "mc_obf_key ctx" buf] by simp
  with u that show ?thesis by simp
qed

text \<open>C14: What the receiver accepts, exactly.  A raw datagram is delivered as header \<open>h\<close> and payload
  \<open>d\<close> if and only if, once the transport mode is unwrapped, it is the whitened encoding of \<open>h\<close> and
  \<open>d\<close>, the version is the current one, and the checksum in \<open>h\<close> is the MAC of the packet with the
  checksum field zeroed.  So nothing with a wrong MAC or version gets through, and everything else
  arrives unaltered.\<close>

theorem unpack_accepts_iff:
  "map_option (apsnd payload_deref) (transport_unpack_with_mac ctx raw m) = Some (h, d) \<longleftrightarrow>
     unwrap_server_packet raw (normalize_mode m) = Some (server_datagram ctx h d) \<and>
     sh_checksum h = mac ctx (server_header_to_bytes (h\<lparr>sh_checksum := 0\<rparr>) @ d) \<and>
     sh_ver h = TRANSPORT_VER" (is "?lhs \<longleftrightarrow> ?rhs")
proof
  assume l: ?lhs
  then obtain r where "transport_unpack_with_mac ctx raw m = Some r" by auto
  then obtain h' d' where u: "unwrap_server_packet raw (normalize_mode m) =
      Some (outer_light_crypt (mc_obf_key ctx) (server_header_to_bytes h' @ d'))"
    by (rule unpack_Some_unwrapped)
  with l unpack_buffer [OF u] show ?rhs
    by (auto simp: server_datagram_fixed split: if_splits)
next
  assume r: ?rhs
  then have "unwrap_server_packet raw (normalize_mode m) =
      Some (outer_light_crypt (mc_obf_key ctx) (server_header_to_bytes h @ d))"
    by (simp add: server_datagram_fixed)
  from unpack_buffer [OF this] r show ?lhs by simp
qed

text \<open>A packet of the peer for a command, with the random seed byte it chose, and the wrapping of the
  transport mode.\<close>

definition peer_packet :: "mac_context \<Rightarrow> u8 \<Rightarrow> u8 \<Rightarrow> bytes \<Rightarrow> bytes" where
  "peer_packet ctx rnd cmd data =
     server_datagram ctx \<lparr>sh_rnd = rnd, sh_checksum = 0, sh_ver = TRANSPORT_VER, sh_cmd = cmd\<rparr> data"

definition peer_wrap :: "u8 \<Rightarrow> bytes \<Rightarrow> bytes" where
  "peer_wrap m packet = (if normalize_mode m = 1 then wrap_in_stun packet True else packet)"

lemma length_server_datagram [simp]: "length (server_datagram ctx h d) = 7 + length d"
  by (simp add: server_datagram_def)

lemma unwrap_peer_wrap:
  assumes "0 < length p" "length p \<le> 65543"
    and "normalize_mode m = 2 \<Longrightarrow> \<not> is_dns_warmup p"
  shows "unwrap_server_packet (peer_wrap m p) (normalize_mode m) = Some p"
  using assms by (auto simp: unwrap_server_packet_def peer_wrap_def stun_roundtrip)

lemma peer_packet_unpacked:
  assumes "length data \<le> 65536"
    and "normalize_mode m = 2 \<Longrightarrow> \<not> is_dns_warmup (peer_packet ctx rnd cmd data)"
  shows "\<exists>h p. transport_unpack_with_mac ctx (peer_wrap m (peer_packet ctx rnd cmd data)) m = Some (h, p)
           \<and> sh_cmd h = cmd \<and> payload_deref p = data"
proof -
  define h0 where "h0 = \<lparr>sh_rnd = rnd, sh_checksum = 0, sh_ver = TRANSPORT_VER, sh_cmd = cmd\<rparr>"
  define h where "h = h0\<lparr>sh_checksum := mac ctx (server_header_to_bytes h0 @ data)\<rparr>"
  have z: "h\<lparr>sh_checksum := 0\<rparr> = h0" by (simp add: h_def h0_def)
  have p: "peer_packet ctx rnd cmd data = outer_light_crypt (mc_obf_key ctx) (server_header_to_bytes h @ data)"
    by (simp add: peer_packet_def server_datagram_def h_def h0_def)
  have "unwrap_server_packet (peer_wrap m (peer_packet ctx rnd cmd data)) (normalize_mode m) =
      Some (outer_light_crypt (mc_obf_key ctx) (server_header_to_bytes h @ data))"
    using unwrap_peer_wrap [of "peer_packet ctx rnd cmd data" m] assms p by simp
  from unpack_buffer [OF this]
  have "map_option (apsnd payload_deref) (transport_unpack_with_mac ctx
          (peer_wrap m (peer_packet ctx rnd cmd data)) m) = Some (h, data)"
    unfolding z by (simp add: h_def h0_def)
  then show ?thesis by (auto simp: h_def h0_def)
qed

text \<open>C28: What the client sends.  In every transport mode, undoing the mode and the whitening of a
  packed command gives the 15-byte client header with the command, the client id and the current
  version, carrying the MAC of the packet with a zeroed checksum, followed by the payload.\<close>

theorem client_packet_content:
  assumes "length data \<le> 65528"
    and "pack_client_packet ctx rnd cmd client_id data m st = (buf, extra, st')"
  shows "\<exists>plain. (if normalize_mode m = 1 then unwrap_from_stun buf = Some plain else buf = plain) \<and>
     outer_light_crypt (mc_obf_key ctx) plain =
       client_header_to_bytes
         \<lparr>ch_rnd = rnd,
          ch_checksum = mac ctx (client_header_to_bytes (client_header_new rnd cmd client_id) @ data),
          ch_ver = TRANSPORT_VER, ch_cmd = cmd, ch_client_id = client_id\<rparr> @ data"
proof -
  define w where "w = outer_light_crypt (mc_obf_key ctx) (client_header_to_bytes
         \<lparr>ch_rnd = rnd,
          ch_checksum = mac ctx (client_header_to_bytes (client_header_new rnd cmd client_id) @ data),
          ch_ver = TRANSPORT_VER, ch_cmd = cmd, ch_client_id = client_id\<rparr> @ data)"
  have len: "length w = 15 + length data"
    by (simp add: w_def client_header_to_bytes_def)
  have "wrap_client_packet w (normalize_mode m) st = (buf, extra, st')"
    using assms(2)
    by (simp add: pack_client_packet_def Let_def overwrite_client_checksum w_def client_header_new_def)
  then have "if normalize_mode m = 1 then unwrap_from_stun buf = Some w else buf = w"
    using stun_roundtrip [of w False] assms(1) len
    by (auto simp: wrap_client_packet_def split: if_splits)
  then show ?thesis
    by (intro exI [of _ w]) (simp add: w_def outer_light_crypt_twice)
qed

theorem client_packet_content_witness:
  "\<exists>buf extra st'. pack_client_packet \<lparr>mc_state = (1, 2, 3, 4), mc_obf_key = replicate 16 5\<rparr> 7 31 99 [1, 2] 2 mode_state_new
        = (buf, extra, st') \<and>
     outer_light_crypt (replicate 16 5) buf =
       client_header_to_bytes
         \<lparr>ch_rnd = 7,
          ch_checksum = mac \<lparr>mc_state = (1, 2, 3, 4), mc_obf_key = replicate 16 5\<rparr>
                          (client_header_to_bytes (client_header_new 7 31 99) @ [1, 2]),
          ch_ver = TRANSPORT_VER, ch_cmd = 31, ch_client_id = 99\<rparr> @ [1, 2]"
proof -
  obtain buf extra st' where "pack_client_packet \<lparr>mc_state = (1, 2, 3, 4), mc_obf_key = replicate 16 5\<rparr> 7 31 99 [1, 2] 2 mode_state_new
        = (buf, extra, st')"
    by (rule prod_cases3)
  with client_packet_content [OF _ this] show ?thesis
    by (simp add: normalize_mode_def)
qed

end
