(* ===== verification/Session.thy ===== *)
theory Session
  imports Direct_Send Engine_Api Transport
begin

text \<open>
  The connection state machine of the client: handshake and reconnect
  (\<^verbatim>\<open>client/protocol_connect.rs\<close>, \<^verbatim>\<open>client/protocol_recv_state.rs\<close>, \<^verbatim>\<open>client/socket_lifecycle.rs\<close>), the
  handlers of the receive loop (\<^verbatim>\<open>client/protocol_recv_handlers.rs\<close>, \<^verbatim>\<open>client/protocol_helpers.rs\<close>) and
  the routing and dispatch of a datagram (\<^verbatim>\<open>client/protocol_recv.rs\<close>).

  The hash of the key derivation and the AES-GCM cipher of a key belong to third-party crates and are
  the parameters of \<open>crypto_env\<close>.  Random values, readings of the monotonic clock and the DEFLATE decoder
  come from \<open>client_streams\<close>; wall clock readings are arguments, a day-count time stamp being the bit
  pattern of its \<^verbatim>\<open>f64\<close>.  The server clock estimate a Ping updates is floating point and not modelled.

  The application state behind \<^verbatim>\<open>client_new_data\<close>, \<^verbatim>\<open>restore_domain_after_reconnect\<close> and the bookkeeping of
  API responses is represented by the log of what it is given: \<open>c_delivered\<close>, \<open>c_events\<close> and
  \<open>c_responses\<close>.  Some components exist for the statements only and are never read by an operation:
  \<open>c_session\<close> counts the session ciphers installed, a command that is kept back until authorization carries the
  session whose cipher opened it (\<open>pa_session\<close>), and each delivery carries its origin (plaintext, or
  the session and message number it was sealed under) and whether the client was authorized and the
  domain ready at that moment.
\<close>

section \<open>State\<close>

record crypto_env =
  ce_shake :: "bytes \<Rightarrow> nat \<Rightarrow> bytes"
  ce_cipher :: "bytes \<Rightarrow> cipher"

record client_cfg =
  cfg_master_key :: bytes
  cfg_mac_key :: bytes
  cfg_client_id :: u64
  cfg_transport_mode :: u8
  cfg_mac_ctx :: mac_context

datatype auth_status = AS_Base | AS_Connected | AS_AuthDone | AS_Offline

datatype hello_wait_state =
  HW_Idle | HW_PrimaryHelloCold | HW_PrimaryHelloNewSession | HW_PrimaryImFriendSent | HW_RebindHelloAgain

definition is_waiting :: "hello_wait_state \<Rightarrow> bool" where
  "is_waiting s \<longleftrightarrow> s \<noteq> HW_Idle"

definition allows_hello_again_retry :: "hello_wait_state \<Rightarrow> bool" where
  "allows_hello_again_retry s \<longleftrightarrow> s = HW_RebindHelloAgain"

definition allows_who_are_you :: "hello_wait_state \<Rightarrow> bool" where
  "allows_who_are_you s \<longleftrightarrow> s \<in> {HW_PrimaryHelloCold, HW_PrimaryHelloNewSession}"

definition allows_fine :: "hello_wait_state \<Rightarrow> bool" where
  "allows_fine s \<longleftrightarrow> s \<in> {HW_PrimaryImFriendSent, HW_RebindHelloAgain}"

definition allows_wrong_hello :: "hello_wait_state \<Rightarrow> bool" where
  "allows_wrong_hello s \<longleftrightarrow> s \<in> {HW_PrimaryHelloCold, HW_PrimaryHelloNewSession, HW_PrimaryImFriendSent}"

record pre_auth_command =
  pa_msg_num :: u64
  pa_cmd :: u8
  pa_payload :: bytes
  pa_timestamp_ms :: millis
  pa_session :: nat

record reader_sliced_stats =
  rs_datagram_num :: u16
  rs_dup_count :: u8
  rs_blocks_count :: nat

datatype lifecycle_event =
  LE_Connecting | LE_Connected bool | LE_Reconnecting | LE_Disconnected | LE_ServerRestart | LE_DomainRestore | LE_RepeatUnsubscribe

datatype origin = Plain | Sealed nat u64

record delivery =
  dl_cmd :: u8
  dl_payload :: bytes
  dl_time :: millis
  dl_origin :: origin
  dl_authorized :: bool
  dl_domain_ready :: bool

record kernel_health =
  kh_process_cpu_percent :: u8
  kh_system_cpu_percent :: u8
  kh_used_memory_mb :: "u16 option"
  kh_free_physical_memory_mb :: "u16 option"
  kh_logical_cpu_count :: "u8 option"
  kh_core_round_trip_ms :: "u32 option"
  kh_order_api_latency_ms :: "u16 option"

definition kernel_health_default :: kernel_health where
  "kernel_health_default =
     \<lparr>kh_process_cpu_percent = 0, kh_system_cpu_percent = 0, kh_used_memory_mb = None, kh_free_physical_memory_mb = None,
      kh_logical_cpu_count = None, kh_core_round_trip_ms = None, kh_order_api_latency_ms = None\<rparr>"

text \<open>What the client reads from its environment: random 16-byte values, readings of the monotonic clock, and the
  DEFLATE decoder.\<close>

record client_streams =
  cs_rnds :: "nat \<Rightarrow> bytes"
  cs_instants :: "nat \<Rightarrow> instant"
  cs_inflate :: inflate

record client =
  c_cfg :: client_cfg
  c_was_ever_connected :: bool
  c_shutdown :: bool
  c_send_lock :: send_lock_state
  c_writer :: writer
  c_recv_slicer :: slicing_receiver
  c_connected :: bool
  c_authorized :: bool
  c_last_online :: millis
  c_auth_status :: auth_status
  c_prev_auth_status :: auth_status
  c_need_connect :: bool
  c_force_disconnect :: bool
  c_soft_reconnect :: bool
  c_hello_wait_state :: hello_wait_state
  c_next_primary_hello_new_session :: bool
  c_waiting_hello :: bool
  c_handshake_rnd :: bytes
  c_handshake_peer_mix :: u64
  c_session_rnd :: bytes
  c_ack_session32_value :: u32
  c_client_token :: u64
  c_server_token :: u64
  c_app_token :: u64
  c_peer_app_token :: u64
  c_encode_key :: bytes
  c_decode_key :: bytes
  c_last_sent_hello :: millis
  c_waiting_hello_start :: millis
  c_last_socket_recreate :: millis
  c_last_need_hello_again :: millis
  c_total_recv :: u64
  c_total_recv_shared :: u64
  c_overheat :: u8
  c_rs :: rat
  c_ping_count :: u32
  c_data_read :: data_read_state
  c_pre_auth_crypted :: "pre_auth_command list"
  c_domain_ready :: bool
  c_indexes_fetch_in_flight :: bool
  c_tracked_indexes_peer_app_token :: u64
  c_socket :: bool
  c_kernel_health :: kernel_health
  c_pending_api :: pending_api_state
  c_last_trades_stream_ms :: millis
  c_last_trades_reconnect_check_ms :: millis
  c_trades_subscribed :: bool
  c_trades_unsubscribed :: bool
  c_streams :: client_streams
  c_rnd_pos :: nat
  c_instant_pos :: nat
  c_responses :: "engine_response list"
  c_session :: nat
  c_delivered :: "delivery list"
  c_events :: "lifecycle_event list"

section \<open>Constants\<close>

definition NEVER_SENT_MS :: millis where
  "NEVER_SENT_MS = - (2 ^ 63) div 2"

definition RECONNECT_WAITING_MS :: millis where
  "RECONNECT_WAITING_MS = 7000"

definition RECONNECT_THROTTLE_MS :: millis where
  "RECONNECT_THROTTLE_MS = 15000"

definition OFFLINE_BASE_MS :: millis where
  "OFFLINE_BASE_MS = 2300"

definition DEAD_ZONE_MS :: millis where
  "DEAD_ZONE_MS = 5000"

definition NEED_HELLO_AGAIN_THROTTLE_MS :: millis where
  "NEED_HELLO_AGAIN_THROTTLE_MS = 700"

definition PRE_AUTH_CRYPTED_MAX_MSG_NUM :: u64 where
  "PRE_AUTH_CRYPTED_MAX_MSG_NUM = 64 * 64 - 1"

section \<open>Construction and reset\<close>

definition client_new :: "client_cfg \<Rightarrow> writer \<Rightarrow> u64 \<Rightarrow> u64 \<Rightarrow> client_streams \<Rightarrow> client" where
  "client_new cfg w client_token app_token streams =
     \<lparr>c_cfg = cfg, c_was_ever_connected = False, c_shutdown = False, c_send_lock = send_lock_default, c_writer = w,
      c_recv_slicer = receiver_new, c_connected = False, c_authorized = False, c_last_online = 0,
      c_auth_status = AS_Base, c_prev_auth_status = AS_Base, c_need_connect = True, c_force_disconnect = False,
      c_soft_reconnect = False, c_hello_wait_state = HW_Idle, c_next_primary_hello_new_session = False,
      c_waiting_hello = False, c_handshake_rnd = replicate 16 0, c_handshake_peer_mix = 0,
      c_session_rnd = replicate 16 0, c_ack_session32_value = 0, c_client_token = client_token, c_server_token = 0,
      c_app_token = app_token, c_peer_app_token = 0, c_encode_key = replicate 16 0, c_decode_key = replicate 16 0,
      c_last_sent_hello = NEVER_SENT_MS, c_waiting_hello_start = 0, c_last_socket_recreate = - (2 ^ 63) div 2,
      c_last_need_hello_again = - (2 ^ 63) div 2, c_total_recv = 0, c_total_recv_shared = 0, c_overheat = 0, c_rs = 1,
      c_ping_count = 0, c_data_read = data_read_new, c_pre_auth_crypted = [], c_domain_ready = False,
      c_indexes_fetch_in_flight = False, c_tracked_indexes_peer_app_token = 0, c_socket = False,
      c_kernel_health = kernel_health_default, c_pending_api = pending_api_new (cs_instants streams 0),
      c_last_trades_stream_ms = NEVER_TIME_MS, c_last_trades_reconnect_check_ms = NEVER_TIME_MS, c_trades_subscribed = False,
      c_trades_unsubscribed = False, c_streams = streams, c_rnd_pos = 0, c_instant_pos = 1, c_responses = [], c_session = 0, c_delivered = [], c_events = []\<rparr>"

definition set_hello_wait_state :: "client \<Rightarrow> hello_wait_state \<Rightarrow> client" where
  "set_hello_wait_state c s = c\<lparr>c_hello_wait_state := s, c_waiting_hello := is_waiting s\<rparr>"

definition start_hello_wait :: "client \<Rightarrow> hello_wait_state \<Rightarrow> millis \<Rightarrow> client" where
  "start_hello_wait c s cur_tm = set_hello_wait_state (c\<lparr>c_waiting_hello_start := cur_tm\<rparr>) s"

definition clear_hello_wait_state :: "client \<Rightarrow> client" where
  "clear_hello_wait_state c = set_hello_wait_state c HW_Idle"

definition matches_current_handshake :: "client \<Rightarrow> hello \<Rightarrow> bool" where
  "matches_current_handshake c h \<longleftrightarrow> c_handshake_rnd c = h_rnd h"

definition matches_request_bound_reset :: "client \<Rightarrow> hello \<Rightarrow> bool" where
  "matches_request_bound_reset c h \<longleftrightarrow> matches_current_handshake c h \<and> h_server_token h = 0 \<and> h_peer_mix h = 0"

definition matches_current_fine :: "client \<Rightarrow> hello \<Rightarrow> bool" where
  "matches_current_fine c h \<longleftrightarrow> matches_current_handshake c h \<and> h_peer_mix h = 0"

definition accepted_server_mix_ts :: "client \<Rightarrow> u64 \<Rightarrow> client" where
  "accepted_server_mix_ts c mix_ts =
     (if sint (mix_ts - c_client_token c) > 0 then c\<lparr>c_client_token := mix_ts\<rparr> else c)"

definition mark_next_primary_hello_new_session :: "client \<Rightarrow> client" where
  "mark_next_primary_hello_new_session c = clear_hello_wait_state (c\<lparr>c_next_primary_hello_new_session := True\<rparr>)"

definition should_accept_want_new_hello :: "client \<Rightarrow> bool" where
  "should_accept_want_new_hello c = allows_hello_again_retry (c_hello_wait_state c)"

definition refresh_ack_session32 :: "crypto_env \<Rightarrow> client \<Rightarrow> client" where
  "refresh_ack_session32 env c =
     c\<lparr>c_ack_session32_value := ack_session32 (ce_shake env) (cfg_mac_key (c_cfg c)) (cfg_client_id (c_cfg c))
                                  (c_server_token c) (c_session_rnd c)\<rparr>"

definition full_reset :: "client \<Rightarrow> client" where
  "full_reset c =
     clear_hello_wait_state
       (c\<lparr>c_writer := (c_writer c)\<lparr>w_crypt_msg_counter := INITIAL_CRYPTED_MSG_COUNTER, w_used_sliced_limit := False,
                                  w_recvd_slider := slider_new\<rparr>,
          c_total_recv := 0, c_total_recv_shared := 0, c_rs := 1,
          c_data_read := data_read_reset (c_data_read c), c_pre_auth_crypted := [],
          c_send_lock := reset_tmp_slider (c_send_lock c), c_recv_slicer := reset_session (c_recv_slicer c),
          c_last_online := 0, c_last_sent_hello := NEVER_SENT_MS, c_handshake_peer_mix := 0,
          c_ack_session32_value := 0\<rparr>)"

definition clear_outbound_session_data :: "client \<Rightarrow> client" where
  "clear_outbound_session_data c =
     c\<lparr>c_writer := (c_writer c)\<lparr>w_pending_h := [], w_sending := [],
          w_crypt_msg_counter := INITIAL_CRYPTED_MSG_COUNTER, w_last_checked_slices := 0\<rparr>\<rparr>"

section \<open>Sending handshake packets\<close>

definition send_command :: "client \<Rightarrow> command \<Rightarrow> bytes \<Rightarrow> client" where
  "send_command c cmd payload = c\<lparr>c_writer := send_raw_packet (c_writer c) cmd payload\<rparr>"

definition encrypt_packet :: "cipher \<Rightarrow> client \<Rightarrow> bytes \<Rightarrow> bytes \<Rightarrow> bytes \<times> client" where
  "encrypt_packet k c plaintext aad =
     (let w = c_writer c; n = w_iv_counter w
      in (encrypt_with_cipher k (w_iv_mask w) n (w_tsc w n) plaintext aad,
          c\<lparr>c_writer := w\<lparr>w_iv_counter := n + 1\<rparr>\<rparr>))"

definition new_handshake_rnd :: "client \<Rightarrow> client" where
  "new_handshake_rnd c =
     c\<lparr>c_handshake_rnd := cs_rnds (c_streams c) (c_rnd_pos c), c_rnd_pos := c_rnd_pos c + 1, c_handshake_peer_mix := 0\<rparr>"

text \<open>The random fields of a new Hello are all overwritten by its three senders.\<close>

definition send_hello :: "crypto_env \<Rightarrow> client \<Rightarrow> u64 \<Rightarrow> client" where
  "send_hello env c now_dt =
     (let c = c\<lparr>c_client_token := c_client_token c + 1\<rparr>;
          hello = (hello_new [] 0 0 (c_client_token c) (c_app_token c))
                    \<lparr>h_rnd := c_handshake_rnd c, h_timestamp := now_dt, h_server_token := 0, h_peer_mix := 0\<rparr>;
          (payload, c) = encrypt_packet (ce_cipher env (cfg_master_key (c_cfg c))) c (hello_to_bytes_packed hello)
                           (handshake_aad (cfg_client_id (c_cfg c)) (to_byte Command_Hello))
      in send_command c Command_Hello payload)"

definition build_hello_again_packet :: "crypto_env \<Rightarrow> client \<Rightarrow> u64 \<Rightarrow> bytes option \<times> client" where
  "build_hello_again_packet env c now_dt =
     (if c_server_token c = 0 then (None, c)
      else let c = c\<lparr>c_client_token := c_client_token c + 1\<rparr>;
               mix = calculate_hello_again_peer_mix (ce_shake env) (c_handshake_rnd c) (c_client_token c)
                       (c_server_token c) (c_session_rnd c);
               hello = (hello_new [] 0 0 (c_client_token c) (c_app_token c))
                         \<lparr>h_rnd := c_handshake_rnd c, h_timestamp := now_dt,
                          h_server_token := c_server_token c, h_peer_mix := mix\<rparr>;
               (encrypted, c) = encrypt_packet (ce_cipher env (cfg_master_key (c_cfg c))) c (hello_to_bytes_packed hello)
                                  (handshake_aad (cfg_client_id (c_cfg c)) (to_byte Command_HelloAgain))
           in (Some encrypted, c))"

definition send_hello_again :: "crypto_env \<Rightarrow> client \<Rightarrow> u64 \<Rightarrow> client" where
  "send_hello_again env c now_dt =
     (case build_hello_again_packet env c now_dt of
        (None, c) \<Rightarrow> c
      | (Some encrypted, c) \<Rightarrow> send_command c Command_HelloAgain encrypted)"

definition build_imfriend_packet :: "client \<Rightarrow> u64 \<Rightarrow> bytes option \<times> client" where
  "build_imfriend_packet c now_dt =
     (if c_server_token c = 0 then (None, c)
      else let c = c\<lparr>c_client_token := c_client_token c + 1\<rparr>;
               hello = (hello_new [] 0 0 (c_client_token c) (c_app_token c))
                         \<lparr>h_rnd := c_handshake_rnd c, h_server_token := c_server_token c,
                          h_peer_mix := c_handshake_peer_mix c, h_timestamp := now_dt\<rparr>
           in case w_encode_cipher (c_writer c) of
                None \<Rightarrow> (None, c)
              | Some k \<Rightarrow>
                  (let (encrypted, c) = encrypt_packet k c (hello_to_bytes_packed hello)
                                          (handshake_aad (cfg_client_id (c_cfg c)) (to_byte Command_ImFriend))
                   in (Some encrypted, c)))"

definition send_imfriend :: "client \<Rightarrow> u64 \<Rightarrow> client" where
  "send_imfriend c now_dt =
     (case build_imfriend_packet c now_dt of
        (None, c) \<Rightarrow> c
      | (Some encrypted, c) \<Rightarrow> send_command c Command_ImFriend encrypted)"

section \<open>Connect and reconnect\<close>

definition next_primary_hello_state :: "client \<Rightarrow> hello_wait_state" where
  "next_primary_hello_state c =
     (if c_next_primary_hello_new_session c \<or> c_was_ever_connected c \<or> c_server_token c \<noteq> 0
      then HW_PrimaryHelloNewSession else HW_PrimaryHelloCold)"

definition begin_primary_hello :: "crypto_env \<Rightarrow> client \<Rightarrow> millis \<Rightarrow> u64 \<Rightarrow> client" where
  "begin_primary_hello env c cur_tm now_dt =
     (let state = next_primary_hello_state c;
          c = full_reset (c\<lparr>c_soft_reconnect := False\<rparr>);
          c = clear_outbound_session_data c;
          c = new_handshake_rnd (c\<lparr>c_server_token := 0, c_peer_app_token := 0, c_authorized := False\<rparr>);
          c = start_hello_wait c state cur_tm;
          c = send_hello env c now_dt
      in c\<lparr>c_next_primary_hello_new_session := False\<rparr>)"

definition send_rebind_hello_again :: "crypto_env \<Rightarrow> client \<Rightarrow> millis \<Rightarrow> bool \<Rightarrow> u64 \<Rightarrow> client" where
  "send_rebind_hello_again env c cur_tm new_window now_dt =
     (let c = (if new_window
               then start_hello_wait (new_handshake_rnd (c\<lparr>c_pre_auth_crypted := []\<rparr>)) HW_RebindHelloAgain cur_tm
               else set_hello_wait_state c HW_RebindHelloAgain)
      in send_hello_again env c now_dt)"

definition check_hello_send :: "crypto_env \<Rightarrow> client \<Rightarrow> millis \<Rightarrow> u64 \<Rightarrow> client" where
  "check_hello_send env c cur_tm now_dt =
     (if \<not> c_need_connect c \<or> c_force_disconnect c then c
      else let interval = max (w_round_trip_delay (c_writer c)) 1000 * 2
           in if \<bar>cur_tm - c_last_sent_hello c\<bar> \<le> interval then c
              else let c = (case c_hello_wait_state c of
                              HW_Idle \<Rightarrow>
                                if c_soft_reconnect c \<and> c_server_token c \<noteq> 0
                                then send_rebind_hello_again env c cur_tm True now_dt
                                else begin_primary_hello env c cur_tm now_dt
                            | HW_PrimaryHelloCold \<Rightarrow> send_hello env c now_dt
                            | HW_PrimaryHelloNewSession \<Rightarrow> send_hello env c now_dt
                            | HW_PrimaryImFriendSent \<Rightarrow> send_imfriend c now_dt
                            | HW_RebindHelloAgain \<Rightarrow> send_hello_again env c now_dt)
                   in c\<lparr>c_last_sent_hello := cur_tm\<rparr>)"

definition check_offline_reconnect :: "crypto_env \<Rightarrow> client \<Rightarrow> millis \<Rightarrow> u64 \<Rightarrow> client" where
  "check_offline_reconnect env c cur_tm now_dt =
     (let rtt = w_round_trip_delay (c_writer c);
          throttle = min (max (rtt + 50) 200) 1500;
          waiting_rebind = allows_hello_again_retry (c_hello_wait_state c);
          stale_authorized = (c_authorized c \<and> \<not> c_need_connect c
                              \<and> \<bar>cur_tm - c_last_online c\<bar> > OFFLINE_BASE_MS + rtt)
      in if \<not> waiting_rebind \<and> \<not> stale_authorized then c
         else if \<bar>cur_tm - c_last_sent_hello c\<bar> \<le> throttle then c
         else if c_server_token c = 0
         then mark_next_primary_hello_new_session
                (c\<lparr>c_auth_status := AS_Connected, c_authorized := False, c_need_connect := True,
                   c_soft_reconnect := False, c_last_sent_hello := NEVER_SENT_MS\<rparr>)
         else (send_rebind_hello_again env (c\<lparr>c_auth_status := AS_Offline\<rparr>) cur_tm (\<not> waiting_rebind) now_dt)
                \<lparr>c_last_sent_hello := cur_tm\<rparr>)"

definition check_reconnect_timeout :: "client \<Rightarrow> millis \<Rightarrow> client" where
  "check_reconnect_timeout c cur_tm =
     (if is_waiting (c_hello_wait_state c)
         \<and> \<bar>cur_tm - c_waiting_hello_start c\<bar> > RECONNECT_WAITING_MS
         \<and> \<bar>cur_tm - c_last_socket_recreate c\<bar> > RECONNECT_THROTTLE_MS
      then let timed_out_state = c_hello_wait_state c;
               soft = (allows_hello_again_retry timed_out_state \<and> c_server_token c \<noteq> 0);
               c = c\<lparr>c_last_socket_recreate := cur_tm, c_soft_reconnect := soft, c_force_disconnect := True,
                     c_need_connect := True\<rparr>;
               c = (if \<not> soft \<and> timed_out_state \<noteq> HW_PrimaryHelloCold
                    then c\<lparr>c_next_primary_hello_new_session := True\<rparr> else c);
               c = (clear_hello_wait_state c)\<lparr>c_waiting_hello_start := 0\<rparr>
           in if \<not> soft then c\<lparr>c_last_sent_hello := NEVER_SENT_MS\<rparr> else c
      else c)"

definition check_dead_zone :: "client \<Rightarrow> millis \<Rightarrow> client" where
  "check_dead_zone c cur_tm =
     (if \<not> c_authorized c \<and> \<not> c_need_connect c \<and> \<bar>cur_tm - c_last_online c\<bar> > DEAD_ZONE_MS
      then c\<lparr>c_soft_reconnect := False, c_force_disconnect := True, c_need_connect := True\<rparr> else c)"

definition send_session_close :: "client \<Rightarrow> millis \<Rightarrow> client" where
  "send_session_close c cur_tm =
     (let item = \<lparr>si_data = [], si_cmd = to_byte Command_SessionClose, si_encrypted = True, si_priority = SP_High,
                  si_retry_left = initial_retry_left True 1, si_max_retries = 1, si_msg_num = 0,
                  si_last_sent_at = 0, si_u_key = unique_key_none\<rparr>
      in c\<lparr>c_writer := fst (send_h_item (c_writer c) item cur_tm)\<rparr>)"

definition do_force_disconnect :: "client \<Rightarrow> millis \<Rightarrow> client" where
  "do_force_disconnect c now =
     (let c = (if c_connected c \<and> \<not> c_soft_reconnect c \<and> c_authorized c \<and> c_server_token c \<noteq> 0
               then send_session_close c now else c);
          c = c\<lparr>c_socket := False\<rparr>;
          c = (if \<not> c_soft_reconnect c then clear_outbound_session_data (full_reset c) else c)
      in clear_hello_wait_state (c\<lparr>c_connected := False, c_authorized := False, c_force_disconnect := False\<rparr>))"

definition transport_reconnect_tail_tick :: "crypto_env \<Rightarrow> client \<Rightarrow> millis \<Rightarrow> u64 \<Rightarrow> client" where
  "transport_reconnect_tail_tick env c cur_tm now_dt =
     (let c = check_hello_send env c cur_tm now_dt;
          c = check_offline_reconnect env c cur_tm now_dt;
          c = check_reconnect_timeout c cur_tm;
          c = check_dead_zone c cur_tm
      in if c_force_disconnect c then do_force_disconnect c cur_tm else c)"

text \<open>\<^verbatim>\<open>bind_socket\<close>; whether one of the 200 attempts succeeds is up to the system.\<close>

definition bind_socket :: "client \<Rightarrow> bool \<Rightarrow> client" where
  "bind_socket c bound =
     (let c = c\<lparr>c_force_disconnect := False\<rparr>
      in if bound then c\<lparr>c_socket := True, c_recv_slicer := reset_session (c_recv_slicer c)\<rparr> else c)"

definition ensure_socket_bound :: "client \<Rightarrow> bool \<Rightarrow> client" where
  "ensure_socket_bound c bound = (if \<not> c_socket c \<and> c_need_connect c then bind_socket c bound else c)"

definition disconnect :: "client \<Rightarrow> client" where
  "disconnect c =
     (clear_hello_wait_state
        (c\<lparr>c_shutdown := True, c_need_connect := False, c_force_disconnect := True, c_authorized := False,
           c_auth_status := AS_Base, c_next_primary_hello_new_session := False\<rparr>))
       \<lparr>c_pre_auth_crypted := [], c_domain_ready := False\<rparr>"

section \<open>Lifecycle\<close>

definition fire_lifecycle :: "client \<Rightarrow> lifecycle_event \<Rightarrow> client" where
  "fire_lifecycle c ev = c\<lparr>c_events := c_events c @ [ev]\<rparr>"

definition check_lifecycle_transition :: "client \<Rightarrow> client" where
  "check_lifecycle_transition c =
     (let prev = c_prev_auth_status c; cur = c_auth_status c
      in if cur = prev then c
         else let (ev, c) =
                (if prev = AS_Base \<and> cur = AS_Connected then (Some LE_Connecting, c)
                 else if prev = AS_Offline \<and> cur = AS_Connected then (Some LE_Connecting, c)
                 else if cur = AS_AuthDone
                 then (Some (LE_Connected (\<not> c_was_ever_connected c)), c\<lparr>c_was_ever_connected := True\<rparr>)
                 else if prev = AS_AuthDone \<and> cur = AS_Offline then (Some LE_Reconnecting, c)
                 else if cur = AS_Base \<and> \<not> c_need_connect c then (Some LE_Disconnected, c)
                 else (None, c));
               c = c\<lparr>c_prev_auth_status := cur\<rparr>
           in case ev of None \<Rightarrow> c | Some ev \<Rightarrow> fire_lifecycle c ev)"

end
