(* ===== verification/Dispatch.thy ===== *)
theory Dispatch
  imports Session
begin

text \<open>
  The receive side of the client (\<^verbatim>\<open>client/protocol_recv.rs\<close>, \<^verbatim>\<open>client/protocol_recv_handlers.rs\<close>,
  \<^verbatim>\<open>client/protocol_recv_state.rs\<close>, \<^verbatim>\<open>client/protocol_delivery.rs\<close>): what each service and handshake packet
  does to the session, the dispatch of data commands, and the client as a machine that consumes
  datagrams, ticks and calls of the application in any order.
\<close>

section \<open>Session transitions of received packets\<close>

definition apply_recv_side_effects :: "client \<Rightarrow> u64 \<Rightarrow> millis \<Rightarrow> client" where
  "apply_recv_side_effects c recv_bytes timestamp_ms =
     c\<lparr>c_connected := True,
       c_auth_status := (if c_auth_status c = AS_Base then AS_Connected else c_auth_status c),
       c_total_recv := c_total_recv c + recv_bytes, c_last_online := timestamp_ms\<rparr>"

definition apply_reader_sliced_stats :: "client \<Rightarrow> reader_sliced_stats \<Rightarrow> client" where
  "apply_reader_sliced_stats c stats =
     (let dup_pct = of_nat (unat (rs_dup_count stats)) / of_nat (max (rs_blocks_count stats) 1) * 100;
          w = c_writer c
      in c\<lparr>c_writer := w\<lparr>w_avg_dup_count := (if w_avg_dup_count w = 0 then dup_pct
                                             else (w_avg_dup_count w * 9 + dup_pct) * (1 / 10))\<rparr>\<rparr>)"

definition apply_stats_opt :: "client \<Rightarrow> reader_sliced_stats option \<Rightarrow> client" where
  "apply_stats_opt c stats = (case stats of None \<Rightarrow> c | Some s \<Rightarrow> apply_reader_sliced_stats c s)"

definition apply_wrong_hello :: "client \<Rightarrow> client" where
  "apply_wrong_hello c = c\<lparr>c_auth_status := AS_Connected\<rparr>"

definition apply_want_new_hello :: "client \<Rightarrow> client" where
  "apply_want_new_hello c =
     mark_next_primary_hello_new_session
       ((full_reset c)\<lparr>c_last_sent_hello := NEVER_SENT_MS, c_auth_status := AS_Connected, c_authorized := False,
                       c_need_connect := True, c_soft_reconnect := False\<rparr>)"

definition apply_need_hello_again :: "client \<Rightarrow> millis \<Rightarrow> client" where
  "apply_need_hello_again c timestamp_ms =
     (if \<bar>timestamp_ms - c_last_need_hello_again c\<bar> > NEED_HELLO_AGAIN_THROTTLE_MS
      then let c = c\<lparr>c_last_need_hello_again := timestamp_ms, c_need_connect := True, c_soft_reconnect := True\<rparr>
           in if allows_hello_again_retry (c_hello_wait_state c)
              then c\<lparr>c_last_sent_hello := NEVER_SENT_MS\<rparr>
              else (clear_hello_wait_state c)\<lparr>c_waiting_hello_start := 0, c_last_sent_hello := NEVER_SENT_MS\<rparr>
      else c)"

definition apply_hello_and_build_imfriend :: "crypto_env \<Rightarrow> client \<Rightarrow> hello \<Rightarrow> u64 \<Rightarrow> bytes \<times> client" where
  "apply_hello_and_build_imfriend env c hello now_dt =
     (let c = accepted_server_mix_ts c (h_mix_ts hello);
          prev_app_token = c_peer_app_token c;
          c = c\<lparr>c_server_token := h_server_token hello, c_peer_app_token := h_app_token hello\<rparr>;
          c = (if prev_app_token \<noteq> 0 \<and> prev_app_token \<noteq> h_app_token hello
               then fire_lifecycle (c\<lparr>c_indexes_fetch_in_flight := False, c_tracked_indexes_peer_app_token := 0\<rparr>)
                      LE_ServerRestart
               else c);
          c = c\<lparr>c_session_rnd := h_rnd hello\<rparr>;
          (encode_key, decode_key) = generate_session_sub_keys (ce_shake env) (cfg_master_key (c_cfg c))
                                       (cfg_client_id (c_cfg c)) (c_server_token c) (c_session_rnd c);
          c = c\<lparr>c_encode_key := encode_key, c_decode_key := decode_key,
                c_writer := (c_writer c)\<lparr>w_encode_cipher := Some (ce_cipher env encode_key)\<rparr>,
                c_data_read := set_decode_cipher (c_data_read c) (ce_cipher env decode_key),
                c_session := c_session c + 1\<rparr>;
          c = refresh_ack_session32 env c;
          c = c\<lparr>c_handshake_peer_mix := h_peer_mix hello\<rparr>
      in case build_imfriend_packet c now_dt of
           (None, c) \<Rightarrow> ([], c)
         | (Some encrypted, c) \<Rightarrow> (encrypted, c))"

definition apply_fine_auth_done :: "client \<Rightarrow> client" where
  "apply_fine_auth_done c =
     (let restore = (c_domain_ready c \<and> c_was_ever_connected c);
          c = clear_hello_wait_state (c\<lparr>c_need_connect := False, c_auth_status := AS_AuthDone, c_authorized := True\<rparr>);
          c = c\<lparr>c_handshake_peer_mix := 0\<rparr>
      in if restore then fire_lifecycle c LE_DomainRestore else c)"

definition decode_handshake_hello :: "crypto_env \<Rightarrow> bytes \<Rightarrow> u64 \<Rightarrow> u8 \<Rightarrow> bytes \<Rightarrow> hello option" where
  "decode_handshake_hello env master_key client_id cmd payload =
     (case decrypt_with_cipher (ce_cipher env master_key) payload (handshake_aad client_id cmd) of
        None \<Rightarrow> None
      | Some decrypted \<Rightarrow> hello_from_bytes decrypted)"

section \<open>Handlers\<close>

definition on_handshake_control :: "crypto_env \<Rightarrow> client \<Rightarrow> command \<Rightarrow> bytes \<Rightarrow> client" where
  "on_handshake_control env c cmd payload =
     (if cmd = Command_WrongHello
      then if allows_wrong_hello (c_hello_wait_state c) then apply_wrong_hello c else c
      else if cmd = Command_WantNewHello
      then if \<not> should_accept_want_new_hello c then c
           else case decode_handshake_hello env (cfg_master_key (c_cfg c)) (cfg_client_id (c_cfg c))
                       (to_byte Command_WantNewHello) payload of
                  None \<Rightarrow> c
                | Some hello \<Rightarrow>
                    if \<not> matches_request_bound_reset c hello then c
                    else apply_want_new_hello (accepted_server_mix_ts c (h_mix_ts hello))
      else c)"

text \<open>ImFriend is sent twice, 32 ms apart.\<close>

definition on_who_are_you :: "crypto_env \<Rightarrow> client \<Rightarrow> bytes \<Rightarrow> millis \<Rightarrow> u64 \<Rightarrow> client" where
  "on_who_are_you env c payload timestamp_ms now_dt =
     (if \<not> allows_who_are_you (c_hello_wait_state c) \<or> c_server_token c \<noteq> 0 then c
      else case decode_handshake_hello env (cfg_master_key (c_cfg c)) (cfg_client_id (c_cfg c))
                  (to_byte Command_WhoAreYou) payload of
             None \<Rightarrow> c
           | Some hello \<Rightarrow>
               if \<not> matches_current_handshake c hello then c
               else let (encrypted, c) = apply_hello_and_build_imfriend env c hello now_dt;
                        c = start_hello_wait c HW_PrimaryImFriendSent timestamp_ms;
                        c = send_command c Command_ImFriend encrypted
                    in send_command c Command_ImFriend encrypted)"

definition on_fine :: "client \<Rightarrow> bytes \<Rightarrow> client" where
  "on_fine c payload =
     (if \<not> allows_fine (c_hello_wait_state c) then c
      else case dr_decode_cipher (c_data_read c) of
             None \<Rightarrow> c
           | Some k \<Rightarrow>
               (case decrypt_with_cipher k payload (handshake_aad (cfg_client_id (c_cfg c)) (to_byte Command_Fine)) of
                  None \<Rightarrow> c
                | Some decrypted \<Rightarrow>
                    (case hello_from_bytes decrypted of
                       None \<Rightarrow> c
                     | Some hello \<Rightarrow>
                         if \<not> matches_current_fine c hello then c
                         else apply_fine_auth_done (accepted_server_mix_ts c (h_mix_ts hello)))))"

definition build_size_ack_payload :: "data_read_state \<Rightarrow> bytes \<Rightarrow> bytes option \<times> data_read_state" where
  "build_size_ack_payload r payload =
     (case size_test_read payload of
        None \<Rightarrow> (None, r)
      | Some t \<Rightarrow>
          if unat (st_size t) < 6 then (None, r)
          else let (series, r) = update_data_size_ack_series_num r (st_series_num t)
               in (size_test_ack_bytes (st_size t) series, r))"

definition on_new_size_test :: "client \<Rightarrow> bytes \<Rightarrow> client" where
  "on_new_size_test c payload =
     (let (ack, r) = build_size_ack_payload (c_data_read c) payload; c = c\<lparr>c_data_read := r\<rparr>
      in case ack of None \<Rightarrow> c | Some ack \<Rightarrow> send_command c Command_SizeAck ack)"

definition build_probe_mtu_ack_payload :: "bytes \<Rightarrow> bytes option" where
  "build_probe_mtu_ack_payload payload =
     (case probe_mtu_read payload of
        None \<Rightarrow> None
      | Some probe \<Rightarrow>
          if unat (test_size probe) < PROBE_MTU_ACK_SIZE then None else probe_mtu_ack_bytes probe)"

definition on_new_probe_mtu :: "client \<Rightarrow> bytes \<Rightarrow> client" where
  "on_new_probe_mtu c payload =
     (case build_probe_mtu_ack_payload payload of
        None \<Rightarrow> c
      | Some ack \<Rightarrow> send_command c Command_ProbeMTUAck ack)"

definition on_new_sliced_ack :: "client \<Rightarrow> bytes \<Rightarrow> client" where
  "on_new_sliced_ack c payload =
     c\<lparr>c_send_lock := push_sliced_ack_payload (c_send_lock c) payload (c_ack_session32_value c)\<rparr>"

subsection \<open>Ping\<close>

text \<open>The environment of one received datagram: arrival time, corrected wall clock, bytes sent so far and the
  telemetry sample of the node.\<close>

record rx_env =
  rx_time :: millis
  rx_now_dt :: u64
  rx_total_sent :: u64
  rx_telemetry :: ping_telemetry

definition MIN_RATE :: int where
  "MIN_RATE = 256 * 1024"

definition MAX_RATE :: int where
  "MAX_RATE = 8 * 1024 * 1024"

definition next_send_rate :: "int \<Rightarrow> rat \<Rightarrow> int" where
  "next_send_rate rate rs =
     (let new_rate =
        (if rs > 92 / 100 then rate + max (round_away (of_int rate * (3 / 100))) (32 * 1024)
         else if rs < 85 / 100 then round_away (of_int rate * (85 / 100))
         else round_away (of_int rate * (1 + (rs - 92 / 100) / (92 / 100) * (5 / 100))))
      in min (max new_rate MIN_RATE) MAX_RATE)"

definition kernel_health_of_ping :: "kernel_health \<Rightarrow> ping_frame \<Rightarrow> kernel_health" where
  "kernel_health_of_ping h ping =
     (let h = h\<lparr>kh_process_cpu_percent := pf_moment_cpu_percent ping, kh_system_cpu_percent := pf_total_cpu_percent ping,
               kh_core_round_trip_ms := (if sint (pf_trip_delay ping) \<ge> 0 then Some (pf_trip_delay ping) else None),
               kh_order_api_latency_ms := (if pf_global_timing_orders ping \<noteq> 0 then Some (pf_global_timing_orders ping) else None)\<rparr>
      in case pf_memory ping of
           None \<Rightarrow> h
         | Some m \<Rightarrow> h\<lparr>kh_used_memory_mb := Some (used_memory_mb m), kh_free_physical_memory_mb := Some (free_physical_memory_mb m),
                      kh_logical_cpu_count := Some (cores m)\<rparr>)"

definition apply_ping_and_build_response :: "client \<Rightarrow> bytes \<Rightarrow> rx_env \<Rightarrow> u64 \<Rightarrow> bytes option \<times> client" where
  "apply_ping_and_build_response c payload rx total_recv_after =
     (case ping_frame_read payload of
        None \<Rightarrow> (None, c)
      | Some ping \<Rightarrow>
          (let rs = of_nat (unat (pf_rsq ping)) / 255;
               w = (c_writer c)\<lparr>w_round_trip_delay := sint (pf_trip_delay ping), w_actual_pmtu := pf_pmtu ping\<rparr>;
               w = (if w_used_sliced_limit w
                    then w\<lparr>w_can_send_rate := next_send_rate (w_can_send_rate w) rs, w_used_sliced_limit := False\<rparr>
                    else w);
               c = c\<lparr>c_writer := w, c_overheat := pf_overheat ping, c_rs := rs,
                     c_kernel_health := kernel_health_of_ping (c_kernel_health c) ping,
                     c_need_connect := (if c_auth_status c = AS_AuthDone then False else c_need_connect c)\<rparr>;
               c = (if pf_ack_session ping = c_ack_session32_value c
                    then c\<lparr>c_send_lock := apply_ping_ack_bitmap (c_send_lock c) payload (pf_ack_words_offset ping)\<rparr>
                    else c);
               c = c\<lparr>c_ping_count := c_ping_count c + 1\<rparr>;
               (ack_start, ack_words) = data_read_ack_half (c_data_read c);
               response = ping_response_bytes ping (rx_now_dt rx) (rx_total_sent rx) total_recv_after ack_start
                            (c_ack_session32_value c) (rx_telemetry rx)
                          @ concat (map (le_bytes 8) ack_words)
           in (Some response, c)))"

subsection \<open>Delivery\<close>

definition is_domain_push_command :: "command \<Rightarrow> bool" where
  "is_domain_push_command cmd \<longleftrightarrow>
     cmd \<in> {Command_Order, Command_Strat, Command_Balance, Command_TradesStream, Command_TradesResendResponse,
            Command_OrderBook, Command_UI}"

definition is_trades_stream_command :: "command \<Rightarrow> bool" where
  "is_trades_stream_command cmd \<longleftrightarrow> cmd \<in> {Command_TradesStream, Command_TradesResendResponse}"

definition is_startup_state_payload :: "bytes \<Rightarrow> bool" where
  "is_startup_state_payload payload \<longleftrightarrow>
     (case get_at 0 payload of None \<Rightarrow> False | Some b \<Rightarrow> b \<in> {20, 22, 24, 26, 27, 30, 32, 33, 36, 58, 61})"

definition incoming_allowed_before_domain_ready :: "command \<Rightarrow> bytes \<Rightarrow> bool" where
  "incoming_allowed_before_domain_ready cmd data \<longleftrightarrow>
     cmd = Command_Balance \<and> (get_at 0 data = Some 7 \<or> get_at 0 data = Some 9)
     \<or> cmd = Command_Strat \<and> (get_at 0 data = Some 8 \<or> get_at 0 data = Some 1 \<or> get_at 0 data = Some 10)
     \<or> cmd = Command_UI \<and> is_startup_state_payload data"

definition TRADES_RECONNECT_THROTTLE_MS :: millis where
  "TRADES_RECONNECT_THROTTLE_MS = 5000"

text \<open>The unsubscribe request that is repeated is an event of the log.\<close>

definition repair_unwanted_trades_stream :: "client \<Rightarrow> millis \<Rightarrow> client" where
  "repair_unwanted_trades_stream c now_ms =
     (if \<not> c_authorized c \<or> \<not> c_domain_ready c then c
      else if \<bar>now_ms - c_last_trades_reconnect_check_ms c\<bar> < TRADES_RECONNECT_THROTTLE_MS then c
      else if \<not> c_trades_unsubscribed c then c
      else fire_lifecycle (c\<lparr>c_last_trades_reconnect_check_ms := now_ms\<rparr>) LE_RepeatUnsubscribe)"

text \<open>Readings of the monotonic clock: the \<open>k\<close>-th next one, and moving on.\<close>

definition instant_of :: "client \<Rightarrow> nat \<Rightarrow> instant" where
  "instant_of c k = cs_instants (c_streams c) (c_instant_pos c + k)"

definition client_new_data_decoded :: "client \<Rightarrow> u8 \<Rightarrow> decoded_payload \<Rightarrow> bool \<Rightarrow> bool \<Rightarrow> decoded_payload list \<times> client" where
  "client_new_data_decoded c cmd p api_pending_consumed chunked_consumed =
     (if cmd = to_byte Command_API
      then case process_api_command_decoded (cs_inflate (c_streams c)) (c_pending_api c) p api_pending_consumed chunked_consumed
                  (instant_of c 0) (instant_of c 1) of
             (out, pg) \<Rightarrow>
               (let c = c\<lparr>c_pending_api := pg, c_instant_pos := c_instant_pos c + 2\<rparr>
                in case out of
                     Api_Absorbed \<Rightarrow> ([], c)
                   | Api_Deliver resp p \<Rightarrow> ([p], c\<lparr>c_responses := c_responses c @ [resp]\<rparr>)
                   | Api_Raw p \<Rightarrow> ([p], c))
      else ([p], c))"

definition deliver_decoded :: "client \<Rightarrow> u8 \<Rightarrow> millis \<Rightarrow> origin \<Rightarrow> decoded_payload \<Rightarrow> client" where
  "deliver_decoded c cmd cur_tm origin p =
     c\<lparr>c_delivered := c_delivered c @
        [\<lparr>dl_cmd = cmd, dl_payload = payload_deref (dp_raw p), dl_time = cur_tm, dl_origin = origin,
          dl_authorized = c_authorized c, dl_domain_ready = c_domain_ready c\<rparr>]\<rparr>"

definition client_new_data :: "client \<Rightarrow> u8 \<Rightarrow> decoded_payload \<Rightarrow> bool \<Rightarrow> bool \<Rightarrow> millis \<Rightarrow> origin \<Rightarrow> client" where
  "client_new_data c cmd p api_pending_consumed chunked_consumed cur_tm origin =
     (let command = from_byte cmd
      in if is_domain_push_command command \<and> \<not> c_domain_ready c
            \<and> \<not> incoming_allowed_before_domain_ready command (payload_deref (dp_raw p)) then c
         else let c = (if command = Command_TradesStream \<and> c_authorized c then c\<lparr>c_last_trades_stream_ms := cur_tm\<rparr> else c)
              in if is_trades_stream_command command \<and> \<not> c_trades_subscribed c
                 then if command = Command_TradesStream then repair_unwanted_trades_stream c cur_tm else c
                 else let authorized_before = c_authorized c;
                          (ps, c) = client_new_data_decoded c cmd p api_pending_consumed chunked_consumed
                      in if \<not> authorized_before \<and> \<not> c_authorized c then c
                         else foldl (\<lambda>c p. deliver_decoded c cmd cur_tm origin p) c ps)"

definition on_new_ping :: "client \<Rightarrow> bytes \<Rightarrow> rx_env \<Rightarrow> u64 \<Rightarrow> client" where
  "on_new_ping c payload rx total_recv_after =
     (case apply_ping_and_build_response c payload rx total_recv_after of
        (None, c) \<Rightarrow> c
      | (Some response, c) \<Rightarrow>
          client_new_data (send_command c Command_Ping response) (to_byte Command_Ping)
            (decoded_payload_from (payload_from payload)) False False (rx_time rx) Plain)"

subsection \<open>Dispatch of data commands\<close>

definition finish_decoded_command ::
  "client \<Rightarrow> u8 \<Rightarrow> payload \<Rightarrow> millis \<Rightarrow> reader_sliced_stats option \<Rightarrow> origin \<Rightarrow> client" where
  "finish_decoded_command c cmd payload timestamp_ms stats origin =
     (if from_byte cmd = Command_NeedHelloAgain then apply_need_hello_again c timestamp_ms
      else if from_byte cmd = Command_SessionClose then c
      else let inflate = cs_inflate (c_streams c); pg = c_pending_api c;
               (consumed, api, p) = dispatch_api_pending_decoded inflate (pg_api pg) cmd (decoded_payload_from payload)
                                      (instant_of c 0) (instant_of c 1);
               (chunked, pg, raw) = dispatch_chunked_api_response inflate (pg\<lparr>pg_api := api\<rparr>) cmd (dp_raw p);
               c = c\<lparr>c_pending_api := pg, c_instant_pos := c_instant_pos c + 2\<rparr>
           in client_new_data (apply_stats_opt c stats) cmd (p\<lparr>dp_raw := raw\<rparr>) consumed chunked timestamp_ms origin)"

text \<open>Whether the command is kept back, and the client after that.\<close>

definition defer_crypted_before_auth :: "client \<Rightarrow> u8 \<Rightarrow> bytes \<Rightarrow> millis \<Rightarrow> bool \<times> client" where
  "defer_crypted_before_auth c raw_cmd payload timestamp_ms =
     (if c_authorized c \<or> from_byte raw_cmd \<noteq> Command_Crypted then (False, c)
      else (True,
        if allows_fine (c_hello_wait_state c)
        then case Option.bind (dr_decode_cipher (c_data_read c)) (\<lambda>k. decrypt_command_no_replay k payload) of
               None \<Rightarrow> c
             | Some (hdr, plaintext) \<Rightarrow>
                 if cr_msg_num hdr \<le> PRE_AUTH_CRYPTED_MAX_MSG_NUM
                 then c\<lparr>c_pre_auth_crypted := c_pre_auth_crypted c @
                          [\<lparr>pa_msg_num = cr_msg_num hdr, pa_cmd = cr_cmd hdr,
                            pa_payload = drop CRYPTO_HEADER_SIZE plaintext, pa_timestamp_ms = timestamp_ms,
                            pa_session = c_session c\<rparr>]\<rparr>
                 else c
        else c))"

text \<open>The origin recorded for a command that was decoded from \<open>payload\<close>.\<close>

definition origin_of :: "client \<Rightarrow> u8 \<Rightarrow> bytes \<Rightarrow> origin" where
  "origin_of c raw_cmd payload =
     (if from_byte raw_cmd = Command_Crypted
      then case Option.bind (dr_decode_cipher (c_data_read c)) (\<lambda>k. decrypt_command_no_replay k payload) of
             None \<Rightarrow> Plain
           | Some (hdr, _) \<Rightarrow> Sealed (c_session c) (cr_msg_num hdr)
      else Plain)"

definition dispatch_command ::
  "client \<Rightarrow> u8 \<Rightarrow> bytes \<Rightarrow> u64 \<Rightarrow> millis \<Rightarrow> bool \<Rightarrow> reader_sliced_stats option \<Rightarrow> client" where
  "dispatch_command c raw_cmd payload recv_bytes timestamp_ms apply_recv_effects stats =
     (let c = (if apply_recv_effects then apply_recv_side_effects c recv_bytes timestamp_ms else c)
      in case defer_crypted_before_auth c raw_cmd payload timestamp_ms of
           (True, c) \<Rightarrow> apply_stats_opt c stats
         | (False, c) \<Rightarrow>
             (let origin = origin_of c raw_cmd payload
              in case decode_command_payload_shared (c_data_read c) raw_cmd payload of
                   (None, r) \<Rightarrow> apply_stats_opt (c\<lparr>c_data_read := r\<rparr>) stats
                 | (Some (cmd, payload), r) \<Rightarrow>
                     finish_decoded_command (c\<lparr>c_data_read := r\<rparr>) cmd (payload_from payload) timestamp_ms stats origin))"

definition dispatch_command_owned ::
  "client \<Rightarrow> u8 \<Rightarrow> payload \<Rightarrow> u64 \<Rightarrow> millis \<Rightarrow> bool \<Rightarrow> reader_sliced_stats option \<Rightarrow> client" where
  "dispatch_command_owned c raw_cmd p recv_bytes timestamp_ms apply_recv_effects stats =
     (let c = (if apply_recv_effects then apply_recv_side_effects c recv_bytes timestamp_ms else c)
      in case defer_crypted_before_auth c raw_cmd (payload_deref p) timestamp_ms of
           (True, c) \<Rightarrow> apply_stats_opt c stats
         | (False, c) \<Rightarrow>
             (let origin = origin_of c raw_cmd (payload_deref p)
              in case decode_command_payload_owned (c_data_read c) raw_cmd p of
                   (None, r) \<Rightarrow> c\<lparr>c_data_read := r\<rparr>
                 | (Some (cmd, q), r) \<Rightarrow>
                     finish_decoded_command (c\<lparr>c_data_read := r\<rparr>) cmd q timestamp_ms stats origin))"

text \<open>The container loop; \<open>first\<close> holds until a command was emitted.\<close>

primrec dispatch_frames :: "(u8 \<times> bytes) list \<Rightarrow> client \<Rightarrow> u64 \<Rightarrow> millis \<Rightarrow> bool \<Rightarrow> bool \<Rightarrow> client" where
  "dispatch_frames [] c recv_bytes timestamp_ms first_effects first =
     (if first \<and> first_effects then apply_recv_side_effects c recv_bytes timestamp_ms else c)"
| "dispatch_frames (f # fs) c recv_bytes timestamp_ms first_effects first =
     dispatch_frames fs
       (dispatch_command c (fst f) (snd f) recv_bytes timestamp_ms (first_effects \<and> first) None)
       recv_bytes timestamp_ms first_effects False"

definition dispatch_packet_commands :: "client \<Rightarrow> u8 \<Rightarrow> bytes \<Rightarrow> u64 \<Rightarrow> millis \<Rightarrow> bool \<Rightarrow> client" where
  "dispatch_packet_commands c raw_cmd payload recv_bytes timestamp_ms effects_first =
     (if from_byte (raw_cmd AND 0x7F) \<noteq> Command_Grouped
      then dispatch_command c raw_cmd payload recv_bytes timestamp_ms effects_first None
      else if raw_cmd AND COMPRESSED_FLAG \<noteq> 0
      then if effects_first then apply_recv_side_effects c recv_bytes timestamp_ms else c
      else dispatch_frames (split_grouped payload) c recv_bytes timestamp_ms effects_first True)"

text \<open>One deferred command after authorization.\<close>

definition drain_item :: "client \<Rightarrow> pre_auth_command \<Rightarrow> client" where
  "drain_item c item =
     (let (is_new, s) = check_revd (dr_slider (c_data_read c)) (pa_msg_num item);
          c = c\<lparr>c_data_read := (c_data_read c)\<lparr>dr_slider := s\<rparr>\<rparr>;
          origin = Sealed (pa_session item) (pa_msg_num item)
      in if \<not> is_new then c
         else if pa_cmd item AND COMPRESSED_FLAG \<noteq> 0
         then case mp_decompress (pa_payload item) of
                None \<Rightarrow> c
              | Some d \<Rightarrow> finish_decoded_command c (pa_cmd item AND 0x7F) (payload_from d) (pa_timestamp_ms item) None origin
         else finish_decoded_command c (pa_cmd item) (payload_from (pa_payload item)) (pa_timestamp_ms item) None origin)"

definition drain_deferred_pre_auth_crypted :: "client \<Rightarrow> client" where
  "drain_deferred_pre_auth_crypted c =
     (if \<not> c_authorized c \<or> c_pre_auth_crypted c = [] then c
      else foldl drain_item (c\<lparr>c_pre_auth_crypted := []\<rparr>) (sort_key pa_msg_num (c_pre_auth_crypted c)))"

definition on_new_sliced :: "client \<Rightarrow> bytes \<Rightarrow> u64 \<Rightarrow> millis \<Rightarrow> client" where
  "on_new_sliced c payload recv_bytes timestamp_ms =
     (if slice_header_from_bytes payload = None then c
      else let ((assembled, ack), r) =
                 on_new_sliced_with_session (c_recv_slicer c) payload (c_ack_session32_value c);
               c = send_command (c\<lparr>c_recv_slicer := r\<rparr>) Command_SlicedACK ack
           in case assembled of
                None \<Rightarrow> c
              | Some (datagram_num, cmd, p, dups, blocks) \<Rightarrow>
                  (let c = dispatch_command_owned c cmd p recv_bytes timestamp_ms False
                             (Some \<lparr>rs_datagram_num = datagram_num, rs_dup_count = dups,
                                    rs_blocks_count = blocks\<rparr>);
                       r = c_recv_slicer c
                   in c\<lparr>c_recv_slicer := r\<lparr>receiving := map_remove datagram_num (receiving r)\<rparr>\<rparr>))"

section \<open>Routing\<close>

definition route_command_inner ::
  "crypto_env \<Rightarrow> client \<Rightarrow> u8 \<Rightarrow> payload \<Rightarrow> u64 \<Rightarrow> u64 \<Rightarrow> rx_env \<Rightarrow> client" where
  "route_command_inner env c raw_cmd p recv_bytes total_recv_after rx =
     (let cmd = from_byte raw_cmd; payload = payload_deref p; timestamp_ms = rx_time rx
      in if cmd = Command_WantNewHello then on_handshake_control env c cmd payload
         else let c = c\<lparr>c_recv_slicer := rx_tick timestamp_ms (c_recv_slicer c)\<rparr>
              in if cmd = Command_Ping
                 then if \<not> c_authorized c then c else on_new_ping c payload rx total_recv_after
                 else if cmd = Command_WrongHello then on_handshake_control env c cmd payload
                 else if cmd = Command_WhoAreYou then on_who_are_you env c payload timestamp_ms (rx_now_dt rx)
                 else if cmd = Command_Fine then drain_deferred_pre_auth_crypted (on_fine c payload)
                 else if cmd = Command_SizeTest then on_new_size_test c payload
                 else if cmd = Command_ProbeMTU then on_new_probe_mtu c payload
                 else if cmd = Command_SlicedACK then on_new_sliced_ack c payload
                 else if cmd = Command_Sliced then on_new_sliced c payload recv_bytes timestamp_ms
                 else if from_byte (raw_cmd AND 0x7F) = Command_Grouped
                 then dispatch_packet_commands c raw_cmd payload recv_bytes timestamp_ms False
                 else dispatch_command_owned c raw_cmd p recv_bytes timestamp_ms False None)"

definition process_datagram :: "crypto_env \<Rightarrow> client \<Rightarrow> bytes \<Rightarrow> rx_env \<Rightarrow> client" where
  "process_datagram env c datagram rx =
     (case transport_unpack_with_mac (cfg_mac_ctx (c_cfg c)) datagram (cfg_transport_mode (c_cfg c)) of
        None \<Rightarrow> c
      | Some (hdr, p) \<Rightarrow>
          (let recv_bytes = of_nat (length datagram)
           in if from_byte (sh_cmd hdr) = Command_WantNewHello
              then route_command_inner env c (sh_cmd hdr) p recv_bytes (c_total_recv_shared c) rx
              else let c = apply_recv_side_effects c recv_bytes (rx_time rx);
                       total_recv_after = c_total_recv_shared c + recv_bytes;
                       c = c\<lparr>c_total_recv_shared := total_recv_after\<rparr>
                   in route_command_inner env c (sh_cmd hdr) p recv_bytes total_recv_after rx))"

section \<open>The client machine\<close>

text \<open>What can happen to a client between two looks at it.  The run loop performs these steps in a fixed
  order; the theorems hold for every order.  After a shutdown request it performs none.\<close>

datatype client_input =
  In_Datagram bytes rx_env
| In_Writer millis
| In_Reconnect millis u64
| In_Bind bool
| In_Lifecycle
| In_Push send_item
| In_Domain_Ready bool
| In_Trades_Intent bool bool
| In_Register u64 instant
| In_Disconnect

primrec client_action :: "crypto_env \<Rightarrow> client \<Rightarrow> client_input \<Rightarrow> client" where
  "client_action env c (In_Datagram d rx) = (if c_socket c then process_datagram env c d rx else c)"
| "client_action env c (In_Writer t) =
     (if c_socket c
      then let (w, lock) = copy_send_ack_and_check_sening_data (c_writer c) (c_send_lock c) t
           in c\<lparr>c_writer := w, c_send_lock := lock\<rparr>
      else c)"
| "client_action env c (In_Reconnect t now_dt) = (if c_socket c then transport_reconnect_tail_tick env c t now_dt else c)"
| "client_action env c (In_Bind bound) = ensure_socket_bound c bound"
| "client_action env c In_Lifecycle = check_lifecycle_transition c"
| "client_action env c (In_Push item) = c\<lparr>c_send_lock := lock_push_send_cmd_int (c_send_lock c) item\<rparr>"
| "client_action env c (In_Domain_Ready ready) = c\<lparr>c_domain_ready := ready\<rparr>"
| "client_action env c (In_Trades_Intent subscribed unsubscribed) =
     c\<lparr>c_trades_subscribed := subscribed, c_trades_unsubscribed := unsubscribed\<rparr>"
| "client_action env c (In_Register uid timeout) =
     (let pg = c_pending_api c
      in c\<lparr>c_pending_api := pg\<lparr>pg_api := snd (register_with_timeout (pg_api pg) uid timeout (instant_of c 0))\<rparr>,
           c_instant_pos := c_instant_pos c + 1\<rparr>)"
| "client_action env c In_Disconnect = disconnect c"

definition client_step :: "crypto_env \<Rightarrow> client \<Rightarrow> client_input \<Rightarrow> client" where
  "client_step env c i = (if c_shutdown c then c else client_action env c i)"

definition client_run :: "crypto_env \<Rightarrow> client \<Rightarrow> client_input list \<Rightarrow> client" where
  "client_run env = foldl (client_step env)"

end
