(* ===== verification/Session_Safety.thy ===== *)
theory Session_Safety
  imports Dispatch
begin

text \<open>
  What the session state machine guarantees on every run of the client: authorization only by an
  authentic Fine, no plaintext delivery of sensitive commands, and at most one delivery per session
  and message number across reconnects, key changes and deferred commands.
\<close>

section \<open>The session view of a client\<close>

record sview =
  v_au :: bool
  v_so :: bool
  v_hw :: hello_wait_state
  v_sl :: slider
  v_ck :: "cipher option"
  v_ss :: nat
  v_de :: "delivery list"
  v_pa :: "nat list"

definition view :: "client \<Rightarrow> sview" where
  "view c = \<lparr>v_au = c_authorized c, v_so = c_soft_reconnect c, v_hw = c_hello_wait_state c,
             v_sl = dr_slider (c_data_read c), v_ck = dr_decode_cipher (c_data_read c), v_ss = c_session c,
             v_de = c_delivered c, v_pa = map pa_session (c_pre_auth_crypted c)\<rparr>"

lemma view_sel [simp]:
  "v_au (view c) = c_authorized c" "v_so (view c) = c_soft_reconnect c" "v_hw (view c) = c_hello_wait_state c"
  "v_sl (view c) = dr_slider (c_data_read c)" "v_ck (view c) = dr_decode_cipher (c_data_read c)"
  "v_ss (view c) = c_session c" "v_de (view c) = c_delivered c"
  "v_pa (view c) = map pa_session (c_pre_auth_crypted c)"
  by (simp_all add: view_def)

lemma view_eqI:
  "c_authorized c = c_authorized d \<Longrightarrow> c_soft_reconnect c = c_soft_reconnect d \<Longrightarrow>
   c_hello_wait_state c = c_hello_wait_state d \<Longrightarrow> dr_slider (c_data_read c) = dr_slider (c_data_read d) \<Longrightarrow>
   dr_decode_cipher (c_data_read c) = dr_decode_cipher (c_data_read d) \<Longrightarrow> c_session c = c_session d \<Longrightarrow>
   c_delivered c = c_delivered d \<Longrightarrow> c_pre_auth_crypted c = c_pre_auth_crypted d \<Longrightarrow> view c = view d"
  by (simp add: view_def)

text \<open>Operations that leave the view alone.\<close>

lemma view_updates [simp]:
  "view (c\<lparr>c_writer := w\<rparr>) = view c" "view (c\<lparr>c_send_lock := l\<rparr>) = view c"
  "view (c\<lparr>c_recv_slicer := r\<rparr>) = view c" "view (c\<lparr>c_client_token := t\<rparr>) = view c"
  "view (c\<lparr>c_events := e\<rparr>) = view c" "view (c\<lparr>c_last_sent_hello := h\<rparr>) = view c"
  "view (c\<lparr>c_auth_status := a\<rparr>) = view c" "view (c\<lparr>c_socket := b\<rparr>) = view c"
  "view (c\<lparr>c_domain_ready := b\<rparr>) = view c" "view (c\<lparr>c_total_recv_shared := n\<rparr>) = view c"
  "view (c\<lparr>c_next_primary_hello_new_session := b\<rparr>) = view c" "view (c\<lparr>c_pre_auth_crypted := p\<rparr>) = (view c)\<lparr>v_pa := map pa_session p\<rparr>"
  "view (c\<lparr>c_pending_api := g\<rparr>) = view c" "view (c\<lparr>c_instant_pos := k\<rparr>) = view c"
  "view (c\<lparr>c_responses := rs\<rparr>) = view c" "view (c\<lparr>c_last_trades_stream_ms := ms\<rparr>) = view c"
  "view (c\<lparr>c_last_trades_reconnect_check_ms := ms\<rparr>) = view c" "view (c\<lparr>c_trades_subscribed := b\<rparr>) = view c"
  "view (c\<lparr>c_trades_unsubscribed := b\<rparr>) = view c"
  by (simp_all add: view_def)

lemma view_frame [simp]:
  "view (apply_recv_side_effects c n t) = view c"
  "view (apply_reader_sliced_stats c st) = view c"
  "view (apply_wrong_hello c) = view c"
  "view (accepted_server_mix_ts c ts) = view c"
  "view (fire_lifecycle c ev) = view c"
  "view (send_command c cmd p) = view c"
  "view (new_handshake_rnd c) = view c"
  "view (refresh_ack_session32 env c) = view c"
  "view (clear_outbound_session_data c) = view c"
  "view (on_new_sliced_ack c p) = view c"
  "view (send_session_close c t) = view c"
  by (simp_all add: view_def apply_recv_side_effects_def apply_reader_sliced_stats_def apply_wrong_hello_def
      accepted_server_mix_ts_def fire_lifecycle_def send_command_def new_handshake_rnd_def refresh_ack_session32_def
      clear_outbound_session_data_def on_new_sliced_ack_def send_session_close_def Let_def)

lemma view_stats [simp]: "view (apply_stats_opt c st) = view c"
  by (simp add: apply_stats_opt_def split: option.split)

lemma view_encrypt_packet [simp]: "view (snd (encrypt_packet k c p a)) = view c"
  by (simp add: encrypt_packet_def Let_def)

lemma view_send_hello [simp]: "view (send_hello env c n) = view c"
  by (simp add: send_hello_def Let_def case_prod_unfold)

lemma view_build_hello_again [simp]: "view (snd (build_hello_again_packet env c n)) = view c"
  by (simp add: build_hello_again_packet_def Let_def case_prod_unfold)

lemma view_send_hello_again [simp]: "view (send_hello_again env c n) = view c"
  using view_build_hello_again [of env c n] by (auto simp: send_hello_again_def simp del: view_build_hello_again split: prod.splits option.splits)

lemma view_build_imfriend [simp]: "view (snd (build_imfriend_packet c n)) = view c"
  by (simp add: build_imfriend_packet_def Let_def case_prod_unfold split: option.splits)

lemma view_send_imfriend [simp]: "view (send_imfriend c n) = view c"
  using view_build_imfriend [of c n] by (auto simp: send_imfriend_def simp del: view_build_imfriend split: prod.splits option.splits)

lemma view_size_test [simp]: "view (on_new_size_test c p) = view c"
  by (auto simp: on_new_size_test_def build_size_ack_payload_def update_data_size_ack_series_num_def Let_def
      split: option.splits intro!: view_eqI)

lemma view_probe_mtu [simp]: "view (on_new_probe_mtu c p) = view c"
  by (simp add: on_new_probe_mtu_def split: option.split)

lemma view_lifecycle [simp]: "view (check_lifecycle_transition c) = view c"
  by (simp add: check_lifecycle_transition_def fire_lifecycle_def view_def Let_def)

lemma view_bind [simp]: "view (ensure_socket_bound c b) = view c"
  by (simp add: ensure_socket_bound_def bind_socket_def view_def Let_def)

text \<open>Operations that change it.\<close>

lemma view_set_wait [simp]:
  "view (set_hello_wait_state c s) = (view c)\<lparr>v_hw := s\<rparr>"
  "view (start_hello_wait c s t) = (view c)\<lparr>v_hw := s\<rparr>"
  "view (clear_hello_wait_state c) = (view c)\<lparr>v_hw := HW_Idle\<rparr>"
  "view (mark_next_primary_hello_new_session c) = (view c)\<lparr>v_hw := HW_Idle\<rparr>"
  by (simp_all add: view_def set_hello_wait_state_def start_hello_wait_def clear_hello_wait_state_def
      mark_next_primary_hello_new_session_def)

lemma view_full_reset [simp]: "view (full_reset c) = (view c)\<lparr>v_hw := HW_Idle, v_sl := slider_new, v_pa := []\<rparr>"
  by (simp add: full_reset_def view_def clear_hello_wait_state_def set_hello_wait_state_def data_read_reset_def)

lemma view_begin_primary:
  "view (begin_primary_hello env c t n) =
     (view c)\<lparr>v_so := False, v_au := False, v_sl := slider_new, v_hw := next_primary_hello_state c, v_pa := []\<rparr>"
  unfolding begin_primary_hello_def Let_def
  by simp (simp add: view_def full_reset_def clear_outbound_session_data_def clear_hello_wait_state_def
      set_hello_wait_state_def data_read_reset_def)

lemma view_rebind [simp]:
  "view (send_rebind_hello_again env c t b n) =
     (view c)\<lparr>v_hw := HW_RebindHelloAgain, v_pa := (if b then [] else v_pa (view c))\<rparr>"
  by (simp add: send_rebind_hello_again_def Let_def)

lemma view_want_new_hello:
  "view (apply_want_new_hello c) = (view c)\<lparr>v_so := False, v_au := False, v_sl := slider_new, v_hw := HW_Idle, v_pa := []\<rparr>"
  unfolding apply_want_new_hello_def
  by simp (simp add: view_def full_reset_def clear_hello_wait_state_def set_hello_wait_state_def data_read_reset_def)

lemma view_fine_auth_done: "view (apply_fine_auth_done c) = (view c)\<lparr>v_au := True, v_hw := HW_Idle\<rparr>"
  by (simp add: apply_fine_auth_done_def view_def fire_lifecycle_def clear_hello_wait_state_def set_hello_wait_state_def Let_def)

lemma view_need_hello_again:
  "view (apply_need_hello_again c t) = view c \<or>
   (\<exists>s \<in> {HW_Idle, HW_RebindHelloAgain}. view (apply_need_hello_again c t) = (view c)\<lparr>v_so := True, v_hw := s\<rparr>)"
  by (auto simp: apply_need_hello_again_def view_def clear_hello_wait_state_def set_hello_wait_state_def
      allows_hello_again_retry_def Let_def)

lemma view_disconnect: "view (disconnect c) = (view c)\<lparr>v_au := False, v_hw := HW_Idle, v_pa := []\<rparr>"
  by (simp add: disconnect_def view_def clear_hello_wait_state_def set_hello_wait_state_def)

lemma view_force_disconnect:
  "view (do_force_disconnect c t) =
     (if c_soft_reconnect c then (view c)\<lparr>v_au := False, v_hw := HW_Idle\<rparr>
      else (view c)\<lparr>v_au := False, v_hw := HW_Idle, v_sl := slider_new, v_pa := []\<rparr>)"
  by (simp add: do_force_disconnect_def Let_def view_def full_reset_def clear_outbound_session_data_def
      clear_hello_wait_state_def set_hello_wait_state_def data_read_reset_def send_session_close_def)

lemma view_repair [simp]: "view (repair_unwanted_trades_stream c t) = view c"
  by (simp add: repair_unwanted_trades_stream_def)

text \<open>What the gates of \<^verbatim>\<open>client_new_data\<close> let through: nothing before authorization, and domain data before the domain
  is ready only if it belongs to the start-up state.\<close>

definition gated :: "delivery \<Rightarrow> bool" where
  "gated d \<longleftrightarrow> dl_authorized d \<and>
     (is_domain_push_command (from_byte (dl_cmd d)) \<longrightarrow>
        dl_domain_ready d \<or> incoming_allowed_before_domain_ready (from_byte (dl_cmd d)) (dl_payload d))"

definition delivers :: "client \<Rightarrow> client \<Rightarrow> u8 \<Rightarrow> bytes \<Rightarrow> origin \<Rightarrow> bool" where
  "delivers c c' cmd payload x \<longleftrightarrow>
     view c' = view c \<or>
     (\<exists>d. gated d \<and> dl_cmd d = cmd \<and> dl_payload d = payload \<and> dl_origin d = x \<and>
        view c' = (view c)\<lparr>v_de := v_de (view c) @ [d]\<rparr>)"

lemma new_data_decoded_cases:
  assumes "client_new_data_decoded c cmd p a ch = (ps, c')"
  shows "view c' = view c" "c_authorized c' = c_authorized c" "c_domain_ready c' = c_domain_ready c"
    "ps = [] \<or> (\<exists>q. ps = [q] \<and> dp_raw q = dp_raw p \<and> (cmd = to_byte Command_API \<longrightarrow> \<not> ch))"
proof -
  obtain out pg where out: "process_api_command_decoded (cs_inflate (c_streams c)) (c_pending_api c) p a ch (instant_of c 0)
      (instant_of c (Suc 0)) = (out, pg)" by fastforce
  have raw: "out = Api_Deliver r q \<or> out = Api_Raw q \<Longrightarrow> dp_raw q = dp_raw p \<and> \<not> ch" for r q
    by (rule process_api_raw [OF out])
  have c': "c' = snd (client_new_data_decoded c cmd p a ch)" and ps: "ps = fst (client_new_data_decoded c cmd p a ch)"
    using assms by simp_all
  show "view c' = view c" "c_authorized c' = c_authorized c" "c_domain_ready c' = c_domain_ready c"
    unfolding c' using out
    by (cases "cmd = to_byte Command_API"; cases out; simp add: client_new_data_decoded_def)+
  show "ps = [] \<or> (\<exists>q. ps = [q] \<and> dp_raw q = dp_raw p \<and> (cmd = to_byte Command_API \<longrightarrow> \<not> ch))"
  proof (cases out)
    case (Api_Deliver r q)
    then show ?thesis using out raw [of r q] by (simp add: ps client_new_data_decoded_def)
  next
    case (Api_Raw q)
    then show ?thesis using out raw [of undefined q] by (simp add: ps client_new_data_decoded_def)
  qed (use out in \<open>simp add: ps client_new_data_decoded_def\<close>)
qed

lemma new_data_delivers:
  assumes "cmd = to_byte Command_API \<and> ch \<or> payload_deref (dp_raw p) = d"
  shows "delivers c (client_new_data c cmd p a ch t x) cmd d x"
proof -
  define c0 where "c0 = (if from_byte cmd = Command_TradesStream \<and> c_authorized c then c\<lparr>c_last_trades_stream_ms := t\<rparr> else c)"
  have c0: "view c0 = view c" "c_authorized c0 = c_authorized c" "c_domain_ready c0 = c_domain_ready c" by (simp_all add: c0_def)
  obtain ps c1 where ps: "client_new_data_decoded c0 cmd p a ch = (ps, c1)" by fastforce
  note n = new_data_decoded_cases [OF ps]
  have de: "c_delivered c1 = c_delivered c" using arg_cong [OF n(1), of v_de] arg_cong [OF c0(1), of v_de] by simp
  have one: "view (deliver_decoded c1 cmd t x q) = (view c)\<lparr>v_de := v_de (view c) @ [\<lparr>dl_cmd = cmd, dl_payload = payload_deref (dp_raw q),
      dl_time = t, dl_origin = x, dl_authorized = c_authorized c, dl_domain_ready = c_domain_ready c\<rparr>]\<rparr>" for q
    using n(1-3) c0 de by (simp add: deliver_decoded_def) (simp add: view_def)
  define drop where "drop \<longleftrightarrow> is_domain_push_command (from_byte cmd) \<and> \<not> c_domain_ready c \<and>
      \<not> incoming_allowed_before_domain_ready (from_byte cmd) (payload_deref (dp_raw p))"
  have X: "client_new_data c cmd p a ch t x =
      (if drop then c
       else if is_trades_stream_command (from_byte cmd) \<and> \<not> c_trades_subscribed c0
       then if from_byte cmd = Command_TradesStream then repair_unwanted_trades_stream c0 t else c0
       else if \<not> c_authorized c then c1 else foldl (\<lambda>c. deliver_decoded c cmd t x) c1 ps)"
    unfolding client_new_data_def Let_def c0_def [symmetric] drop_def by (simp add: ps n(2) c0(2))
  show ?thesis
  proof (cases "drop \<or> (is_trades_stream_command (from_byte cmd) \<and> \<not> c_trades_subscribed c0) \<or> \<not> c_authorized c \<or> ps = []")
    case True
    then have "view (client_new_data c cmd p a ch t x) = view c"
      unfolding X using n(1) c0(1) by auto
    then show ?thesis by (simp add: delivers_def)
  next
    case False
    then obtain q where q: "ps = [q]" "dp_raw q = dp_raw p" "cmd = to_byte Command_API \<longrightarrow> \<not> ch" using n(4) by blast
    then have "payload_deref (dp_raw q) = d" using assms by auto
    then show ?thesis
      unfolding X delivers_def using False one [of q] q
      by (intro disjI2 exI [of _ "\<lparr>dl_cmd = cmd, dl_payload = d, dl_time = t, dl_origin = x, dl_authorized = c_authorized c,
            dl_domain_ready = c_domain_ready c\<rparr>"]) (auto simp: gated_def drop_def)
  qed
qed

lemma finish_delivers:
  assumes "from_byte cmd \<noteq> Command_NeedHelloAgain" "from_byte cmd \<noteq> Command_SessionClose"
  shows "delivers c (finish_decoded_command c cmd p t st x) cmd (payload_deref p) x"
proof -
  let ?i = "cs_inflate (c_streams c)"
  obtain b1 api q where 1: "dispatch_api_pending_decoded ?i (pg_api (c_pending_api c)) cmd (decoded_payload_from p)
      (instant_of c 0) (instant_of c (Suc 0)) = (b1, api, q)" by (metis prod_cases3)
  have q: "dp_raw q = p" using 1 by (rule api_pending_cases) auto
  obtain b2 pg raw where 2: "dispatch_chunked_api_response ?i ((c_pending_api c)\<lparr>pg_api := api\<rparr>) cmd p = (b2, pg, raw)"
    by (metis prod_cases3)
  define c1 where "c1 = apply_stats_opt (c\<lparr>c_pending_api := pg, c_instant_pos := c_instant_pos c + 2\<rparr>) st"
  have "b2 \<Longrightarrow> cmd = to_byte Command_API"
    using 2 by (auto simp: dispatch_chunked_api_response_def split: if_splits)
  moreover have "\<not> b2 \<Longrightarrow> raw = p" using chunked_dispatch_cases [OF 2] by blast
  ultimately have "delivers c1 (client_new_data c1 cmd (q\<lparr>dp_raw := raw\<rparr>) b1 b2 t x) cmd (payload_deref p) x"
    by (intro new_data_delivers) auto
  moreover have "view c1 = view c" by (simp add: c1_def)
  moreover have "finish_decoded_command c cmd p t st x = client_new_data c1 cmd (q\<lparr>dp_raw := raw\<rparr>) b1 b2 t x"
    using assms 1 2 q by (simp add: finish_decoded_command_def Let_def c1_def)
  ultimately show ?thesis by (simp add: delivers_def)
qed

lemma delivers_authorized: "delivers c c' cmd d x \<Longrightarrow> c_authorized c' = c_authorized c"
  by (auto simp: delivers_def dest!: arg_cong [where f = v_au])

lemma view_data_read:
  "view (c\<lparr>c_data_read := r\<rparr>) = (view c)\<lparr>v_sl := dr_slider r, v_ck := dr_decode_cipher r\<rparr>"
  by (simp add: view_def)

lemma next_primary_state: "next_primary_hello_state c \<in> {HW_PrimaryHelloCold, HW_PrimaryHelloNewSession}"
  by (simp add: next_primary_hello_state_def)


section \<open>The invariant\<close>

definition sealed_pairs :: "delivery list \<Rightarrow> (nat \<times> u64) list" where
  "sealed_pairs ds = List.map_filter (\<lambda>d. case dl_origin d of Plain \<Rightarrow> None | Sealed s m \<Rightarrow> Some (s, m)) ds"

lemma sealed_pairs_simps [simp]:
  "sealed_pairs [] = []"
  "sealed_pairs (ds @ [d]) = sealed_pairs ds @ (case dl_origin d of Plain \<Rightarrow> [] | Sealed s m \<Rightarrow> [(s, m)])"
  by (simp_all add: sealed_pairs_def List.map_filter_def split: origin.split)

text \<open>Between the end of a session and the keys of the next nothing encrypted is accepted, and nothing is
  kept back for later when the new keys come; whatever is kept back belongs to the current session.\<close>

definition quiescent :: "sview \<Rightarrow> bool" where
  "quiescent v \<longleftrightarrow>
     \<not> v_au v \<and> \<not> v_so v \<and> v_hw v \<in> {HW_Idle, HW_PrimaryHelloCold, HW_PrimaryHelloNewSession}"

definition window_covers :: "sview \<Rightarrow> bool" where
  "window_covers v \<longleftrightarrow> (\<forall>m. (v_ss v, m) \<in> set (sealed_pairs (v_de v)) \<longrightarrow> slider_blocked (v_sl v) m)"

definition vinv :: "sview \<Rightarrow> bool" where
  "vinv v \<longleftrightarrow>
     slider_wf (v_sl v) \<and> distinct (sealed_pairs (v_de v))
     \<and> (\<forall>(s, m) \<in> set (sealed_pairs (v_de v)). s \<le> v_ss v)
     \<and> (v_hw v \<in> {HW_PrimaryHelloCold, HW_PrimaryHelloNewSession} \<longrightarrow> quiescent v \<and> v_sl v = slider_new \<and> v_pa v = [])
     \<and> set (v_pa v) \<subseteq> {v_ss v}
     \<and> (v_hw v = HW_PrimaryImFriendSent \<longrightarrow> \<not> v_au v)
     \<and> (quiescent v \<or> window_covers v)
     \<and> (\<forall>k. v_ck v = Some k \<longrightarrow> aead_correct k)
     \<and> (\<forall>d \<in> set (v_de v). gated d \<and> (sensitive (dl_cmd d) (dl_payload d) \<longrightarrow> dl_origin d \<noteq> Plain))"

lemma vinv_new_session:
  assumes "vinv v" "s \<in> {HW_Idle, HW_PrimaryHelloCold, HW_PrimaryHelloNewSession}"
  shows "vinv (v\<lparr>v_so := False, v_au := False, v_sl := slider_new, v_hw := s, v_pa := []\<rparr>)"
  using assms by (auto simp: vinv_def quiescent_def slider_new_wf)

lemma vinv_nothing_kept: "vinv v \<Longrightarrow> vinv (v\<lparr>v_pa := []\<rparr>)"
  by (auto simp: vinv_def quiescent_def window_covers_def)

lemma vinv_window_kept:
  assumes "vinv v" "\<not> quiescent v"
  shows "s \<in> {HW_Idle, HW_RebindHelloAgain} \<Longrightarrow> vinv (v\<lparr>v_hw := s\<rparr>)"
    "s \<in> {HW_Idle, HW_RebindHelloAgain} \<Longrightarrow> vinv (v\<lparr>v_so := b, v_hw := s\<rparr>)"
    "vinv (v\<lparr>v_au := False, v_hw := HW_Idle\<rparr>)" "vinv (v\<lparr>v_au := True, v_hw := HW_Idle\<rparr>)"
  using assms by (auto simp: vinv_def window_covers_def)

lemma vinv_drop_authorization: "vinv v \<Longrightarrow> vinv (v\<lparr>v_au := False, v_hw := HW_Idle\<rparr>)"
  by (auto simp: vinv_def window_covers_def quiescent_def)

lemma vinv_no_soft: "vinv v \<Longrightarrow> \<not> v_au v \<Longrightarrow> vinv (v\<lparr>v_so := False\<rparr>)"
  by (auto simp: vinv_def window_covers_def quiescent_def)

lemma vinv_fresh_keys:
  assumes "vinv v" "v_hw v \<in> {HW_PrimaryHelloCold, HW_PrimaryHelloNewSession}" "aead_correct k"
  shows "vinv (v\<lparr>v_ck := Some k, v_ss := Suc (v_ss v), v_hw := HW_PrimaryImFriendSent\<rparr>)"
  using assms by (fastforce simp: vinv_def window_covers_def quiescent_def)

lemma vinv_slide:
  assumes "vinv v" "v_au v"
  shows "vinv (v\<lparr>v_sl := snd (check_revd (v_sl v) m)\<rparr>)"
  using assms slider_filter.check_inv slider_filter.blocked_mono
  by (auto simp: vinv_def window_covers_def quiescent_def)

lemma vinv_deliver_plain:
  assumes "vinv v" "gated d" "\<not> sensitive (dl_cmd d) (dl_payload d)" "dl_origin d = Plain"
  shows "vinv (v\<lparr>v_de := v_de v @ [d]\<rparr>)"
  using assms by (auto simp: vinv_def window_covers_def quiescent_def)

lemma vinv_deliver_sealed:
  assumes "vinv v" "v_au v" "(v_ss v, m) \<notin> set (sealed_pairs (v_de v))" "slider_blocked (v_sl v) m"
    and "gated d" "dl_origin d = Sealed (v_ss v) m"
  shows "vinv (v\<lparr>v_de := v_de v @ [d]\<rparr>)"
  using assms by (auto simp: vinv_def window_covers_def quiescent_def)

lemma vinv_fresh:
  assumes "vinv v" "v_au v" "fst (check_revd (v_sl v) m)"
  shows "(v_ss v, m) \<notin> set (sealed_pairs (v_de v))" "slider_blocked (snd (check_revd (v_sl v) m)) m"
proof -
  have wf: "slider_wf (v_sl v)" and cov: "window_covers v"
    using assms(1,2) by (auto simp: vinv_def quiescent_def)
  then show "(v_ss v, m) \<notin> set (sealed_pairs (v_de v))"
    using slider_filter.check_accepts [OF wf] assms(3) by (auto simp: window_covers_def)
  show "slider_blocked (snd (check_revd (v_sl v) m)) m" by (rule slider_filter.blocked_after [OF wf])
qed

section \<open>Receiving keeps the invariant\<close>

lemma sensitive_NeedHelloAgain: "from_byte cmd = Command_NeedHelloAgain \<Longrightarrow> sensitive cmd p"
  by (simp add: sensitive_def)

lemma sensitive_SessionClose: "from_byte cmd = Command_SessionClose \<Longrightarrow> sensitive cmd p"
  by (simp add: sensitive_def)

lemma finish_plain:
  assumes "vinv (view c)" "\<not> sensitive cmd (payload_deref p)"
  shows "vinv (view (finish_decoded_command c cmd p t st Plain))"
proof -
  have "from_byte cmd \<noteq> Command_NeedHelloAgain" "from_byte cmd \<noteq> Command_SessionClose"
    using assms(2) sensitive_NeedHelloAgain [of cmd "payload_deref p"] sensitive_SessionClose [of cmd "payload_deref p"] by auto
  from finish_delivers [OF this, of c p t st Plain] show ?thesis
    using vinv_deliver_plain [OF assms(1)] assms by (auto simp: delivers_def)
qed

lemma need_hello_again_vinv:
  assumes "vinv (view c)" "c_authorized c"
  shows "vinv (view (apply_need_hello_again c t))"
  using view_need_hello_again [of c t] vinv_window_kept(2) [OF assms(1)] assms by (auto simp: quiescent_def)

lemma finish_sealed:
  assumes v: "vinv (view c)" "c_authorized c" and m: "(c_session c, m) \<notin> set (sealed_pairs (c_delivered c))"
    "slider_blocked (dr_slider (c_data_read c)) m"
  shows "vinv (view (finish_decoded_command c cmd p t st (Sealed (c_session c) m)))"
proof (cases "from_byte cmd \<in> {Command_NeedHelloAgain, Command_SessionClose}")
  case True
  then show ?thesis using need_hello_again_vinv [OF v] v(1) by (auto simp: finish_decoded_command_def)
next
  case False
  moreover have "vinv ((view c)\<lparr>v_de := v_de (view c) @ [d]\<rparr>)" if "gated d" "dl_origin d = Sealed (c_session c) m" for d
    using v m that by (intro vinv_deliver_sealed [where m = m]) simp_all
  ultimately show ?thesis
    using finish_delivers [of cmd c p t st "Sealed (c_session c) m"] v(1) by (auto simp: delivers_def)
qed

text \<open>A command is kept back only while the keys of the current session await their Fine.\<close>

lemma vinv_defer:
  "vinv v \<Longrightarrow> allows_fine (v_hw v) \<Longrightarrow> vinv (v\<lparr>v_pa := v_pa v @ [v_ss v]\<rparr>)"
  by (auto simp: vinv_def quiescent_def window_covers_def allows_fine_def)

lemma deferred_vinv:
  assumes "defer_crypted_before_auth c raw d t = (b, c')" "vinv (view c)"
  shows "vinv (view c')" "\<not> b \<Longrightarrow> c' = c \<and> (c_authorized c \<or> from_byte raw \<noteq> Command_Crypted)"
proof -
  have "view c' = view c \<or> allows_fine (v_hw (view c)) \<and> view c' = (view c)\<lparr>v_pa := v_pa (view c) @ [v_ss (view c)]\<rparr>"
    using assms(1) by (auto simp: defer_crypted_before_auth_def split: if_splits option.splits prod.splits)
  then show "vinv (view c')" using assms(2) vinv_defer [OF assms(2)] by auto
  show "\<not> b \<Longrightarrow> c' = c \<and> (c_authorized c \<or> from_byte raw \<noteq> Command_Crypted)"
    using assms(1) by (auto simp: defer_crypted_before_auth_def split: if_splits option.splits prod.splits)
qed

text \<open>Decoding an encrypted command in an authorized session.\<close>

lemma decode_crypted_cases:
  assumes "from_byte raw = Command_Crypted" "decode_command_payload_shared r raw d = (out, r')"
  obtains "out = None" "r' = r"
  | hdr pt k where "dr_decode_cipher r = Some k" "decrypt_command_no_replay k d = Some (hdr, pt)"
      "r' = r\<lparr>dr_slider := snd (check_revd (dr_slider r) (cr_msg_num hdr))\<rparr>"
      "out \<noteq> None \<longrightarrow> fst (check_revd (dr_slider r) (cr_msg_num hdr))"
proof (cases "dr_decode_cipher r")
  case None
  then show thesis using assms that(1) by (simp add: decode_command_payload_shared_def)
next
  case (Some k)
  show thesis
  proof (cases "decrypt_command_no_replay k d")
    case None
    then show thesis
      using assms Some that(1) by (simp add: decode_command_payload_shared_def decrypt_command_def)
  next
    case (Some x)
    obtain hdr pt where x: "x = (hdr, pt)" by fastforce
    obtain b s where b: "check_revd (dr_slider r) (cr_msg_num hdr) = (b, s)" by fastforce
    show thesis
      using assms \<open>dr_decode_cipher r = Some k\<close> Some x b
      by (intro that(2) [of k hdr pt])
        (auto simp: decode_command_payload_shared_def decrypt_command_def split: if_splits)
  qed
qed

lemma decode_plain_cases:
  assumes "from_byte raw \<noteq> Command_Crypted" "decode_command_payload_shared r raw d = (out, r')"
  shows "r' = r" "out = Some (cmd, p) \<Longrightarrow> \<not> sensitive cmd p"
  using assms decode_tail_plain [of raw d cmd p] by (auto simp: decode_command_payload_shared_def)

lemma decoded_vinv:
  assumes v: "vinv (view c)" and auth: "c_authorized c \<or> from_byte raw \<noteq> Command_Crypted"
    and dec: "decode_command_payload_shared (c_data_read c) raw d = (out, r)"
  shows "vinv (view (c\<lparr>c_data_read := r\<rparr>))"
    "out = Some (cmd, payload_deref q) \<Longrightarrow>
       vinv (view (finish_decoded_command (c\<lparr>c_data_read := r\<rparr>) cmd q t st (origin_of c raw d)))"
proof -
  let ?c = "c\<lparr>c_data_read := r\<rparr>"
  have "vinv (view ?c) \<and> (out = Some (cmd, payload_deref q) \<longrightarrow>
      vinv (view (finish_decoded_command ?c cmd q t st (origin_of c raw d))))"
  proof (cases "from_byte raw = Command_Crypted")
    case False
    note pl = decode_plain_cases(1) [OF False dec] decode_plain_cases(2) [OF False dec, of cmd "payload_deref q"]
    then have c: "?c = c" by simp
    show ?thesis
      using v pl finish_plain [OF v, of cmd q t st] False unfolding c by (auto simp: origin_of_def)
  next
    case True
    with auth have au: "c_authorized c" by simp
    from True dec show ?thesis
    proof (cases rule: decode_crypted_cases)
      case 1
      then show ?thesis using v by simp
    next
      case (2 hdr pt k)
      let ?m = "cr_msg_num hdr"
      have view: "view ?c = (view c)\<lparr>v_sl := snd (check_revd (v_sl (view c)) ?m)\<rparr>"
        using 2(3) by (simp add: view_def)
      have v': "vinv (view ?c)" unfolding view using v au by (intro vinv_slide) simp_all
      moreover have "vinv (view (finish_decoded_command ?c cmd q t st (origin_of c raw d)))" if "out = Some (cmd, payload_deref q)"
      proof -
        have "origin_of c raw d = Sealed (c_session ?c) ?m" using True 2 by (simp add: origin_of_def)
        moreover have "(c_session ?c, ?m) \<notin> set (sealed_pairs (c_delivered ?c))"
          "slider_blocked (dr_slider (c_data_read ?c)) ?m"
          using vinv_fresh [OF v, of ?m] au 2(3,4) that by auto
        ultimately show ?thesis using finish_sealed [of ?c ?m cmd q t st] v' au by simp
      qed
      ultimately show ?thesis by blast
    qed
  qed
  then show "vinv (view ?c)" "out = Some (cmd, payload_deref q) \<Longrightarrow>
       vinv (view (finish_decoded_command ?c cmd q t st (origin_of c raw d)))" by auto
qed

lemma dispatch_command_vinv:
  assumes "vinv (view c)"
  shows "vinv (view (dispatch_command c raw d n t e st))"
proof -
  define c0 where "c0 = (if e then apply_recv_side_effects c n t else c)"
  have v0: "vinv (view c0)" using assms by (simp add: c0_def)
  obtain b c1 where b: "defer_crypted_before_auth c0 raw d t = (b, c1)" by fastforce
  note df = deferred_vinv [OF b v0]
  obtain out r where dec: "decode_command_payload_shared (c_data_read c1) raw d = (out, r)" by fastforce
  note v1 = df(1)
  show ?thesis
  proof (cases b)
    case True
    then show ?thesis using v1 b by (simp add: dispatch_command_def c0_def Let_def)
  next
    case False
    then have auth: "c_authorized c1 \<or> from_byte raw \<noteq> Command_Crypted" using df(2) by auto
    note dv = decoded_vinv [OF v1 auth dec]
    show ?thesis
    proof (cases out)
      case None
      then show ?thesis using dv(1) b dec False by (simp add: dispatch_command_def c0_def Let_def)
    next
      case (Some x)
      obtain cmd p where x: "x = (cmd, p)" by fastforce
      show ?thesis
        using dv(2) [of cmd "payload_from p" t st] b dec False Some x
        by (simp add: dispatch_command_def c0_def Let_def payload_from_def payload_deref_def)
    qed
  qed
qed


lemma vinv_cipher: "vinv (view c) \<Longrightarrow> dr_decode_cipher (c_data_read c) = Some k \<Longrightarrow> aead_correct k"
  by (simp add: vinv_def)

text \<open>The owning dispatcher decodes to the same command.\<close>

lemma dispatch_owned_vinv:
  assumes "vinv (view c)"
  shows "vinv (view (dispatch_command_owned c raw p n t e st))"
proof -
  define c0 where "c0 = (if e then apply_recv_side_effects c n t else c)"
  have v0: "vinv (view c0)" using assms by (simp add: c0_def)
  obtain b c1 where b: "defer_crypted_before_auth c0 raw (payload_deref p) t = (b, c1)" by fastforce
  note df = deferred_vinv [OF b v0]
  note v1 = df(1)
  have e: "map_option (\<lambda>(c, q). (c, payload_deref q)) (fst (decode_command_payload_owned (c_data_read c1) raw p)) =
           fst (decode_command_payload_shared (c_data_read c1) raw (payload_deref p))
       \<and> snd (decode_command_payload_owned (c_data_read c1) raw p)
           = snd (decode_command_payload_shared (c_data_read c1) raw (payload_deref p))"
    using vinv_cipher [OF v1] by (intro decode_owned_eq) simp
  obtain o1 r where o1: "decode_command_payload_owned (c_data_read c1) raw p = (o1, r)" by fastforce
  have dec: "decode_command_payload_shared (c_data_read c1) raw (payload_deref p) =
      (map_option (\<lambda>(c, q). (c, payload_deref q)) o1, r)" using e o1 by (simp add: prod_eq_iff)
  show ?thesis
  proof (cases b)
    case True
    then show ?thesis using v1 b by (simp add: dispatch_command_owned_def c0_def Let_def)
  next
    case False
    then have auth: "c_authorized c1 \<or> from_byte raw \<noteq> Command_Crypted" using df(2) by auto
    note dv = decoded_vinv [OF v1 auth dec]
    show ?thesis
      using dv(1) dv(2) [where t = t and st = st] b o1 False
      by (cases o1) (auto simp: dispatch_command_owned_def c0_def Let_def)
  qed
qed

lemma dispatch_frames_vinv: "vinv (view c) \<Longrightarrow> vinv (view (dispatch_frames fs c n t e first))"
  by (induction fs arbitrary: c first) (simp_all add: dispatch_command_vinv)

lemma dispatch_packet_vinv: "vinv (view c) \<Longrightarrow> vinv (view (dispatch_packet_commands c raw d n t e))"
  by (simp add: dispatch_packet_commands_def dispatch_command_vinv dispatch_frames_vinv)

lemma finish_session:
  "c_authorized (finish_decoded_command c cmd p t st x) = c_authorized c"
  "c_session (finish_decoded_command c cmd p t st x) = c_session c"
proof -
  have "v_au (view (finish_decoded_command c cmd p t st x)) = c_authorized c \<and> v_ss (view (finish_decoded_command c cmd p t st x)) = c_session c"
  proof (cases "from_byte cmd \<in> {Command_NeedHelloAgain, Command_SessionClose}")
    case True
    then show ?thesis
      using view_need_hello_again [of c t] by (auto simp: finish_decoded_command_def simp del: view_sel) simp_all
  next
    case False
    then show ?thesis using finish_delivers [of cmd c p t st x] by (auto simp: delivers_def simp del: view_sel) simp_all
  qed
  then show "c_authorized (finish_decoded_command c cmd p t st x) = c_authorized c"
    "c_session (finish_decoded_command c cmd p t st x) = c_session c" by simp_all
qed

lemma drain_item_vinv:
  assumes v: "vinv (view c)" "c_authorized c" and own: "pa_session item = c_session c"
  shows "vinv (view (drain_item c item)) \<and> c_authorized (drain_item c item) \<and> c_session (drain_item c item) = c_session c"
proof -
  let ?m = "pa_msg_num item"
  obtain b s where b: "check_revd (dr_slider (c_data_read c)) ?m = (b, s)" by fastforce
  define c1 where "c1 = c\<lparr>c_data_read := (c_data_read c)\<lparr>dr_slider := s\<rparr>\<rparr>"
  have view: "view c1 = (view c)\<lparr>v_sl := snd (check_revd (v_sl (view c)) ?m)\<rparr>"
    using b by (simp add: c1_def view_def)
  have v1: "vinv (view c1)" "c_authorized c1" "c_session c1 = c_session c"
    using v vinv_slide [of "view c" ?m] by (simp_all add: view) (simp_all add: c1_def)
  have fin: "vinv (view (finish_decoded_command c1 cmd p t None (Sealed (c_session c1) ?m)))" if b for cmd p t
    using vinv_fresh [of "view c" ?m] v b that by (intro finish_sealed v1) (simp_all add: c1_def)
  show ?thesis
    using b v1 fin finish_session own by (auto simp: drain_item_def c1_def Let_def split: option.splits)
qed

lemma drain_vinv: "vinv (view c) \<Longrightarrow> vinv (view (drain_deferred_pre_auth_crypted c))"
proof -
  assume v: "vinv (view c)"
  have "vinv (view (foldl drain_item c items)) \<and> c_authorized (foldl drain_item c items)"
    if "vinv (view c)" "c_authorized c" "\<forall>i \<in> set items. pa_session i = c_session c" for c items
    using that by (induction items arbitrary: c) (simp_all add: drain_item_vinv)
  moreover have "\<forall>i \<in> set (c_pre_auth_crypted c). pa_session i = c_session c" using v by (auto simp: vinv_def)
  ultimately show "vinv (view (drain_deferred_pre_auth_crypted c))"
    using v vinv_nothing_kept [OF v] by (simp add: drain_deferred_pre_auth_crypted_def)
qed

lemma on_new_sliced_vinv: "vinv (view c) \<Longrightarrow> vinv (view (on_new_sliced c d n t))"
  by (auto simp: on_new_sliced_def Let_def dispatch_owned_vinv split: prod.splits option.splits)

lemma apply_ping_view: "view (snd (apply_ping_and_build_response c d rx n)) = view c"
proof (cases "ping_frame_read d")
  case (Some ping)
  then show ?thesis
    by (simp add: apply_ping_and_build_response_def Let_def case_prod_unfold view_def)
qed (simp add: apply_ping_and_build_response_def)

lemma on_new_ping_vinv:
  assumes "vinv (view c)"
  shows "vinv (view (on_new_ping c d rx n))"
proof -
  obtain r c1 where r: "apply_ping_and_build_response c d rx n = (r, c1)" by fastforce
  have view: "view c1 = view c"
    using apply_ping_view [of c d rx n] r by simp
  have "\<not> sensitive (to_byte Command_Ping) p" for p
    by (simp add: sensitive_def from_byte_def)
  moreover have "vinv (view (client_new_data c2 (to_byte Command_Ping) (decoded_payload_from (payload_from d)) False False t Plain))"
    if "view c2 = view c" for c2 t
    using new_data_delivers [of "to_byte Command_Ping" False "decoded_payload_from (payload_from d)" _ c2 False t Plain, OF disjI2, OF refl]
      vinv_deliver_plain [OF assms] calculation assms that by (auto simp: delivers_def)
  ultimately show ?thesis
    using r view assms by (cases r) (simp_all add: on_new_ping_def)
qed

lemma apply_hello_view:
  "view (snd (apply_hello_and_build_imfriend env c h n)) =
     (view c)\<lparr>v_ck := Some (ce_cipher env (c_decode_key (snd (apply_hello_and_build_imfriend env c h n)))), v_ss := Suc (c_session c)\<rparr>"
proof -
  have b: "view (snd (build_imfriend_packet c n)) = view c" "c_decode_key (snd (build_imfriend_packet c n)) = c_decode_key c"
    for c by (simp_all add: build_imfriend_packet_def encrypt_packet_def Let_def split: option.splits)
  have s: "snd (case x of (None, c) \<Rightarrow> ([], c) | (Some e, c) \<Rightarrow> (e, c)) = snd x" for x :: "bytes option \<times> client"
    by (cases x; cases "fst x") auto
  show ?thesis
    unfolding apply_hello_and_build_imfriend_def Let_def
    by (simp add: case_prod_unfold s [unfolded case_prod_unfold] b)
      (simp add: view_def refresh_ack_session32_def set_decode_cipher_def accepted_server_mix_ts_def fire_lifecycle_def)
qed

definition ciphers_correct :: "crypto_env \<Rightarrow> bool" where
  "ciphers_correct env \<longleftrightarrow> (\<forall>key. aead_correct (ce_cipher env key))"

lemma on_who_are_you_vinv:
  assumes "ciphers_correct env" "vinv (view c)"
  shows "vinv (view (on_who_are_you env c d t n))"
proof (cases "allows_who_are_you (c_hello_wait_state c) \<and> c_server_token c = 0")
  case True
  have "vinv ((view (snd (apply_hello_and_build_imfriend env c h n)))\<lparr>v_hw := HW_PrimaryImFriendSent\<rparr>)" for h
    using vinv_fresh_keys [OF assms(2)] True assms(1)
    unfolding apply_hello_view by (simp add: allows_who_are_you_def ciphers_correct_def)
  then show ?thesis
    using assms(2) by (auto simp: on_who_are_you_def Let_def case_prod_unfold split: option.splits)
qed (use assms(2) in \<open>auto simp: on_who_are_you_def\<close>)

lemma on_fine_vinv: "vinv (view c) \<Longrightarrow> vinv (view (on_fine c d))"
  using vinv_window_kept(4) [of "view c"]
  by (auto simp: on_fine_def view_fine_auth_done allows_fine_def quiescent_def split: option.splits)

lemma on_handshake_control_vinv: "vinv (view c) \<Longrightarrow> vinv (view (on_handshake_control env c cmd d))"
  using vinv_new_session [of "view c" HW_Idle]
  by (auto simp: on_handshake_control_def view_want_new_hello split: option.splits)

lemma route_vinv:
  assumes "ciphers_correct env" "vinv (view c)"
  shows "vinv (view (route_command_inner env c raw p n m rx))"
proof -
  have v: "vinv (view (c\<lparr>c_recv_slicer := r\<rparr>))" for r using assms(2) by simp
  show ?thesis
    unfolding route_command_inner_def Let_def
    using v by (auto simp: on_new_ping_vinv on_handshake_control_vinv on_who_are_you_vinv [OF assms(1)] on_fine_vinv drain_vinv
        on_new_sliced_vinv dispatch_packet_vinv dispatch_owned_vinv)
qed

lemma process_datagram_vinv:
  "ciphers_correct env \<Longrightarrow> vinv (view c) \<Longrightarrow> vinv (view (process_datagram env c d rx))"
  by (auto simp: process_datagram_def Let_def intro!: route_vinv split: option.splits)

section \<open>Ticks keep the invariant\<close>

lemma rebind_vinv:
  assumes "vinv (view c)" "\<not> quiescent (view c)"
  shows "vinv (view (send_rebind_hello_again env c t b n))"
proof -
  have v: "vinv ((view c)\<lparr>v_hw := HW_RebindHelloAgain\<rparr>)" using vinv_window_kept(1) [OF assms] by simp
  have "(view c)\<lparr>v_hw := HW_RebindHelloAgain, v_pa := v_pa (view c)\<rparr> = (view c)\<lparr>v_hw := HW_RebindHelloAgain\<rparr>"
    by (simp add: view_def)
  with v vinv_nothing_kept [OF v] show ?thesis by (simp del: view_sel)
qed

lemma check_hello_send_vinv: "vinv (view c) \<Longrightarrow> vinv (view (check_hello_send env c t n))"
  using vinv_new_session [of "view c" "next_primary_hello_state c"] next_primary_state [of c]
    rebind_vinv [of c]
  by (auto simp: check_hello_send_def view_begin_primary quiescent_def Let_def simp del: view_rebind
      split: hello_wait_state.splits)

lemma vinv_lost_session: "vinv v \<Longrightarrow> vinv (v\<lparr>v_au := False, v_so := False, v_hw := HW_Idle\<rparr>)"
  by (auto simp: vinv_def quiescent_def)

lemma check_offline_vinv:
  assumes "vinv (view c)"
  shows "vinv (view (check_offline_reconnect env c t n))"
proof -
  have lost: "view (c\<lparr>c_auth_status := a, c_authorized := False, c_need_connect := x, c_soft_reconnect := False\<rparr>) =
      (view c)\<lparr>v_au := False, v_so := False\<rparr>" for a x
    by (simp add: view_def)
  have "allows_hello_again_retry (c_hello_wait_state c) \<or> c_authorized c \<Longrightarrow> \<not> quiescent (view c)"
    by (auto simp: quiescent_def allows_hello_again_retry_def)
  then show ?thesis
    using assms vinv_lost_session [OF assms] rebind_vinv [of "c\<lparr>c_auth_status := AS_Offline\<rparr>"]
    by (auto simp: check_offline_reconnect_def lost Let_def simp del: view_rebind)
qed

lemma check_timeout_vinv:
  assumes "vinv (view c)"
  shows "vinv (view (check_reconnect_timeout c t))"
proof (cases "is_waiting (c_hello_wait_state c) \<and> \<bar>t - c_waiting_hello_start c\<bar> > RECONNECT_WAITING_MS
         \<and> \<bar>t - c_last_socket_recreate c\<bar> > RECONNECT_THROTTLE_MS")
  case True
  let ?soft = "allows_hello_again_retry (c_hello_wait_state c) \<and> c_server_token c \<noteq> 0"
  have "view (check_reconnect_timeout c t) = (view c)\<lparr>v_so := ?soft, v_hw := HW_Idle\<rparr>"
    using True by (simp add: check_reconnect_timeout_def view_def clear_hello_wait_state_def set_hello_wait_state_def Let_def)
  moreover have "vinv ((view c)\<lparr>v_so := ?soft, v_hw := HW_Idle\<rparr>)"
  proof (cases "quiescent (view c)")
    case True
    then show ?thesis
      using assms by (auto simp: vinv_def quiescent_def allows_hello_again_retry_def)
  next
    case False
    then show ?thesis using vinv_window_kept(2) [OF assms] by simp
  qed
  ultimately show ?thesis by simp
next
  case False
  then have "check_reconnect_timeout c t = c" unfolding check_reconnect_timeout_def by (simp only: if_not_P simp_thms if_False)
  then show ?thesis using assms by simp
qed

lemma check_dead_zone_vinv: "vinv (view c) \<Longrightarrow> vinv (view (check_dead_zone c t))"
  using vinv_no_soft [of "view c"] by (auto simp: check_dead_zone_def view_def)

lemma force_disconnect_vinv: "vinv (view c) \<Longrightarrow> vinv (view (do_force_disconnect c t))"
  using vinv_drop_authorization [of "view c"] vinv_new_session [of "view c" HW_Idle]
  by (auto simp: view_force_disconnect) (simp add: view_def)

lemma tail_tick_vinv: "vinv (view c) \<Longrightarrow> vinv (view (transport_reconnect_tail_tick env c t n))"
  by (simp add: transport_reconnect_tail_tick_def Let_def check_hello_send_vinv check_offline_vinv check_timeout_vinv
      check_dead_zone_vinv force_disconnect_vinv)

lemma client_step_vinv:
  assumes "ciphers_correct env" "vinv (view c)"
  shows "vinv (view (client_step env c i))"
  using assms vinv_nothing_kept [OF vinv_drop_authorization [OF assms(2)]]
  by (cases i) (auto simp: client_step_def process_datagram_vinv tail_tick_vinv view_disconnect case_prod_unfold Let_def)

lemma client_run_vinv:
  "ciphers_correct env \<Longrightarrow> vinv (view c) \<Longrightarrow> vinv (view (client_run env c is))"
  unfolding client_run_def by (induction "is" arbitrary: c) (simp_all add: client_step_vinv)

lemma vinv_new: "vinv (view (client_new cfg w ct tk streams))"
  by (simp add: vinv_def view_def client_new_def data_read_new_def quiescent_def slider_new_wf)

end
