(* ===== verification/Handshake.thy ===== *)
theory Handshake
  imports Session_Safety
begin

text \<open>
  Safety and progress of the connection state machine: which commands reach the application and how
  often, what it takes to authorize a session, and that the handshake with a correct peer completes.
\<close>

section \<open>What receiving cannot change\<close>

definition kept :: "client \<Rightarrow> bool \<times> bool \<times> bool \<times> bool \<times> client_cfg" where
  "kept c = (c_authorized c, c_force_disconnect c, c_shutdown c, c_socket c, c_cfg c)"

lemma kept_updates [simp]:
  "kept (c\<lparr>c_data_read := r\<rparr>) = kept c" "kept (c\<lparr>c_recv_slicer := s\<rparr>) = kept c"
  "kept (c\<lparr>c_pre_auth_crypted := p\<rparr>) = kept c" "kept (c\<lparr>c_total_recv_shared := n\<rparr>) = kept c"
  "kept (c\<lparr>c_writer := w\<rparr>) = kept c" "kept (c\<lparr>c_send_lock := l\<rparr>) = kept c"
  "kept (c\<lparr>c_pending_api := g\<rparr>) = kept c" "kept (c\<lparr>c_instant_pos := k\<rparr>) = kept c"
  "kept (c\<lparr>c_responses := rs\<rparr>) = kept c" "kept (c\<lparr>c_last_trades_stream_ms := ms\<rparr>) = kept c"
  "kept (c\<lparr>c_last_trades_reconnect_check_ms := ms\<rparr>) = kept c" "kept (c\<lparr>c_delivered := ds\<rparr>) = kept c"
  by (simp_all add: kept_def)

lemma kept_frame [simp]:
  "kept (apply_recv_side_effects c n t) = kept c" "kept (apply_stats_opt c st) = kept c"
  "kept (apply_wrong_hello c) = kept c" "kept (accepted_server_mix_ts c ts) = kept c"
  "kept (fire_lifecycle c ev) = kept c" "kept (send_command c cmd p) = kept c"
  "kept (start_hello_wait c s t) = kept c" "kept (clear_hello_wait_state c) = kept c"
  "kept (refresh_ack_session32 env c) = kept c" "kept (on_new_sliced_ack c p) = kept c"
  "kept (apply_need_hello_again c t) = kept c" "kept (deliver_decoded c b t x q) = kept c"
  "kept (snd (build_imfriend_packet c n)) = kept c" "kept (on_new_probe_mtu c p) = kept c"
  by (simp_all add: kept_def apply_recv_side_effects_def apply_stats_opt_def apply_reader_sliced_stats_def
      apply_wrong_hello_def accepted_server_mix_ts_def fire_lifecycle_def send_command_def start_hello_wait_def
      set_hello_wait_state_def clear_hello_wait_state_def refresh_ack_session32_def on_new_sliced_ack_def
      apply_need_hello_again_def deliver_decoded_def build_imfriend_packet_def encrypt_packet_def on_new_probe_mtu_def
      Let_def split: option.split)

lemma kept_size_test [simp]: "kept (on_new_size_test c p) = kept c"
  by (simp add: on_new_size_test_def Let_def case_prod_unfold split: option.split)

lemma kept_repair [simp]: "kept (repair_unwanted_trades_stream c t) = kept c"
  by (simp add: repair_unwanted_trades_stream_def)

lemma kept_decoded: "kept (snd (client_new_data_decoded c cmd p a ch)) = kept c"
  by (simp add: client_new_data_decoded_def case_prod_unfold Let_def split: api_outcome.split)

lemma kept_new_data [simp]: "kept (client_new_data c cmd p a ch t x) = kept c"
proof -
  have "kept (foldl (\<lambda>c. deliver_decoded c cmd t x) d ps) = kept d" for d ps
    by (induction ps arbitrary: d) simp_all
  then show ?thesis by (simp add: client_new_data_def case_prod_unfold kept_decoded Let_def)
qed

lemma kept_finish [simp]: "kept (finish_decoded_command c cmd p t st x) = kept c"
  by (simp add: finish_decoded_command_def case_prod_unfold Let_def)

lemma kept_defer: "kept (snd (defer_crypted_before_auth c raw d t)) = kept c"
  by (simp add: defer_crypted_before_auth_def split: option.split)

lemma kept_dispatch [simp]:
  "kept (dispatch_command c raw d n t e st) = kept c"
  "kept (dispatch_command_owned c raw p n t e st) = kept c"
proof -
  define c0 where "c0 = (if e then apply_recv_side_effects c n t else c)"
  have "kept (snd (defer_crypted_before_auth c0 raw d t)) = kept c" for d
    by (simp add: kept_defer c0_def)
  from this [of d] this [of "payload_deref p"]
  show "kept (dispatch_command c raw d n t e st) = kept c" "kept (dispatch_command_owned c raw p n t e st) = kept c"
    unfolding dispatch_command_def dispatch_command_owned_def Let_def c0_def [symmetric]
    by (auto split: prod.splits bool.splits option.splits)
qed

lemma kept_frames [simp]: "kept (dispatch_frames fs c n t e b) = kept c"
  by (induction fs arbitrary: c b) simp_all

lemma kept_packet [simp]: "kept (dispatch_packet_commands c raw d n t e) = kept c"
  by (simp add: dispatch_packet_commands_def)

lemma kept_drain [simp]: "kept (drain_deferred_pre_auth_crypted c) = kept c"
proof -
  have "kept (drain_item c i) = kept c" for c i
    by (simp add: drain_item_def Let_def case_prod_unfold split: option.split)
  then have "kept (foldl drain_item c is) = kept c" for c "is"
    by (induction "is" arbitrary: c) simp_all
  then show ?thesis by (simp add: drain_deferred_pre_auth_crypted_def)
qed

lemma kept_sliced [simp]: "kept (on_new_sliced c d n t) = kept c"
  by (simp add: on_new_sliced_def Let_def case_prod_unfold split: option.split)

lemma kept_ping [simp]: "kept (on_new_ping c d rx n) = kept c"
proof -
  have "kept (snd (apply_ping_and_build_response c d rx n)) = kept c"
    by (simp add: apply_ping_and_build_response_def Let_def case_prod_unfold kept_def split: option.split)
  then show ?thesis by (auto simp: on_new_ping_def split: prod.splits option.split)
qed

lemma kept_who_are_you [simp]: "kept (on_who_are_you env c d t n) = kept c"
proof -
  have s: "snd (case x of (None, c) \<Rightarrow> ([], c) | (Some e, c) \<Rightarrow> (e, c)) = snd x" for x :: "bytes option \<times> client"
    by (cases x; cases "fst x") auto
  have "kept (snd (apply_hello_and_build_imfriend env c h n)) = kept c" for h
    unfolding apply_hello_and_build_imfriend_def Let_def case_prod_unfold s [unfolded case_prod_unfold] kept_frame(13)
    by (simp add: kept_def refresh_ack_session32_def accepted_server_mix_ts_def fire_lifecycle_def)
  then show ?thesis by (simp add: on_who_are_you_def Let_def case_prod_unfold split: option.split)
qed

lemma kept_inject:
  "kept c = kept d \<Longrightarrow> c_authorized c = c_authorized d \<and> c_force_disconnect c = c_force_disconnect d \<and>
     c_shutdown c = c_shutdown d \<and> c_socket c = c_socket d \<and> c_cfg c = c_cfg d"
  by (simp add: kept_def)


lemmas authorized_kept = kept_dispatch [THEN kept_inject, THEN conjunct1] kept_packet [THEN kept_inject, THEN conjunct1]
  kept_drain [THEN kept_inject, THEN conjunct1] kept_sliced [THEN kept_inject, THEN conjunct1]
  kept_ping [THEN kept_inject, THEN conjunct1] kept_who_are_you [THEN kept_inject, THEN conjunct1]
  kept_size_test [THEN kept_inject, THEN conjunct1] kept_frame(10,14) [THEN kept_inject, THEN conjunct1]

section \<open>What reaches the application\<close>

text \<open>C1: At most one delivery per session and message number.  Whatever datagrams, ticks, socket
  failures and calls of the application the client goes through since its creation, in any order, no
  two commands given to the application were sealed under the same session and message number: neither
  replayed datagrams, nor a Grouped container, a reassembled sliced datagram or a command deferred
  until Fine, nor a soft reconnect that keeps the session, delivers a sealed command twice.  The session of
  a command is the one whose cipher opened it, also for a command that waited for the Fine.\<close>

theorem sealed_delivered_once:
  assumes "ciphers_correct env"
  shows "distinct (sealed_pairs (c_delivered (client_run env (client_new cfg w ct tk streams) is)))"
  using client_run_vinv [OF assms vinv_new, of cfg w ct tk streams "is"] by (simp add: vinv_def)

text \<open>C5: A command of a sensitive family (orders, balances, strategies, user interface, session
  control, and every API response but the public bulk ones) is given to the application only if it
  arrived sealed under a session cipher, in every run.\<close>

theorem no_plaintext_sensitive:
  assumes "ciphers_correct env"
  shows "\<forall>d \<in> set (c_delivered (client_run env (client_new cfg w ct tk streams) is)).
           sensitive (dl_cmd d) (dl_payload d) \<longrightarrow> (\<exists>s m. dl_origin d = Sealed s m)"
proof -
  have "dl_origin d \<noteq> Plain \<Longrightarrow> \<exists>s m. dl_origin d = Sealed s m" for d
    by (cases "dl_origin d") auto
  moreover have "sensitive (dl_cmd d) (dl_payload d) \<Longrightarrow> dl_origin d \<noteq> Plain" if "d \<in> set (c_delivered c)" "vinv (view c)" for d c
    using that by (simp add: vinv_def)
  ultimately show ?thesis
    using client_run_vinv [OF assms vinv_new, of cfg w ct tk streams "is"] by blast
qed

text \<open>C6: The delivery gates.  In every run, what the application is given was delivered to an authorized
  client, and domain data (orders, strategies, balances, trades, order books, user interface) that was
  delivered before the domain was ready belongs to the start-up state.\<close>

theorem deliveries_gated:
  assumes "ciphers_correct env"
  shows "\<forall>d \<in> set (c_delivered (client_run env (client_new cfg w ct tk streams) is)).
           dl_authorized d \<and>
           (is_domain_push_command (from_byte (dl_cmd d)) \<longrightarrow>
              dl_domain_ready d \<or> incoming_allowed_before_domain_ready (from_byte (dl_cmd d)) (dl_payload d))"
proof -
  have "gated d" if "d \<in> set (c_delivered c)" "vinv (view c)" for d c
    using that by (simp add: vinv_def)
  then show ?thesis
    using client_run_vinv [OF assms vinv_new, of cfg w ct tk streams "is"] unfolding gated_def by blast
qed

section \<open>Authorization\<close>

definition authentic_fine :: "client \<Rightarrow> bytes \<Rightarrow> bool" where
  "authentic_fine c payload \<longleftrightarrow>
     allows_fine (c_hello_wait_state c) \<and>
     (\<exists>k pt h. dr_decode_cipher (c_data_read c) = Some k \<and>
        decrypt_with_cipher k payload (handshake_aad (cfg_client_id (c_cfg c)) (to_byte Command_Fine)) = Some pt \<and>
        hello_from_bytes pt = Some h \<and> h_rnd h = c_handshake_rnd c \<and> h_peer_mix h = 0)"

lemma on_fine_authorizes:
  "c_authorized (on_fine c payload) \<longleftrightarrow> c_authorized c \<or> authentic_fine c payload"
  by (auto simp: on_fine_def authentic_fine_def matches_current_fine_def matches_current_handshake_def
      apply_fine_auth_done_def fire_lifecycle_def clear_hello_wait_state_def set_hello_wait_state_def
      accepted_server_mix_ts_def Let_def split: option.splits)

lemma authentic_fine_cong [simp]:
  "authentic_fine (c\<lparr>c_recv_slicer := r\<rparr>) = authentic_fine c"
  "authentic_fine (c\<lparr>c_total_recv_shared := n\<rparr>) = authentic_fine c"
  "authentic_fine (apply_recv_side_effects c n t) = authentic_fine c"
  by (simp_all add: authentic_fine_def fun_eq_iff apply_recv_side_effects_def)

lemma handshake_control_authorized:
  "c_authorized (on_handshake_control env c cmd d) \<Longrightarrow> c_authorized c"
  by (auto simp: on_handshake_control_def apply_wrong_hello_def apply_want_new_hello_def
      mark_next_primary_hello_new_session_def clear_hello_wait_state_def set_hello_wait_state_def
      split: if_splits option.splits)

lemma route_authorized:
  assumes "c_authorized (route_command_inner env c raw p n m rx)" "\<not> c_authorized c"
  shows "from_byte raw = Command_Fine \<and> authentic_fine c (payload_deref p)"
  using assms handshake_control_authorized [of env c] handshake_control_authorized [of env "c\<lparr>c_recv_slicer := r\<rparr>" for r]
  unfolding route_command_inner_def Let_def by (auto simp: authorized_kept on_fine_authorizes split: if_splits)

lemma process_authorized:
  assumes "c_authorized (process_datagram env c d rx)" "\<not> c_authorized c"
  shows "\<exists>hdr p. transport_unpack_with_mac (cfg_mac_ctx (c_cfg c)) d (cfg_transport_mode (c_cfg c)) = Some (hdr, p)
           \<and> from_byte (sh_cmd hdr) = Command_Fine \<and> authentic_fine c (payload_deref p)"
proof -
  have "\<not> c_authorized ((apply_recv_side_effects c n t)\<lparr>c_total_recv_shared := x\<rparr>)" for n t x
    using assms(2) by (simp add: apply_recv_side_effects_def)
  then show ?thesis
    using assms by (auto simp: process_datagram_def Let_def dest!: route_authorized split: option.splits if_splits)
qed

lemma kept_send [simp]:
  "kept (send_hello env c n) = kept c" "kept (send_hello_again env c n) = kept c" "kept (send_imfriend c n) = kept c"
  "kept (send_rebind_hello_again env c t b n) = kept c" "kept (c\<lparr>c_last_sent_hello := x\<rparr>) = kept c"
proof -
  show h: "kept (send_hello_again env c n) = kept c" for c
    by (simp add: send_hello_again_def build_hello_again_packet_def encrypt_packet_def Let_def) (simp add: kept_def)
  show "kept (send_rebind_hello_again env c t b n) = kept c"
    unfolding send_rebind_hello_again_def Let_def h
    by (simp add: kept_def new_handshake_rnd_def start_hello_wait_def set_hello_wait_state_def)
qed (simp_all add: send_hello_def send_imfriend_def build_imfriend_packet_def encrypt_packet_def send_command_def kept_def
       Let_def split: option.split)

lemma kept_begin_primary: "kept (begin_primary_hello env c t n) = kept (c\<lparr>c_authorized := False\<rparr>)"
proof -
  have "kept (d\<lparr>c_next_primary_hello_new_session := b\<rparr>) = kept d" for d b by (simp add: kept_def)
  then show ?thesis
    unfolding begin_primary_hello_def Let_def
    by simp (simp add: kept_def new_handshake_rnd_def clear_outbound_session_data_def full_reset_def clear_hello_wait_state_def
        set_hello_wait_state_def)
qed

lemma kept_check_hello_send:
  "kept (check_hello_send env c t n) \<in> {kept c, kept (c\<lparr>c_authorized := False\<rparr>)}"
  by (simp add: check_hello_send_def kept_begin_primary Let_def split: hello_wait_state.split)

lemma kept_check_offline:
  "kept (check_offline_reconnect env c t n) \<in> {kept c, kept (c\<lparr>c_authorized := False\<rparr>)}"
proof -
  have "kept (c\<lparr>c_auth_status := a\<rparr>) = kept c" for a by (simp add: kept_def)
  moreover have "kept (mark_next_primary_hello_new_session (c\<lparr>c_auth_status := a, c_authorized := False,
      c_need_connect := x, c_soft_reconnect := y, c_last_sent_hello := z\<rparr>)) = kept (c\<lparr>c_authorized := False\<rparr>)" for a x y z
    by (simp add: kept_def mark_next_primary_hello_new_session_def clear_hello_wait_state_def set_hello_wait_state_def)
  ultimately show ?thesis by (simp add: check_offline_reconnect_def Let_def)
qed

lemma kept_or_dropped:
  "kept d \<in> {kept c, kept (c\<lparr>c_authorized := False\<rparr>)} \<Longrightarrow>
     (c_authorized d \<longrightarrow> c_authorized c) \<and> c_force_disconnect d = c_force_disconnect c \<and> c_shutdown d = c_shutdown c"
  unfolding kept_def by auto

lemma timeout_authorized [simp]: "c_authorized (check_reconnect_timeout c t) = c_authorized c"
  by (simp add: check_reconnect_timeout_def clear_hello_wait_state_def set_hello_wait_state_def Let_def)

lemma dead_zone_authorized [simp]: "c_authorized (check_dead_zone c t) = c_authorized c"
  by (simp add: check_dead_zone_def)

lemma force_disconnect_authorized [simp]: "\<not> c_authorized (do_force_disconnect c t)"
  by (simp add: do_force_disconnect_def clear_hello_wait_state_def set_hello_wait_state_def Let_def)

lemma tail_tick_authorized:
  assumes "c_authorized (transport_reconnect_tail_tick env c t n)"
  shows "c_authorized c"
proof -
  let ?h = "check_hello_send env c t n"
  have "c_authorized (check_offline_reconnect env ?h t n)"
    using assms by (simp add: transport_reconnect_tail_tick_def Let_def split: if_splits)
  then show ?thesis
    using kept_or_dropped [OF kept_check_hello_send [of env c t n]] kept_or_dropped [OF kept_check_offline [of env ?h t n]]
    by simp
qed

lemma other_inputs_authorized:
  assumes "c_authorized (client_action env c i)" "\<And>d rx. i \<noteq> In_Datagram d rx"
  shows "c_authorized c"
proof (cases i)
  case In_Lifecycle
  then show ?thesis using assms(1) by (simp flip: view_sel(1))
next
  case (In_Bind b)
  then show ?thesis using assms(1) by (simp flip: view_sel(1))
next
  case In_Disconnect
  then show ?thesis using assms(1) view_sel(1) [of "disconnect c"] by (simp add: view_disconnect del: view_sel)
next
  case (In_Reconnect t n)
  then show ?thesis using assms(1) tail_tick_authorized by (auto split: if_splits)
next
  case (In_Writer t)
  then show ?thesis using assms(1) by (simp add: case_prod_unfold Let_def split: if_splits)
qed (use assms in \<open>auto simp: Let_def\<close>)

text \<open>C2: A session is authorized only by its peer.  The one step that turns an unauthorized client
  authorized is the arrival of a datagram with a correct transport MAC whose command is Fine, in a
  state that waits for one, and whose payload opens under the session cipher with the client id and
  the command as associated data and repeats the random value of the current handshake.\<close>

theorem authorized_by_fine:
  assumes "\<not> c_authorized c" "c_authorized (client_step env c i)"
  shows "\<exists>d rx hdr p. i = In_Datagram d rx
     \<and> transport_unpack_with_mac (cfg_mac_ctx (c_cfg c)) d (cfg_transport_mode (c_cfg c)) = Some (hdr, p)
     \<and> from_byte (sh_cmd hdr) = Command_Fine \<and> authentic_fine c (payload_deref p)"
proof (cases i)
  case (In_Datagram d rx)
  then show ?thesis
    using assms process_authorized [of env c d rx] by (auto simp: client_step_def split: if_splits)
qed (use assms other_inputs_authorized [of env c i] in \<open>auto simp: client_step_def split: if_splits\<close>)


section \<open>Forced disconnects\<close>

lemma kept_on_fine: "kept (on_fine c d) \<in> {kept c, kept (c\<lparr>c_authorized := True\<rparr>)}"
proof -
  have "kept (apply_fine_auth_done c) = kept (c\<lparr>c_authorized := True\<rparr>)" for c
    by (simp add: apply_fine_auth_done_def kept_def fire_lifecycle_def clear_hello_wait_state_def set_hello_wait_state_def Let_def)
  moreover have "kept ((accepted_server_mix_ts c ts)\<lparr>c_authorized := True\<rparr>) = kept (c\<lparr>c_authorized := True\<rparr>)" for ts
    by (simp add: accepted_server_mix_ts_def kept_def)
  ultimately show ?thesis by (simp add: on_fine_def split: option.split)
qed

lemma kept_handshake_control: "kept (on_handshake_control env c cmd d) \<in> {kept c, kept (c\<lparr>c_authorized := False\<rparr>)}"
proof -
  have "kept (apply_want_new_hello c) = kept (c\<lparr>c_authorized := False\<rparr>)" for c
    by (simp add: apply_want_new_hello_def kept_def mark_next_primary_hello_new_session_def full_reset_def
        clear_hello_wait_state_def set_hello_wait_state_def)
  moreover have "kept ((accepted_server_mix_ts c ts)\<lparr>c_authorized := False\<rparr>) = kept (c\<lparr>c_authorized := False\<rparr>)" for ts
    by (simp add: accepted_server_mix_ts_def kept_def)
  ultimately show ?thesis by (simp add: on_handshake_control_def split: option.split)
qed

text \<open>The flag is raised only inside a tick, which then consumes it, and by the final disconnect.\<close>

definition no_pending_disconnect :: "client \<Rightarrow> bool" where
  "no_pending_disconnect c \<longleftrightarrow> (c_force_disconnect c \<longrightarrow> c_shutdown c)"

lemma no_pending_kept:
  "kept d = kept c \<or> kept d = kept (c\<lparr>c_authorized := b\<rparr>) \<Longrightarrow> no_pending_disconnect d = no_pending_disconnect c"
  by (auto simp: kept_def no_pending_disconnect_def)

lemma no_pending_route: "no_pending_disconnect (route_command_inner env c raw p n m rx) = no_pending_disconnect c"
proof -
  have k: "no_pending_disconnect d = no_pending_disconnect c" if "kept d = kept c" for c d
    using that by (auto simp: kept_def no_pending_disconnect_def)
  have "no_pending_disconnect (on_handshake_control env c cmd d) = no_pending_disconnect c" for c cmd d
    using kept_handshake_control [of env c cmd d] by (intro no_pending_kept [where b = False]) simp
  moreover have "no_pending_disconnect (on_fine c d) = no_pending_disconnect c" for c d
    using kept_on_fine [of c d] by (intro no_pending_kept [where b = True]) simp
  ultimately show ?thesis
    unfolding route_command_inner_def Let_def
    by (simp add: k [OF kept_drain] k [OF kept_sliced] k [OF kept_packet] k [OF kept_dispatch(2)] k [OF kept_ping]
        k [OF kept_who_are_you] k [OF kept_size_test] k [OF kept_frame(10)] k [OF kept_frame(14)] k [OF kept_updates(2)])
qed

lemma no_pending_step: "no_pending_disconnect c \<Longrightarrow> no_pending_disconnect (client_step env c i)"
proof (cases i)
  case (In_Datagram d rx)
  have "no_pending_disconnect (process_datagram env c d rx) = no_pending_disconnect c"
    unfolding process_datagram_def Let_def
    by (simp add: no_pending_route split: option.split) (simp add: no_pending_disconnect_def apply_recv_side_effects_def)
  then show "no_pending_disconnect c \<Longrightarrow> ?thesis" using In_Datagram by (simp add: client_step_def)
next
  case (In_Reconnect t n)
  have "no_pending_disconnect (transport_reconnect_tail_tick env c t n)"
    by (simp add: no_pending_disconnect_def transport_reconnect_tail_tick_def do_force_disconnect_def
        clear_hello_wait_state_def set_hello_wait_state_def Let_def)
  then show "no_pending_disconnect c \<Longrightarrow> ?thesis" using In_Reconnect by (simp add: client_step_def)
qed (auto simp: no_pending_disconnect_def client_step_def disconnect_def ensure_socket_bound_def bind_socket_def
      clear_hello_wait_state_def set_hello_wait_state_def check_lifecycle_transition_def fire_lifecycle_def
      case_prod_unfold Let_def split: option.split)

lemma no_pending_run: "no_pending_disconnect c \<Longrightarrow> no_pending_disconnect (client_run env c is)"
  unfolding client_run_def by (induction "is" arbitrary: c) (simp_all add: no_pending_step)

text \<open>No tick sends SessionClose: when a tick disconnects, either the reconnect is soft, or the client is not
  authorized, or it has no server token, and the guard of \<^verbatim>\<open>send_session_close\<close> fails.\<close>

lemma session_close_not_sent:
  fixes env :: crypto_env and t :: millis and n :: u64
  assumes env: "ciphers_correct env" and run: "c = client_run env (client_new cfg w ct tk streams) is" and live: "\<not> c_shutdown c"
  defines "c1 \<equiv> check_offline_reconnect env (check_hello_send env c t n) t n"
  defines "c2 \<equiv> check_dead_zone (check_reconnect_timeout c1 t) t"
  assumes fd: "c_force_disconnect c2"
  shows "c_soft_reconnect c2 \<or> \<not> c_authorized c2 \<or> c_server_token c2 = 0"
proof -
  have "vinv (view c)" unfolding run by (rule client_run_vinv [OF env vinv_new])
  then have v: "vinv (view c1)" by (simp add: c1_def check_hello_send_vinv check_offline_vinv)
  have "no_pending_disconnect (client_new cfg w ct tk streams)" by (simp add: no_pending_disconnect_def client_new_def)
  then have "\<not> c_force_disconnect c"
    using no_pending_run live unfolding run by (auto simp: no_pending_disconnect_def)
  then have "\<not> c_force_disconnect c1"
    using kept_or_dropped [OF kept_check_hello_send [of env c t n]]
      kept_or_dropped [OF kept_check_offline [of env "check_hello_send env c t n" t n]] by (simp add: c1_def)
  then have "is_waiting (c_hello_wait_state c1) \<and> c_soft_reconnect (check_reconnect_timeout c1 t) =
       (allows_hello_again_retry (c_hello_wait_state c1) \<and> c_server_token c1 \<noteq> 0) \<or> \<not> c_authorized c2"
    using fd unfolding c2_def
    by (auto simp: check_dead_zone_def check_reconnect_timeout_def clear_hello_wait_state_def set_hello_wait_state_def Let_def
        split: if_splits)
  moreover have "c_server_token c2 = c_server_token c1" "c_authorized c2 = c_authorized c1"
    "c_authorized c2 \<Longrightarrow> c_soft_reconnect c2 = c_soft_reconnect (check_reconnect_timeout c1 t)"
    unfolding c2_def
    by (auto simp: check_dead_zone_def check_reconnect_timeout_def clear_hello_wait_state_def set_hello_wait_state_def Let_def
        split: if_splits)
  moreover have "is_waiting (c_hello_wait_state c1) \<Longrightarrow> c_authorized c1 \<Longrightarrow> allows_hello_again_retry (c_hello_wait_state c1)"
    using v by (cases "c_hello_wait_state c1") (auto simp: vinv_def quiescent_def is_waiting_def allows_hello_again_retry_def)
  ultimately show ?thesis by auto
qed


section \<open>Progress\<close>

text \<open>A handshake packet of the peer: the Hello record sealed under \<open>key\<close>, packed for the transport with the
  seed byte and nonce the peer chose.\<close>

definition handshake_reply :: "crypto_env \<Rightarrow> client_cfg \<Rightarrow> bytes \<Rightarrow> command \<Rightarrow> u8 \<times> u64 \<times> u64 \<times> u64 \<Rightarrow> hello \<Rightarrow> bytes" where
  "handshake_reply env cfg key cmd iv h =
     (case iv of (rnd, iv_mask, n, tsc) \<Rightarrow> peer_wrap (cfg_transport_mode cfg)
       (peer_packet (cfg_mac_ctx cfg) rnd (to_byte cmd)
         (encrypt_with_cipher (ce_cipher env key) iv_mask n tsc (hello_to_bytes_packed h)
            (handshake_aad (cfg_client_id cfg) (to_byte cmd)))))"

definition not_warmup :: "client_cfg \<Rightarrow> bytes \<Rightarrow> bool" where
  "not_warmup cfg d \<longleftrightarrow> \<not> (normalize_mode (cfg_transport_mode cfg) = 2 \<and> is_dns_warmup d)"

lemma reply_unpacked:
  assumes "ciphers_correct env" "hello_valid h" "not_warmup cfg (handshake_reply env cfg key cmd iv h)"
  obtains hdr p where
    "transport_unpack_with_mac (cfg_mac_ctx cfg) (handshake_reply env cfg key cmd iv h) (cfg_transport_mode cfg) = Some (hdr, p)"
    "sh_cmd hdr = to_byte cmd"
    "decrypt_with_cipher (ce_cipher env key) (payload_deref p) (handshake_aad (cfg_client_id cfg) (to_byte cmd))
       = Some (hello_to_bytes_packed h)"
proof -
  obtain rnd iv_mask n tsc where iv: "iv = (rnd, iv_mask, n, tsc)" by (rule prod_cases4)
  have k: "aead_correct (ce_cipher env key)" using assms(1) by (simp add: ciphers_correct_def)
  define data where "data = encrypt_with_cipher (ce_cipher env key) iv_mask n tsc (hello_to_bytes_packed h)
    (handshake_aad (cfg_client_id cfg) (to_byte cmd))"
  have r: "handshake_reply env cfg key cmd iv h =
      peer_wrap (cfg_transport_mode cfg) (peer_packet (cfg_mac_ctx cfg) rnd (to_byte cmd) data)"
    by (simp add: handshake_reply_def iv data_def)
  have "length data \<le> 65536"
    using length_encrypt_with_cipher [OF k] hello_record.put_length [OF assms(2)]
      pkcs7_padding_bounds(2) [of "length (hello_to_bytes_packed h)"] by (simp add: data_def HELLO_SIZE_def)
  then obtain hdr p where "transport_unpack_with_mac (cfg_mac_ctx cfg) (handshake_reply env cfg key cmd iv h)
        (cfg_transport_mode cfg) = Some (hdr, p)" "sh_cmd hdr = to_byte cmd" "payload_deref p = data"
    using peer_packet_unpacked [of data "cfg_transport_mode cfg" "cfg_mac_ctx cfg" rnd "to_byte cmd"] assms(3)
    unfolding r by (auto simp: not_warmup_def r peer_wrap_def)
  then show thesis
    using that envelope_decrypts [OF k] by (simp add: data_def)
qed

text \<open>The state of a client whose Hello is out.\<close>

definition awaits_who_are_you :: "client \<Rightarrow> bool" where
  "awaits_who_are_you c \<longleftrightarrow>
     c_socket c \<and> \<not> c_shutdown c \<and> allows_who_are_you (c_hello_wait_state c) \<and> c_server_token c = 0 \<and> c_pre_auth_crypted c = []"

definition awaits_fine :: "client \<Rightarrow> bool" where
  "awaits_fine c \<longleftrightarrow>
     c_socket c \<and> \<not> c_shutdown c \<and> allows_fine (c_hello_wait_state c) \<and> c_pre_auth_crypted c = []"

definition hs :: "client \<Rightarrow> client_cfg \<times> bool \<times> bool \<times> pre_auth_command list \<times> bytes \<times> u64 \<times> cipher option \<times> cipher option \<times> nat" where
  "hs c = (c_cfg c, c_socket c, c_shutdown c, c_pre_auth_crypted c, c_handshake_rnd c, c_server_token c,
           dr_decode_cipher (c_data_read c), w_encode_cipher (c_writer c), c_session c)"

lemma hs_frame [simp]:
  "hs (snd (build_imfriend_packet c n)) = hs c" "hs (send_command c cmd p) = hs c" "hs (start_hello_wait c s t) = hs c"
  by (simp_all add: hs_def build_imfriend_packet_def encrypt_packet_def send_command_def send_raw_packet_def
      send_raw_packet_cmd_def start_hello_wait_def set_hello_wait_state_def Let_def split: option.split)

lemma apply_hello_effect:
  assumes "generate_session_sub_keys (ce_shake env) (cfg_master_key (c_cfg c)) (cfg_client_id (c_cfg c))
             (h_server_token h) (h_rnd h) = (ek, dk)"
  shows "hs (snd (apply_hello_and_build_imfriend env c h n)) =
     (c_cfg c, c_socket c, c_shutdown c, c_pre_auth_crypted c, c_handshake_rnd c, h_server_token h,
      Some (ce_cipher env dk), Some (ce_cipher env ek), Suc (c_session c))"
proof -
  have s: "hs (snd (case x of (None, c) \<Rightarrow> ([], c) | (Some e, c) \<Rightarrow> (e, c))) = hs (snd x)" for x :: "bytes option \<times> client"
    by (cases x; cases "fst x") auto
  show ?thesis
    unfolding apply_hello_and_build_imfriend_def Let_def case_prod_unfold s [unfolded case_prod_unfold] hs_frame(1)
    using assms by (simp add: hs_def accepted_server_mix_ts_def fire_lifecycle_def refresh_ack_session32_def set_decode_cipher_def)
qed

lemma who_are_you_step:
  fixes rx :: rx_env
  assumes env: "ciphers_correct env" and c: "awaits_who_are_you c" and h: "hello_valid h" "h_rnd h = c_handshake_rnd c"
    and d: "d = handshake_reply env (c_cfg c) (cfg_master_key (c_cfg c)) Command_WhoAreYou iv h" "not_warmup (c_cfg c) d"
    and keys: "generate_session_sub_keys (ce_shake env) (cfg_master_key (c_cfg c)) (cfg_client_id (c_cfg c))
                 (h_server_token h) (h_rnd h) = (ek, dk)"
  defines "c' \<equiv> client_step env c (In_Datagram d rx)"
  shows "awaits_fine c'" "c_cfg c' = c_cfg c" "c_handshake_rnd c' = c_handshake_rnd c" "c_server_token c' = h_server_token h"
    "dr_decode_cipher (c_data_read c') = Some (ce_cipher env dk)" "w_encode_cipher (c_writer c') = Some (ce_cipher env ek)"
    "c_session c' = Suc (c_session c)" "c_authorized c' = c_authorized c"
proof -
  obtain hdr p where u: "transport_unpack_with_mac (cfg_mac_ctx (c_cfg c)) d (cfg_transport_mode (c_cfg c)) = Some (hdr, p)"
    "sh_cmd hdr = to_byte Command_WhoAreYou"
    "decrypt_with_cipher (ce_cipher env (cfg_master_key (c_cfg c))) (payload_deref p)
       (handshake_aad (cfg_client_id (c_cfg c)) (to_byte Command_WhoAreYou)) = Some (hello_to_bytes_packed h)"
    using reply_unpacked [OF env h(1), of "c_cfg c"] d by metis
  define c0 where "c0 = (apply_recv_side_effects c (of_nat (length d)) (rx_time rx))
      \<lparr>c_total_recv_shared := c_total_recv_shared c + of_nat (length d)\<rparr>
      \<lparr>c_recv_slicer := rx_tick (rx_time rx) (c_recv_slicer c)\<rparr>"
  have same: "c_hello_wait_state c0 = c_hello_wait_state c" "c_server_token c0 = 0" "c_cfg c0 = c_cfg c" "c_socket c0"
      "\<not> c_shutdown c0" "c_handshake_rnd c0 = h_rnd h" "c_pre_auth_crypted c0 = []" "c_session c0 = c_session c"
    using c h(2) by (simp_all add: c0_def apply_recv_side_effects_def awaits_who_are_you_def)
  have on: "c' = on_who_are_you env c0 (payload_deref p) (rx_time rx) (rx_now_dt rx)"
    using c u by (simp add: c'_def client_step_def awaits_who_are_you_def process_datagram_def route_command_inner_def
        from_byte_def Let_def c0_def) (simp add: apply_recv_side_effects_def)
  show "c_authorized c' = c_authorized c"
    unfolding on authorized_kept by (simp add: c0_def apply_recv_side_effects_def)
  have "decode_handshake_hello env (cfg_master_key (c_cfg c0)) (cfg_client_id (c_cfg c0))
      (to_byte Command_WhoAreYou) (payload_deref p) = Some h"
    using u(3) same hello_record.get_put_exact [OF h(1)] by (simp add: decode_handshake_hello_def)
  with on have c': "c' = (let (encrypted, c) = apply_hello_and_build_imfriend env c0 h (rx_now_dt rx);
                        c = start_hello_wait c HW_PrimaryImFriendSent (rx_time rx);
                        c = send_command c Command_ImFriend encrypted
                    in send_command c Command_ImFriend encrypted)"
    using c same by (simp add: on_who_are_you_def awaits_who_are_you_def matches_current_handshake_def)
  have hs: "hs c' = hs (snd (apply_hello_and_build_imfriend env c0 h (rx_now_dt rx)))" "allows_fine (c_hello_wait_state c')"
    by (simp_all add: c' Let_def case_prod_unfold) (simp add: send_command_def start_hello_wait_def set_hello_wait_state_def allows_fine_def)
  show "awaits_fine c'" "c_cfg c' = c_cfg c" "c_handshake_rnd c' = c_handshake_rnd c" "c_server_token c' = h_server_token h"
    "dr_decode_cipher (c_data_read c') = Some (ce_cipher env dk)" "w_encode_cipher (c_writer c') = Some (ce_cipher env ek)"
    "c_session c' = Suc (c_session c)"
    using same apply_hello_effect [of env c0 h ek dk "rx_now_dt rx"] keys hs h(2)
    by (simp_all add: awaits_fine_def) (simp_all add: hs_def)
qed

lemma fine_step:
  fixes rx :: rx_env
  assumes env: "ciphers_correct env" and c: "awaits_fine c" "dr_decode_cipher (c_data_read c) = Some (ce_cipher env dk)"
    and h: "hello_valid h" "h_rnd h = c_handshake_rnd c" "h_peer_mix h = 0"
    and d: "d = handshake_reply env (c_cfg c) dk Command_Fine iv h" "not_warmup (c_cfg c) d"
  defines "c' \<equiv> client_step env c (In_Datagram d rx)"
  shows "c_authorized c'" "c_auth_status c' = AS_AuthDone" "c_hello_wait_state c' = HW_Idle" "\<not> c_need_connect c'"
    "hs c' = hs c"
proof -
  obtain hdr p where u: "transport_unpack_with_mac (cfg_mac_ctx (c_cfg c)) d (cfg_transport_mode (c_cfg c)) = Some (hdr, p)"
    "sh_cmd hdr = to_byte Command_Fine"
    "decrypt_with_cipher (ce_cipher env dk) (payload_deref p)
       (handshake_aad (cfg_client_id (c_cfg c)) (to_byte Command_Fine)) = Some (hello_to_bytes_packed h)"
    using reply_unpacked [OF env h(1), of "c_cfg c"] d by metis
  define c0 where "c0 = (apply_recv_side_effects c (of_nat (length d)) (rx_time rx))
      \<lparr>c_total_recv_shared := c_total_recv_shared c + of_nat (length d)\<rparr>
      \<lparr>c_recv_slicer := rx_tick (rx_time rx) (c_recv_slicer c)\<rparr>"
  have "hs c0 = hs c" and c0: "c_hello_wait_state c0 = c_hello_wait_state c" "c_pre_auth_crypted c0 = []"
    using c by (simp_all add: c0_def apply_recv_side_effects_def awaits_fine_def hs_def)
  then have same: "dr_decode_cipher (c_data_read c0) = Some (ce_cipher env dk)" "c_cfg c0 = c_cfg c"
      "c_handshake_rnd c0 = c_handshake_rnd c" "hs c0 = hs c"
    using c by (simp_all add: hs_def)
  have "c' = drain_deferred_pre_auth_crypted (on_fine c0 (payload_deref p))"
    using c(1) u by (simp add: c'_def client_step_def awaits_fine_def process_datagram_def route_command_inner_def
        from_byte_def Let_def c0_def) (simp add: apply_recv_side_effects_def)
  also have "on_fine c0 (payload_deref p) = apply_fine_auth_done (accepted_server_mix_ts c0 (h_mix_ts h))"
    using c(1) u(3) same(1-3) c0 hello_record.get_put_exact [OF h(1)] h
    by (simp add: on_fine_def awaits_fine_def matches_current_fine_def matches_current_handshake_def)
  also have "drain_deferred_pre_auth_crypted \<dots> = \<dots>"
    using c0(2) by (simp add: drain_deferred_pre_auth_crypted_def apply_fine_auth_done_def accepted_server_mix_ts_def
        fire_lifecycle_def clear_hello_wait_state_def set_hello_wait_state_def Let_def)
  finally show "c_authorized c'" "c_auth_status c' = AS_AuthDone" "c_hello_wait_state c' = HW_Idle" "\<not> c_need_connect c'"
    "hs c' = hs c"
    using same(4) by (simp_all add: apply_fine_auth_done_def accepted_server_mix_ts_def hs_def
        fire_lifecycle_def clear_hello_wait_state_def set_hello_wait_state_def Let_def)
qed

text \<open>C4: The handshake completes.  When a client whose Hello is out receives the WhoAreYou of a peer
  that holds the master key and repeats the random value of the Hello, and then the Fine sealed under
  the keys both sides derive, it is authorized and connected, has left the handshake states, asks for
  no further connection, and its encoder and decoder use the two session keys in the roles the peer
  expects.\<close>

theorem handshake_completes:
  assumes env: "ciphers_correct env" and c: "awaits_who_are_you c"
    and who: "hello_valid who" "h_rnd who = c_handshake_rnd c"
    and fine: "hello_valid fine" "h_rnd fine = c_handshake_rnd c" "h_peer_mix fine = 0"
    and keys: "generate_session_sub_keys (ce_shake env) (cfg_master_key (c_cfg c)) (cfg_client_id (c_cfg c))
                 (h_server_token who) (h_rnd who) = (ek, dk)"
    and d1: "d1 = handshake_reply env (c_cfg c) (cfg_master_key (c_cfg c)) Command_WhoAreYou iv1 who" "not_warmup (c_cfg c) d1"
    and d2: "d2 = handshake_reply env (c_cfg c) dk Command_Fine iv2 fine" "not_warmup (c_cfg c) d2"
    and run: "c' = client_run env c [In_Datagram d1 rx1, In_Datagram d2 rx2]"
  shows "c_authorized c' \<and> c_auth_status c' = AS_AuthDone \<and> c_hello_wait_state c' = HW_Idle \<and> \<not> c_need_connect c' \<and>
     c_server_token c' = h_server_token who \<and> dr_decode_cipher (c_data_read c') = Some (ce_cipher env dk) \<and>
     w_encode_cipher (c_writer c') = Some (ce_cipher env ek) \<and> c_session c' = Suc (c_session c)"
proof -
  define c1 where "c1 = client_step env c (In_Datagram d1 rx1)"
  note s1 = who_are_you_step [OF env c who d1 keys, of rx1, folded c1_def]
  have c': "c' = client_step env c1 (In_Datagram d2 rx2)" by (simp add: run client_run_def c1_def)
  show ?thesis
    using fine_step [OF env s1(1,5) fine(1) _ fine(3), of d2 iv2 rx2] s1 fine(2) d2 by (simp add: c' hs_def)
qed


section \<open>A concrete connection\<close>

definition demo_env :: crypto_env where
  "demo_env = \<lparr>ce_shake = (\<lambda>m n. replicate n 1), ce_cipher = (\<lambda>key. null_cipher)\<rparr>"

definition demo_cfg :: client_cfg where
  "demo_cfg = \<lparr>cfg_master_key = replicate 16 5, cfg_mac_key = replicate 16 6, cfg_client_id = 77, cfg_transport_mode = 1,
               cfg_mac_ctx = \<lparr>mc_state = (1, 2, 3, 4), mc_obf_key = replicate 16 5\<rparr>\<rparr>"

definition demo_new :: client where
  "demo_new = client_new demo_cfg (writer_new 0 (\<lambda>_. 0) (\<lambda>_. 0) True) 1 2
     \<lparr>cs_rnds = (\<lambda>_. replicate 16 3), cs_instants = int, cs_inflate = (\<lambda>b. [Some b])\<rparr>"

definition demo_connecting :: client where
  "demo_connecting = client_run demo_env demo_new [In_Bind True, In_Reconnect 10000 0]"

definition demo_hello :: "u64 \<Rightarrow> hello" where
  "demo_hello token = \<lparr>h_rnd = replicate 16 3, h_mix_ts = 9, h_timestamp = 0, h_server_token = token, h_peer_mix = 0, h_app_token = 4\<rparr>"

definition demo_rx :: rx_env where
  "demo_rx = \<lparr>rx_time = 10100, rx_now_dt = 0, rx_total_sent = 0,
              rx_telemetry = \<lparr>tm_moment_cpu_percent = 0, tm_total_cpu_percent = 0, tm_memory = None\<rparr>\<rparr>"

lemma demo_env_correct: "ciphers_correct demo_env"
  by (simp add: demo_env_def ciphers_correct_def null_cipher_correct)

lemma begin_primary_effect:
  "c_hello_wait_state (begin_primary_hello env c t n) = next_primary_hello_state c"
  "c_waiting_hello_start (begin_primary_hello env c t n) = t"
  "c_handshake_rnd (begin_primary_hello env c t n) = cs_rnds (c_streams c) (c_rnd_pos c)"
  "c_server_token (begin_primary_hello env c t n) = 0"
  "c_pre_auth_crypted (begin_primary_hello env c t n) = []"
  "c_cfg (begin_primary_hello env c t n) = c_cfg c"
  "c_socket (begin_primary_hello env c t n) = c_socket c"
  "c_shutdown (begin_primary_hello env c t n) = c_shutdown c"
  "c_need_connect (begin_primary_hello env c t n) = c_need_connect c"
  "c_force_disconnect (begin_primary_hello env c t n) = c_force_disconnect c"
  "\<not> c_authorized (begin_primary_hello env c t n)"
  by (simp_all add: begin_primary_hello_def send_hello_def encrypt_packet_def send_command_def start_hello_wait_def
      set_hello_wait_state_def new_handshake_rnd_def clear_outbound_session_data_def full_reset_def
      clear_hello_wait_state_def Let_def)

lemma demo_cold: "next_primary_hello_state (demo_new\<lparr>c_force_disconnect := a, c_socket := b, c_recv_slicer := r\<rparr>) = HW_PrimaryHelloCold"
  by (simp add: next_primary_hello_state_def demo_new_def client_new_def)

lemma demo_connecting_eq:
  "demo_connecting = (begin_primary_hello demo_env (demo_new\<lparr>c_force_disconnect := False, c_socket := True,
     c_recv_slicer := reset_session (c_recv_slicer demo_new)\<rparr>) 10000 0)\<lparr>c_last_sent_hello := 10000\<rparr>"
proof -
  define c where "c = demo_new\<lparr>c_force_disconnect := False, c_socket := True, c_recv_slicer := reset_session (c_recv_slicer demo_new)\<rparr>"
  have new: "\<not> c_shutdown demo_new" "\<not> c_socket demo_new" "c_need_connect demo_new" by (simp_all add: demo_new_def client_new_def)
  have "client_step demo_env demo_new (In_Bind True) = c"
    using new by (simp add: client_step_def ensure_socket_bound_def bind_socket_def c_def Let_def)
  moreover have "check_hello_send demo_env c 10000 0 = (begin_primary_hello demo_env c 10000 0)\<lparr>c_last_sent_hello := 10000\<rparr>"
    by (simp add: c_def check_hello_send_def demo_new_def client_new_def writer_new_def NEVER_SENT_MS_def Let_def)
  moreover have "c_authorized d = False \<Longrightarrow> c_need_connect d \<Longrightarrow> c_hello_wait_state d = HW_PrimaryHelloCold \<Longrightarrow>
      c_waiting_hello_start d = 10000 \<Longrightarrow> \<not> c_force_disconnect d \<Longrightarrow>
      check_dead_zone (check_reconnect_timeout (check_offline_reconnect demo_env d 10000 0) 10000) 10000 = d" for d
    by (simp add: check_dead_zone_def check_reconnect_timeout_def check_offline_reconnect_def allows_hello_again_retry_def
        RECONNECT_WAITING_MS_def)
  ultimately show ?thesis
    using new begin_primary_effect [of demo_env c 10000 0]
    by (simp add: demo_connecting_def client_run_def client_step_def transport_reconnect_tail_tick_def c_def demo_cold)
qed

lemma demo_connecting_awaits:
  "awaits_who_are_you demo_connecting" "c_handshake_rnd demo_connecting = replicate 16 3" "c_cfg demo_connecting = demo_cfg"
  "\<not> c_authorized demo_connecting"
  by (simp_all add: demo_connecting_eq begin_primary_effect awaits_who_are_you_def demo_cold allows_who_are_you_def)
    (simp_all add: demo_new_def client_new_def)

lemma demo_hello_valid: "hello_valid (demo_hello t)" "h_rnd (demo_hello t) = replicate 16 3" "h_peer_mix (demo_hello t) = 0"
  by (simp_all add: demo_hello_def hello_valid_def)

lemma demo_not_warmup: "not_warmup demo_cfg d"
  by (simp add: not_warmup_def demo_cfg_def normalize_mode_def)

definition demo_session_keys :: "bytes \<times> bytes" where
  "demo_session_keys = generate_session_sub_keys (ce_shake demo_env) (cfg_master_key demo_cfg) (cfg_client_id demo_cfg)
     (h_server_token (demo_hello 42)) (h_rnd (demo_hello 42))"

definition demo_who :: client_input where
  "demo_who = In_Datagram
     (handshake_reply demo_env demo_cfg (cfg_master_key demo_cfg) Command_WhoAreYou (77, 1, 2, 3) (demo_hello 42)) demo_rx"

definition demo_fine :: client_input where
  "demo_fine = In_Datagram
     (handshake_reply demo_env demo_cfg (snd demo_session_keys) Command_Fine (78, 1, 3, 4) (demo_hello 42)) demo_rx"

lemmas demo_facts = demo_env_correct demo_connecting_awaits demo_hello_valid demo_not_warmup

text \<open>The statements at this connection.\<close>

theorem sealed_delivered_once_witness:
  "distinct (sealed_pairs (c_delivered (client_run demo_env demo_new [In_Bind True, In_Reconnect 10000 0, In_Lifecycle])))"
  unfolding demo_new_def by (rule sealed_delivered_once [OF demo_env_correct])

theorem no_plaintext_sensitive_witness:
  "filter (\<lambda>d. sensitive (dl_cmd d) (dl_payload d) \<and> dl_origin d = Plain)
     (c_delivered (client_run demo_env demo_new [In_Bind True, In_Reconnect 10000 0, In_Lifecycle])) = []"
  using no_plaintext_sensitive [OF demo_env_correct] unfolding demo_new_def filter_empty_conv by fastforce

theorem deliveries_gated_witness:
  "filter (\<lambda>d. \<not> dl_authorized d)
     (c_delivered (client_run demo_env demo_new [In_Bind True, In_Reconnect 10000 0, In_Lifecycle])) = []"
  using deliveries_gated [OF demo_env_correct] unfolding demo_new_def filter_empty_conv by blast

theorem handshake_completes_witness:
  "c_authorized (client_run demo_env demo_connecting [demo_who, demo_fine])
   \<and> c_session (client_run demo_env demo_connecting [demo_who, demo_fine]) = Suc (c_session demo_connecting)"
proof -
  obtain ek dk where k: "demo_session_keys = (ek, dk)" by fastforce
  show ?thesis
    using handshake_completes [of demo_env demo_connecting "demo_hello 42" "demo_hello 42", OF _ _ _ _ _ _ _ _ refl _ refl _ refl,
        of ek dk "(77, 1, 2, 3)" "(78, 1, 3, 4)" demo_rx demo_rx] k
    by (simp add: demo_facts demo_who_def demo_fine_def) (simp add: demo_session_keys_def demo_facts)
qed

theorem authorized_by_fine_witness:
  "\<exists>d hdr p. demo_fine = In_Datagram d demo_rx
     \<and> transport_unpack_with_mac (cfg_mac_ctx demo_cfg) d (cfg_transport_mode demo_cfg) = Some (hdr, p)
     \<and> authentic_fine (client_step demo_env demo_connecting demo_who) (payload_deref p)"
proof -
  obtain ek dk where k: "demo_session_keys = (ek, dk)" by fastforce
  define c where "c = client_step demo_env demo_connecting demo_who"
  have k': "generate_session_sub_keys (ce_shake demo_env) (cfg_master_key (c_cfg demo_connecting))
      (cfg_client_id (c_cfg demo_connecting)) (h_server_token (demo_hello 42)) (h_rnd (demo_hello 42)) = (ek, dk)"
    using k by (simp add: demo_session_keys_def demo_facts)
  note s = who_are_you_step [OF demo_env_correct demo_connecting_awaits(1) demo_hello_valid(1) _ refl _ k', of "(77, 1, 2, 3)" demo_rx]
  have s: "awaits_fine c" "c_cfg c = demo_cfg" "c_handshake_rnd c = replicate 16 3"
      "dr_decode_cipher (c_data_read c) = Some (ce_cipher demo_env dk)" "\<not> c_authorized c"
    unfolding c_def demo_who_def using s by (simp_all add: demo_facts)
  have "c_authorized (client_step demo_env c demo_fine)"
    unfolding demo_fine_def k using fine_step(1) [OF demo_env_correct s(1,4) demo_hello_valid(1) _ _ refl]
    by (simp add: s demo_facts)
  from authorized_by_fine [OF s(5) this]
  show ?thesis by (auto simp: s demo_fine_def simp flip: c_def)
qed

end
