(* ===== verification/Compression_Correct.thy ===== *)
theory Compression_Correct
  imports Compression
begin

text \<open>
  The SynLZ decoder inverts the SynLZ encoder.

  Both sides maintain a table from hashes to positions, but at different moments: the encoder enters
  every position at which it starts a token, while the decoder enters a position only once the three
  bytes that determine its hash are known, so it lags up to three bytes behind.  The proof goes over
  the list of tokens of the stream.  The encoder emits the tokens in groups of 32 after a control
  word that it patches; the tokens describe the source (\<open>valid\<close>); and the decoder, run on the
  groups, rebuilds the source from every such description.
\<close>

section \<open>Hashes depend on three bytes\<close>

lemma bit_synlz_mask: "take_bit 12 (v :: u32) = v AND 4095"
  by (simp add: take_bit_eq_mask mask_eq_exp_minus_1)

lemma synlz_hash_take_bit: "synlz_hash v = unat (take_bit 12 (drop_bit 12 (take_bit 24 v) XOR take_bit 24 v))"
proof -
  have "take_bit 12 (drop_bit 12 v XOR v) = take_bit 12 (drop_bit 12 (take_bit 24 v) XOR take_bit 24 (v :: u32))"
    by (rule bit_word_eqI) (auto simp: bit_take_bit_iff bit_xor_iff bit_drop_bit_eq)
  then show ?thesis
    by (simp add: synlz_hash_def bit_synlz_mask [symmetric])
qed

lemma synlz_hash_less: "synlz_hash v < 4096"
proof -
  have "synlz_hash v = unat (drop_bit 12 v XOR v) mod 2 ^ 12"
    unfolding synlz_hash_def bit_synlz_mask [symmetric] by (rule unat_take_bit)
  then show ?thesis by simp
qed

lemma nth_slice: "i < b - a \<Longrightarrow> b \<le> length xs \<Longrightarrow> slice a b xs ! i = xs ! (a + i)"
  by (simp add: slice_def)

lemma bit_read_u32:
  assumes "n < 24" and "p + 2 < length xs"
  shows "bit (read_u32 xs p) n \<longleftrightarrow> bit (xs ! (p + n div 8)) (n mod 8)"
proof -
  have len: "length (slice p (p + 4) xs) \<ge> 3"
    using assms by (simp add: slice_def)
  have d: "n div 8 < 3" using assms(1) by (simp add: less_mult_imp_div_less)
  then have "slice p (p + 4) xs ! (n div 8) = xs ! (p + n div 8)"
    using assms by (simp add: slice_def)
  with len d assms(1) show ?thesis
    by (simp add: read_u32_def bit_from_le)
qed

lemma read_u32_low_cong:
  assumes "\<And>i. i < 3 \<Longrightarrow> xs ! (p + i) = ys ! (q + i)" and "p + 2 < length xs" and "q + 2 < length ys"
  shows "take_bit 24 (read_u32 xs p) = take_bit 24 (read_u32 ys q)"
proof (rule bit_word_eqI)
  fix n
  assume "n < LENGTH(32)"
  show "bit (take_bit 24 (read_u32 xs p)) n = bit (take_bit 24 (read_u32 ys q)) n"
  proof (cases "n < 24")
    case True
    then have "n div 8 < 3" by (simp add: less_mult_imp_div_less)
    with assms True show ?thesis
      by (simp add: bit_take_bit_iff bit_read_u32)
  qed (simp add: bit_take_bit_iff)
qed

lemma read_u32_low_eqD:
  assumes eq: "take_bit 24 (read_u32 xs p) = take_bit 24 (read_u32 ys q)"
    and "p + 2 < length xs" and "q + 2 < length ys" and i: "i < 3"
  shows "xs ! (p + i) = ys ! (q + i)"
proof (rule bit_word_eqI)
  fix k
  assume "k < LENGTH(8)"
  then have k: "k < 8" by simp
  with i have n: "8 * i + k < 24" by simp
  have "(8 * i + k) div 8 = i" "(8 * i + k) mod 8 = k" using k by simp_all
  moreover have "bit (read_u32 xs p) (8 * i + k) = bit (read_u32 ys q) (8 * i + k)"
    using arg_cong [OF eq, of "\<lambda>w. bit w (8 * i + k)"] n by (simp add: bit_take_bit_iff)
  ultimately show "bit (xs ! (p + i)) k = bit (ys ! (q + i)) k"
    using bit_read_u32 [OF n assms(2)] bit_read_u32 [OF n assms(3)] by simp
qed

lemma synlz_hash_cong:
  "(\<And>i. i < 3 \<Longrightarrow> xs ! (p + i) = ys ! (q + i)) \<Longrightarrow> p + 2 < length xs \<Longrightarrow> q + 2 < length ys \<Longrightarrow>
     synlz_hash (read_u32 xs p) = synlz_hash (read_u32 ys q)"
  unfolding synlz_hash_take_bit by (simp only: read_u32_low_cong [of xs p ys q])

lemma and_0xFFFFFF: "(v :: u32) AND 0x00FFFFFF = take_bit 24 v"
  by (simp add: take_bit_eq_mask mask_eq_exp_minus_1)

lemma xor_low_eq_0:
  assumes "(v XOR w) AND 0x00FFFFFF = (0 :: u32)"
  shows "take_bit 24 v = take_bit 24 w"
proof -
  have 0: "take_bit 24 v XOR take_bit 24 w = 0"
    using assms unfolding and_0xFFFFFF by (simp only: take_bit_xor)
  have "take_bit 24 v = (take_bit 24 v XOR take_bit 24 w) XOR take_bit 24 w"
    by (simp only: xor.assoc xor_self_eq xor.right_neutral)
  then show ?thesis unfolding 0 by (simp only: xor.left_neutral)
qed

section \<open>Tokens and groups\<close>

datatype token = Lit byte | Ref nat nat

primrec tok_bytes :: "token \<Rightarrow> bytes" where
  "tok_bytes (Lit b) = [b]"
| "tok_bytes (Ref h t) = backref_bytes h t"

primrec is_ref :: "token \<Rightarrow> bool" where
  "is_ref (Lit _) = False"
| "is_ref (Ref _ _) = True"

definition cw_of :: "token list \<Rightarrow> u32" where
  "cw_of g = foldl (\<lambda>w i. if is_ref (g ! i) then w OR push_bit i 1 else w) 0 [0..<length g]"

definition group_bytes :: "token list \<Rightarrow> bytes" where
  "group_bytes g = le_bytes 4 (cw_of g) @ concat (map tok_bytes g)"

lemma cw_of_Nil [simp]: "cw_of [] = 0"
  by (simp add: cw_of_def)

lemma cw_of_snoc: "cw_of (g @ [x]) = (if is_ref x then cw_of g OR push_bit (length g) 1 else cw_of g)"
proof -
  have "foldl (\<lambda>w i. if is_ref ((g @ [x]) ! i) then w OR push_bit i 1 else w) (0 :: u32) [0..<length g]
      = foldl (\<lambda>w i. if is_ref (g ! i) then w OR push_bit i 1 else w) 0 [0..<length g]"
    by (rule foldl_cong) (auto simp: nth_append)
  then show ?thesis by (simp add: cw_of_def)
qed

lemma bit_cw_of: "i < 32 \<Longrightarrow> bit (cw_of g) i \<longleftrightarrow> i < length g \<and> is_ref (g ! i)"
proof (induction g rule: rev_induct)
  case (snoc x g)
  then show ?case
    by (auto simp: cw_of_snoc bit_or_iff bit_exp_iff nth_append less_Suc_eq)
qed simp

lemma and_push_bit_1: "i < 32 \<Longrightarrow> (w :: u32) AND push_bit i 1 = 0 \<longleftrightarrow> \<not> bit w i"
  by (auto simp: and_exp_eq_0_iff_not_bit push_bit_of_1)

lemma push_bit_step: "push_bit 1 (push_bit i (1 :: u32)) = push_bit (Suc i) 1"
  by (simp add: push_bit_push_bit)

lemma push_bit_1_eq_0: "push_bit i (1 :: u32) = 0 \<longleftrightarrow> 32 \<le> i"
  by (simp add: push_bit_of_1)

section \<open>What a token list describes\<close>

text \<open>The hash table after entering the positions \<open>P\<close>, in that order.\<close>

definition hash_of :: "bytes \<Rightarrow> nat \<Rightarrow> nat" where
  "hash_of x q = synlz_hash (read_u32 x q)"

definition tbl :: "bytes \<Rightarrow> nat list \<Rightarrow> nat \<Rightarrow> nat option" where
  "tbl x P = foldl (\<lambda>f q. f(hash_of x q := Some q)) (\<lambda>_. None) P"

lemma tbl_Nil [simp]: "tbl x [] h = None"
  by (simp add: tbl_def)

lemma tbl_snoc: "tbl x (P @ [q]) = (tbl x P)(hash_of x q := Some q)"
  by (simp add: tbl_def)

lemma tbl_mem: "tbl x P h = Some q \<Longrightarrow> q \<in> set P \<and> hash_of x q = h"
  by (induction P rule: rev_induct) (auto simp: tbl_snoc split: if_splits)

lemma tbl_append_early:
  "tbl x (P @ R) h = Some q \<Longrightarrow> q \<notin> set R \<Longrightarrow> tbl x P h = Some q"
proof (induction R rule: rev_induct)
  case (snoc r R)
  then show ?case
    by (auto simp: tbl_snoc append_assoc [symmetric] simp del: append_assoc split: if_splits)
qed simp

text \<open>The tokens describe the bytes of \<open>x\<close> from \<open>p\<close> on, \<open>P\<close> being the positions at which
  earlier tokens start: a reference names the latest of these with its hash, which is at least three bytes back.\<close>

fun valid :: "bytes \<Rightarrow> nat list \<Rightarrow> nat \<Rightarrow> token list \<Rightarrow> bool" where
  "valid x P p [] \<longleftrightarrow> p = length x"
| "valid x P p (Lit b # ts) \<longleftrightarrow> p < length x \<and> b = x ! p \<and> valid x (P @ [p]) (p + 1) ts"
| "valid x P p (Ref h t # ts) \<longleftrightarrow>
     1 \<le> t \<and> t \<le> 271 \<and> h < 4096 \<and> p + t + 2 < length x
     \<and> (\<exists>q. tbl x P h = Some q \<and> q + 2 < p \<and> (\<forall>i < t + 2. x ! (q + i) = x ! (p + i)))
     \<and> valid x (P @ [p]) (p + t + 2) ts"

lemma valid_le: "valid x P p ts \<Longrightarrow> p \<le> length x"
  by (induction x P p ts rule: valid.induct) auto

lemma valid_ref_room: "valid x P p ts \<Longrightarrow> \<exists>r \<in> set ts. is_ref r \<Longrightarrow> p + 3 < length x"
  by (induction x P p ts rule: valid.induct) auto

section \<open>The decoder on one token\<close>

text \<open>The output buffer when the first \<open>p\<close> bytes are known.\<close>

definition buf :: "bytes \<Rightarrow> nat \<Rightarrow> bytes" where
  "buf x p = take p x @ replicate (length x - p) 0"

lemma length_buf [simp]: "p \<le> length x \<Longrightarrow> length (buf x p) = length x"
  by (simp add: buf_def)

lemma nth_buf: "i < p \<Longrightarrow> p \<le> length x \<Longrightarrow> buf x p ! i = x ! i"
  by (simp add: buf_def nth_append)

lemma buf_0: "buf x 0 = replicate (length x) 0"
  by (simp add: buf_def)

lemma buf_all: "buf x (length x) = x"
  by (simp add: buf_def)

lemma buf_Suc: "p < length x \<Longrightarrow> (buf x p)[p := x ! p] = buf x (p + 1)"
  by (rule nth_equalityI) (auto simp: buf_def nth_append nth_list_update)

lemma move_by_one_buf:
  assumes "q < p" and "p + n \<le> length x" and "\<And>i. i < n \<Longrightarrow> x ! (q + i) = x ! (p + i)"
  shows "move_by_one q p n (buf x p) = buf x (p + n)"
  using assms(2,3)
proof (induction n)
  case (Suc n)
  then have IH: "move_by_one q p n (buf x p) = buf x (p + n)" by simp
  have "buf x (p + n) ! (q + n) = x ! (p + n)"
    using assms(1) Suc.prems by (simp add: nth_buf)
  with IH Suc.prems buf_Suc [of "p + n" x] show ?case by simp
qed simp

lemma copy_match_buf:
  assumes "q < p" and "p + n \<le> length x" and eq: "\<And>i. i < n \<Longrightarrow> x ! (q + i) = x ! (p + i)"
  shows "copy_match q p n (buf x p) = buf x (p + n)"
proof (cases "p - q < n")
  case True
  with assms show ?thesis by (simp add: copy_match_def move_by_one_buf)
next
  case False
  then have "q + n \<le> p" using assms(1) by simp
  then have "slice q (q + n) (buf x p) = slice p (p + n) x"
    using assms by (intro nth_equalityI) (auto simp: length_slice nth_slice nth_buf)
  moreover have "overwrite p (slice p (p + n) x) (buf x p) = buf x (p + n)"
    using assms(2) take_add [of p n x] by (simp add: overwrite_def buf_def slice_def)
  ultimately show ?thesis using False by (simp add: copy_match_def)
qed

lemma hash_at_buf:
  assumes "p \<le> length x" and "q + 2 < p" and "q + 4 \<le> length x"
  shows "hash_at (buf x p) q off = off(hash_of x q := q)"
proof -
  have "synlz_hash (read_u32 (buf x p) q) = synlz_hash (read_u32 x q)"
    using assms by (intro synlz_hash_cong) (auto simp: nth_buf)
  with assms show ?thesis by (simp add: hash_at_def hash_of_def)
qed

text \<open>The decoder has entered all but the last few positions, and what it has entered agrees.\<close>

definition sync :: "bytes \<Rightarrow> nat list \<Rightarrow> nat \<Rightarrow> int \<Rightarrow> (nat \<Rightarrow> nat) \<Rightarrow> bool" where
  "sync x P p lh off \<longleftrightarrow> int p - 3 \<le> lh \<and> - 1 \<le> lh \<and> lh \<le> int p - 1
     \<and> (\<exists>Q. P = Q @ [nat (lh + 1)..<p] \<and> (\<forall>h q. tbl x Q h = Some q \<longrightarrow> off h = q))"

lemma sync_lookup:
  assumes "sync x P p lh off" and "tbl x P h = Some q" and "q + 2 < p"
  shows "off h = q"
proof -
  from assms(1) obtain Q where Q: "P = Q @ [nat (lh + 1)..<p]" "\<forall>h q. tbl x Q h = Some q \<longrightarrow> off h = q"
    and lh: "int p - 3 \<le> lh" by (auto simp: sync_def)
  have "q \<notin> set [nat (lh + 1)..<p]" using lh assms(3) by auto
  with tbl_append_early [of x Q _ h q] assms(2) Q show ?thesis by auto
qed

lemma sync_literal:
  assumes "sync x P p lh off" and "p + 3 \<le> length x"
  shows "case hash_literal (buf x (p + 1)) (p + 1) lh off of
           (lh', off') \<Rightarrow> sync x (P @ [p]) (p + 1) lh' off'"
proof -
  from assms(1) obtain Q where Q: "P = Q @ [nat (lh + 1)..<p]" "\<forall>h q. tbl x Q h = Some q \<longrightarrow> off h = q"
    and lh: "int p - 3 \<le> lh" "- 1 \<le> lh" "lh \<le> int p - 1" by (auto simp: sync_def)
  show ?thesis
  proof (cases "lh < int (p + 1) - 3")
    case True
    define q where "q = nat (lh + 1)"
    from True lh have q: "q + 2 = p" "lh + 1 = int q" by (auto simp: q_def)
    then have "P @ [p] = (Q @ [q]) @ [nat (lh + 1 + 1)..<p + 1]"
      using Q(1) lh by (simp add: q_def [symmetric] upt_rec nat_add_distrib)
    moreover have "hash_at (buf x (p + 1)) q off = off(hash_of x q := q)"
      using q assms(2) by (intro hash_at_buf) auto
    ultimately show ?thesis
      using Q(2) True lh q by (auto simp: hash_literal_def sync_def tbl_snoc q_def [symmetric] intro!: exI [of _ "Q @ [q]"])
  next
    case False
    then have "P @ [p] = Q @ [nat (lh + 1)..<p + 1]"
      using Q(1) lh by simp
    with False Q(2) lh show ?thesis
      by (auto simp: hash_literal_def sync_def)
  qed
qed

lemma fold_hash_at_buf:
  assumes "p \<le> length x" and "\<And>h q. tbl x Q h = Some q \<Longrightarrow> off h = q"
  shows "(\<And>q. q \<in> set L \<Longrightarrow> q + 2 < p \<and> q + 4 \<le> length x) \<Longrightarrow>
    tbl x (Q @ L) h = Some q \<Longrightarrow> fold (hash_at (buf x p)) L off h = q"
proof (induction L arbitrary: h q rule: rev_induct)
  case Nil
  with assms(2) show ?case by simp
next
  case (snoc r L)
  have "hash_at (buf x p) r f = f(hash_of x r := r)" for f
    using snoc.prems(1) [of r] assms(1) by (intro hash_at_buf) auto
  moreover have "tbl x (Q @ L @ [r]) = (tbl x (Q @ L))(hash_of x r := Some r)"
    using tbl_snoc [of x "Q @ L" r] by simp
  ultimately show ?case
    using snoc.prems snoc.IH by (auto split: if_splits)
qed

lemma sync_reference:
  assumes "sync x P p lh off" and "1 \<le> t" and "p + t + 2 < length x"
  shows "sync x (P @ [p]) (p + t + 2) (int (p + t + 2) - 1) (hash_upto (buf x (p + t + 2)) p lh off)"
proof -
  from assms(1) obtain Q where Q: "P = Q @ [nat (lh + 1)..<p]" "\<forall>h q. tbl x Q h = Some q \<longrightarrow> off h = q"
    and lh: "int p - 3 \<le> lh" "- 1 \<le> lh" "lh \<le> int p - 1" by (auto simp: sync_def)
  then have P: "P @ [p] = Q @ [nat (lh + 1)..<p + 1]" by simp
  have "hash_upto (buf x (p + t + 2)) p lh off h = q" if "tbl x (P @ [p]) h = Some q" for h q
  proof -
    have "q + 2 < p + t + 2 \<and> q + 4 \<le> length x" if "q \<in> set [nat (lh + 1)..<p + 1]" for q
      using that assms(2,3) by auto
    moreover have "tbl x (Q @ [nat (lh + 1)..<p + 1]) h = Some q" using that P by simp
    moreover have "p + t + 2 \<le> length x" using assms(3) by simp
    ultimately show ?thesis
      unfolding hash_upto_def using Q(2) by (intro fold_hash_at_buf [of "p + t + 2" x Q off]) blast+
  qed
  then show ?thesis by (auto simp: sync_def intro!: exI [of _ "P @ [p]"])
qed

text \<open>How the decoder reads the bytes of a reference.\<close>

lemma unat_u16_and_15: "unat ((w :: u16) AND 15) = unat w mod 16"
proof -
  have "w AND 15 = take_bit 4 w" by (simp add: take_bit_eq_mask mask_eq_exp_minus_1)
  then show ?thesis by (simp add: unat_take_bit)
qed

lemma unat_ref_word:
  assumes "h < 4096" and "t \<le> 15"
  shows "unat (of_nat t OR push_bit 4 (of_nat h) :: u16) = h * 16 + t"
proof -
  have h: "unat (push_bit 4 (of_nat h) :: u16) = h * 16"
    using assms(1) by (subst unat_push_bit) (simp_all add: unat_of_nat)
  have disj: "(of_nat t :: u16) AND push_bit 4 (of_nat h) = 0"
  proof (rule bit_word_eqI)
    fix n
    have "\<not> bit t n" if "4 \<le> n"
    proof -
      have "t < 2 ^ n" using assms(2) that power_increasing [of 4 n "2 :: nat"] by simp
      then show ?thesis by (simp add: bit_iff_odd)
    qed
    then show "bit ((of_nat t :: u16) AND push_bit 4 (of_nat h)) n = bit (0 :: u16) n"
      by (cases "n < 4") (auto simp: bit_and_iff bit_push_bit_iff bit_of_nat_iff)
  qed
  have "(of_nat t OR push_bit 4 (of_nat h) :: u16) = of_nat t + push_bit 4 (of_nat h)"
    using disj by (simp add: disjunctive_add_eq_or)
  then show ?thesis
    using assms h by (simp add: unat_word_ariths unat_of_nat)
qed

lemma drop_ConsD: "drop pos s = b # rest \<Longrightarrow> pos < length s \<and> s ! pos = b \<and> drop (pos + 1) s = rest"
proof -
  assume d: "drop pos s = b # rest"
  then have "pos < length s" by (metis drop_all leI list.distinct(1))
  with d show ?thesis by (simp add: Cons_nth_drop_Suc [symmetric])
qed

lemma tokens_lit:
  assumes "drop pos s = x ! p # rest" and "cw AND cwbit = 0" and "p < length x"
  shows "synlz_tokens s (length x) cw cwbit pos (buf x p) p lh off =
    (if rest = [] then (DOk (p + 1), buf x (p + 1))
     else case hash_literal (buf x (p + 1)) (p + 1) lh off of (lh', off') \<Rightarrow>
       if push_bit 1 cwbit = 0 then synlz_outer s (length x) (pos + 1) (buf x (p + 1)) (p + 1) lh' off'
       else synlz_tokens s (length x) cw (push_bit 1 cwbit) (pos + 1) (buf x (p + 1)) (p + 1) lh' off')"
proof -
  from drop_ConsD [OF assms(1)] have s: "pos < length s" "s ! pos = x ! p" "drop (pos + 1) s = rest" by auto
  then have "rest = [] \<longleftrightarrow> pos + 1 \<ge> length s" by auto
  with assms s buf_Suc [OF assms(3)] show ?thesis
    by (subst synlz_tokens.simps) (simp add: Let_def split: prod.splits)
qed

text \<open>The size of a reference token as the decoder computes it, and where it leaves the read position.\<close>

lemma ref_header:
  assumes "drop pos s = backref_bytes h t @ rest" and "rest \<noteq> []" and "1 \<le> t" and "t \<le> 271" and "h < 4096"
  defines "w \<equiv> from_le (slice pos (pos + 2) s) :: u16"
  shows "pos + 2 < length s"
    and "unat (drop_bit 4 w) = h"
    and "(if unat (w AND 15) + 2 = 2 then (unat (s ! (pos + 2)) + 18, pos + 2 + 1) else (unat (w AND 15) + 2, pos + 2))
         = (t + 2, pos + length (backref_bytes h t))"
    and "pos + length (backref_bytes h t) < length s"
proof -
  define hw :: u16 where "hw = (if t \<le> 15 then of_nat t OR push_bit 4 (of_nat h) else push_bit 4 (of_nat h))"
  have bb: "backref_bytes h t = le_bytes 2 hw @ (if t \<le> 15 then [] else [of_nat (t - 16)])"
    by (simp add: backref_bytes_def hw_def Let_def)
  have d: "drop pos s = le_bytes 2 hw @ (if t \<le> 15 then [] else [of_nat (t - 16)]) @ rest"
    using assms(1) bb by simp
  have "slice pos (pos + 2) s = le_bytes 2 hw"
    unfolding slice_def d by simp
  then have w: "w = hw" by (simp add: w_def)
  have len: "length s - pos = 2 + (if t \<le> 15 then 0 else 1) + length rest"
    using arg_cong [OF d, of length] by simp
  then show "pos + 2 < length s" using assms(2) by (cases rest) (auto split: if_splits)
  show "pos + length (backref_bytes h t) < length s"
    using len assms(2) bb by (cases rest) (auto split: if_splits)
  have hw: "unat hw = h * 16 + (if t \<le> 15 then t else 0)"
    using unat_ref_word [OF assms(5), of t] unat_ref_word [OF assms(5), of 0] by (simp add: hw_def)
  then show "unat (drop_bit 4 w) = h"
    using assms(3) by (simp add: w unat_drop_bit split: if_splits)
  have nth: "s ! (pos + 2) = of_nat (t - 16)" if "\<not> t \<le> 15"
  proof -
    have "s ! (pos + 2) = drop pos s ! 2" using \<open>pos + 2 < length s\<close> by simp
    also have "\<dots> = of_nat (t - 16)" unfolding d using that by (simp add: nth_append)
    finally show ?thesis .
  qed
  have ext: "unat (s ! (pos + 2)) = t - 16" if "\<not> t \<le> 15"
    using assms(4) unat_of_nat_byte [of "t - 16"] by (simp only: nth [OF that])
  show "(if unat (w AND 15) + 2 = 2 then (unat (s ! (pos + 2)) + 18, pos + 2 + 1) else (unat (w AND 15) + 2, pos + 2))
         = (t + 2, pos + length (backref_bytes h t))"
    using assms(3,4) ext bb by (cases "t \<le> 15") (simp_all add: w unat_u16_and_15 hw)
qed

lemma tokens_ref:
  assumes "drop pos s = backref_bytes h t @ rest" and "rest \<noteq> []" and "cw AND cwbit \<noteq> 0"
    and t: "1 \<le> t" "t \<le> 271" "h < 4096" and p: "p + t + 2 < length x"
    and q: "off h = q" "q + 2 < p" "\<And>i. i < t + 2 \<Longrightarrow> x ! (q + i) = x ! (p + i)"
  shows "synlz_tokens s (length x) cw cwbit pos (buf x p) p lh off =
    (let pos' = pos + length (backref_bytes h t); d = buf x (p + t + 2);
         lh' = int (p + t + 2) - 1; off' = hash_upto d p lh off
     in if push_bit 1 cwbit = 0 then synlz_outer s (length x) pos' d (p + t + 2) lh' off'
        else synlz_tokens s (length x) cw (push_bit 1 cwbit) pos' d (p + t + 2) lh' off')"
proof -
  note hdr = ref_header [OF assms(1,2) t]
  have copy: "copy_match q p (t + 2) (buf x p) = buf x (p + t + 2)"
    using copy_match_buf [of q p "t + 2" x] p q by (simp add: add.assoc)
  have hd: "\<not> (unat (from_le (slice pos (pos + 2) s) AND 15 :: u16) + 2 = 2 \<and> length s \<le> pos + 2)"
    using hdr(1) by simp
  show ?thesis
    apply (subst synlz_tokens.simps)
    using assms(3) hdr(1,4) hd p q(1,2)
    apply (simp only: Let_def hdr(2,3) copy if_False if_True simp_thms prod.case)
    by (simp add: hash_upto_def copy)
qed

section \<open>The decoder on groups\<close>

text \<open>The tokens describe the rest of \<open>x\<close>, and the decoder's table is in step if a reference is left to decode.\<close>

definition ready :: "bytes \<Rightarrow> nat list \<Rightarrow> nat \<Rightarrow> int \<Rightarrow> (nat \<Rightarrow> nat) \<Rightarrow> token list \<Rightarrow> bool" where
  "ready x P p lh off ts \<longleftrightarrow> valid x P p ts \<and> ((\<exists>r \<in> set ts. is_ref r) \<longrightarrow> sync x P p lh off)"

lemma ready_lit:
  assumes "ready x P p lh off (Lit b # ts)"
    and "hash_literal (buf x (p + 1)) (p + 1) lh off = (lh', off')"
  shows "ready x (P @ [p]) (p + 1) lh' off' ts"
proof -
  have v: "valid x (P @ [p]) (p + 1) ts" using assms(1) by (simp add: ready_def)
  have "sync x (P @ [p]) (p + 1) lh' off'" if "\<exists>r \<in> set ts. is_ref r"
    using that assms sync_literal [of x P p lh off] valid_ref_room [OF v] by (auto simp: ready_def)
  with v show ?thesis by (simp add: ready_def)
qed

lemma ready_ref:
  assumes "ready x P p lh off (Ref h t # ts)"
  shows "ready x (P @ [p]) (p + t + 2) (int (p + t + 2) - 1) (hash_upto (buf x (p + t + 2)) p lh off) ts"
  using assms sync_reference [of x P p lh off t] by (simp add: ready_def)

lemma ready_refE:
  assumes "ready x P p lh off (Ref h t # ts)"
  obtains q where "off h = q" and "q + 2 < p" and "\<And>i. i < t + 2 \<Longrightarrow> x ! (q + i) = x ! (p + i)"
  using assms sync_lookup [of x P p lh off h] by (auto simp: ready_def)

lemma tok_bytes_nonempty: "tok_bytes k \<noteq> []"
proof
  assume "tok_bytes k = []"
  then have "length (tok_bytes k) = 0" by simp
  then show False by (cases k) (simp_all add: backref_bytes_def Let_def del: length_0_conv split: if_splits)
qed

lemma concat_tok_bytes_nonempty: "ts \<noteq> [] \<Longrightarrow> concat (map tok_bytes ts) \<noteq> []"
  using tok_bytes_nonempty by (cases ts) auto

lemma valid_ref_more: "valid x P p (Ref h t # ts) \<Longrightarrow> ts \<noteq> []"
  by auto

lemma cw_bit_at:
  assumes "length (pre @ k # ts) \<le> 32"
  shows "cw_of (pre @ k # ts) AND push_bit (length pre) 1 = 0 \<longleftrightarrow> \<not> is_ref k"
  using assms by (subst and_push_bit_1) (auto simp: bit_cw_of)

lemma drop_append_shift: "drop pos s = a @ b \<Longrightarrow> drop (pos + length a) s = b"
  by (metis add.commute append_eq_conv_conj drop_drop)

lemma token_step:
  assumes d: "drop pos s = tok_bytes k @ rest" and r: "ready x P p lh off (k # ts)"
    and cw: "cw AND cwbit = 0 \<longleftrightarrow> \<not> is_ref k" and e: "rest = [] \<longrightarrow> ts = []"
  obtains (last) "rest = []" and "synlz_tokens s (length x) cw cwbit pos (buf x p) p lh off = (DOk (length x), x)"
  | (further) P' p' lh' off' where "rest \<noteq> []" and "ready x P' p' lh' off' ts"
      and "synlz_tokens s (length x) cw cwbit pos (buf x p) p lh off =
        (let pos' = pos + length (tok_bytes k)
         in if push_bit 1 cwbit = 0 then synlz_outer s (length x) pos' (buf x p') p' lh' off'
            else synlz_tokens s (length x) cw (push_bit 1 cwbit) pos' (buf x p') p' lh' off')"
proof (cases k)
  case (Lit b)
  then have b: "drop pos s = x ! p # rest" "p < length x" and r': "ready x P p lh off (Lit b # ts)"
    using d r by (auto simp: ready_def)
  obtain lh' off' where h: "hash_literal (buf x (p + 1)) (p + 1) lh off = (lh', off')"
    by (cases "hash_literal (buf x (p + 1)) (p + 1) lh off")
  note ready' = ready_lit [OF r' h]
  note step = tokens_lit [OF b(1) _ b(2), of cw cwbit lh off]
  show ?thesis
  proof (cases "rest = []")
    case True
    with e ready' have "p + 1 = length x" by (simp add: ready_def)
    with True step cw Lit show ?thesis by (intro last) (simp_all add: buf_all)
  next
    case False
    with step cw Lit h show ?thesis by (intro further [OF False ready']) simp
  qed
next
  case (Ref h t)
  then have v: "valid x P p (Ref h t # ts)" using r by (simp add: ready_def)
  then have rest: "rest \<noteq> []" using e valid_ref_more by blast
  have d': "drop pos s = backref_bytes h t @ rest" using d Ref by simp
  obtain q where q: "off h = q" "q + 2 < p" "\<And>i. i < t + 2 \<Longrightarrow> x ! (q + i) = x ! (p + i)"
    using ready_refE r Ref by metis
  have "ready x (P @ [p]) (p + t + 2) (int (p + t + 2) - 1) (hash_upto (buf x (p + t + 2)) p lh off) ts"
    using r Ref by (intro ready_ref) simp
  from further [OF rest this] show ?thesis
    using tokens_ref [of pos s h t rest cw cwbit p x off q lh] d' rest q v cw Ref by (simp add: Let_def)
qed

text \<open>The last group, with which the stream ends, and a full group, after which another follows.\<close>

lemma last_group:
  "length (pre @ ts) < 32 \<Longrightarrow> drop pos s = concat (map tok_bytes ts) \<Longrightarrow> ready x P p lh off ts \<Longrightarrow>
     synlz_tokens s (length x) (cw_of (pre @ ts)) (push_bit (length pre) 1) pos (buf x p) p lh off = (DOk (length x), x)"
proof (induction ts arbitrary: pre pos P p lh off)
  case Nil
  then have "p = length x" "length s \<le> pos" by (simp_all add: ready_def)
  then show ?case by (subst synlz_tokens.simps) (simp add: buf_all)
next
  case (Cons k ts)
  have cw: "cw_of (pre @ k # ts) AND push_bit (length pre) 1 = 0 \<longleftrightarrow> \<not> is_ref k"
    using Cons.prems(1) by (intro cw_bit_at) simp
  have d: "drop pos s = tok_bytes k @ concat (map tok_bytes ts)" using Cons.prems(2) by simp
  have e: "concat (map tok_bytes ts) = [] \<longrightarrow> ts = []" using concat_tok_bytes_nonempty by blast
  from d Cons.prems(3) cw e show ?case
  proof (cases rule: token_step [consumes 4])
    case (further P' p' lh' off')
    have "push_bit 1 (push_bit (length pre) (1 :: u32)) = push_bit (length (pre @ [k])) 1"
      unfolding push_bit_step by simp
    moreover have "push_bit (length (pre @ [k])) (1 :: u32) \<noteq> 0"
      using Cons.prems(1) unfolding push_bit_1_eq_0 by simp
    ultimately show ?thesis
      using further(3) Cons.IH [of "pre @ [k]" _ P', OF _ drop_append_shift [OF d] further(2)] Cons.prems(1)
      by (simp only: Let_def if_False) simp
  qed
qed

lemma full_group:
  "length (pre @ ts) = 32 \<Longrightarrow> ts \<noteq> [] \<Longrightarrow> drop pos s = concat (map tok_bytes ts) @ rest \<Longrightarrow> rest \<noteq> [] \<Longrightarrow>
     ready x P p lh off (ts @ later) \<Longrightarrow>
     \<exists>P' p' lh' off'. ready x P' p' lh' off' later \<and>
       synlz_tokens s (length x) (cw_of (pre @ ts)) (push_bit (length pre) 1) pos (buf x p) p lh off
         = synlz_outer s (length x) (pos + length (concat (map tok_bytes ts))) (buf x p') p' lh' off'"
proof (induction ts arbitrary: pre pos P p lh off)
  case (Cons k ts)
  have cw: "cw_of (pre @ k # ts) AND push_bit (length pre) 1 = 0 \<longleftrightarrow> \<not> is_ref k"
    using Cons.prems(1) by (intro cw_bit_at) simp
  have d: "drop pos s = tok_bytes k @ (concat (map tok_bytes ts) @ rest)" using Cons.prems(3) by simp
  have r: "ready x P p lh off (k # (ts @ later))" using Cons.prems(5) by simp
  have e: "concat (map tok_bytes ts) @ rest = [] \<longrightarrow> ts @ later = []" using Cons.prems(4) by simp
  from d r cw e show ?case
  proof (cases rule: token_step [consumes 4])
    case (further P' p' lh' off')
    have bit: "push_bit 1 (push_bit (length pre) (1 :: u32)) = push_bit (length (pre @ [k])) 1"
      unfolding push_bit_step by simp
    have len: "push_bit (length (pre @ [k])) (1 :: u32) = 0 \<longleftrightarrow> ts = []"
      using Cons.prems(1) unfolding push_bit_1_eq_0 by (cases ts) auto
    show ?thesis
    proof (cases "ts = []")
      case True
      with further(2,3) bit len show ?thesis by (auto simp only: Let_def if_True append.simps) auto
    next
      case False
      with Cons.IH [of "pre @ [k]" _ P' p' lh' off', OF _ False drop_append_shift [OF d] Cons.prems(4) further(2)]
        Cons.prems(1) further(3) bit len
      show ?thesis by (simp only: Let_def if_False) (auto simp: add.assoc)
    qed
  qed (use Cons.prems(4) in auto)
qed simp

text \<open>All groups, from the first control word on.\<close>

lemma control_word_at:
  assumes "drop pos s = le_bytes 4 (w :: u32) @ b"
  shows "pos + 4 \<le> length s" and "read_u32 s pos = w" and "drop (pos + 4) s = b"
proof -
  have "length s - pos = 4 + length b" using arg_cong [OF assms, of length] by (simp only: length_drop) simp
  then show "pos + 4 \<le> length s" by simp
  show "read_u32 s pos = w" unfolding read_u32_def slice_def assms by simp
  show "drop (pos + 4) s = b" using drop_append_shift [OF assms] by simp
qed

lemma outer_groups:
  "\<forall>g \<in> set gs. length g = 32 \<Longrightarrow> length r < 32 \<Longrightarrow>
     drop pos s = concat (map group_bytes gs) @ group_bytes r \<Longrightarrow> ready x P p lh off (concat gs @ r) \<Longrightarrow>
     synlz_outer s (length x) pos (buf x p) p lh off = (DOk (length x), x)"
proof (induction gs arbitrary: pos P p lh off)
  case Nil
  then have d: "drop pos s = le_bytes 4 (cw_of r) @ concat (map tok_bytes r)"
    by (simp add: group_bytes_def)
  show ?case
    using last_group [of "[]" r "pos + 4" s x P p lh off] Nil control_word_at [OF d] by (subst synlz_outer.simps) simp
next
  case (Cons g gs)
  let ?rest = "concat (map group_bytes gs) @ group_bytes r"
  have d: "drop pos s = le_bytes 4 (cw_of g) @ (concat (map tok_bytes g) @ ?rest)"
    using Cons.prems(3) group_bytes_def [of g] by simp
  note cw = control_word_at(1,2) [OF d] and d4 = control_word_at(3) [OF d]
  have ne: "?rest \<noteq> []" "g \<noteq> []" using Cons.prems(1)
    by (auto simp: group_bytes_def le_bytes_def)
  obtain P' p' lh' off' where "ready x P' p' lh' off' (concat gs @ r)" and
    "synlz_tokens s (length x) (cw_of g) 1 (pos + 4) (buf x p) p lh off
       = synlz_outer s (length x) (pos + 4 + length (concat (map tok_bytes g))) (buf x p') p' lh' off'"
    using full_group [of "[]" g "pos + 4" s ?rest x P p lh off "concat gs @ r"] Cons.prems d4 ne by auto
  then show ?case
    using cw Cons.IH [of _ P' p' lh' off', OF _ Cons.prems(2) drop_append_shift [OF d4]] Cons.prems(1)
    by (subst synlz_outer.simps) simp
qed

section \<open>The encoder\<close>

text \<open>The stream written so far: full groups, then the open one, whose control word is at \<open>cs_cw_pos\<close>.\<close>

definition emitted :: "bytes \<Rightarrow> token list list \<Rightarrow> token list \<Rightarrow> bytes" where
  "emitted hdr gs r = hdr @ concat (map group_bytes gs) @ group_bytes r"

definition writes :: "bytes \<Rightarrow> token list list \<Rightarrow> token list \<Rightarrow> compress_state \<Rightarrow> bool" where
  "writes hdr gs r st \<longleftrightarrow> (\<forall>g \<in> set gs. length g = 32) \<and> length r < 32 \<and> cs_cwbit st = length r
     \<and> cs_dst st = emitted hdr gs r"

definition cw_at :: "bytes \<Rightarrow> token list list \<Rightarrow> compress_state \<Rightarrow> bool" where
  "cw_at hdr gs st \<longleftrightarrow> cs_cw_pos st = length (hdr @ concat (map group_bytes gs))"

lemma group_bytes_Nil: "group_bytes [] = le_bytes 4 (0 :: u32)"
  by (simp add: group_bytes_def)

lemma group_bytes_lit: "group_bytes (r @ [Lit b]) = group_bytes r @ [b]"
  by (simp add: group_bytes_def cw_of_snoc)

lemma emitted_ref:
  assumes "length r < 32"
  shows "set_cw_bit (length (hdr @ concat (map group_bytes gs))) (length r) (emitted hdr gs r) @ backref_bytes h t
    = emitted hdr gs (r @ [Ref h t])"
proof -
  let ?a = "hdr @ concat (map group_bytes gs)" and ?b = "concat (map tok_bytes r)"
  have e: "emitted hdr gs r = ?a @ le_bytes 4 (cw_of r) @ ?b"
    by (simp add: emitted_def group_bytes_def)
  have "read_u32 (?a @ le_bytes 4 (cw_of r) @ ?b) (length ?a) = cw_of r"
    unfolding read_u32_def by (subst slice_mid) simp_all
  then have "set_cw_bit (length ?a) (length r) (emitted hdr gs r) = ?a @ le_bytes 4 (cw_of r OR push_bit (length r) 1) @ ?b"
    unfolding set_cw_bit_def e by (simp add: overwrite_def)
  then show ?thesis
    by (simp add: emitted_def group_bytes_def cw_of_snoc)
qed

text \<open>Closing a group of 32 opens an empty one.\<close>

lemma emitted_close: "emitted hdr (gs @ [g]) [] = emitted hdr gs g @ le_bytes 4 (0 :: u32)"
  by (simp add: emitted_def group_bytes_Nil)

lemma writes_next:
  assumes "\<forall>g \<in> set gs. length g = 32" and "length r < 32" and "cs_cwbit st = length r"
    and "cs_dst st = emitted hdr gs (r @ [k])" and "cw_at hdr gs st"
  shows "\<exists>gs' r'. concat gs' @ r' = concat gs @ r @ [k] \<and> writes hdr gs' r' (next_cw st) \<and> cw_at hdr gs' (next_cw st)"
proof (cases "length r < 31")
  case True
  with assms show ?thesis
    by (intro exI [of _ gs] exI [of _ "r @ [k]"]) (auto simp: next_cw_def writes_def cw_at_def)
next
  case False
  with assms show ?thesis
    by (intro exI [of _ "gs @ [r @ [k]]"] exI [of _ "[]"])
      (auto simp: next_cw_def writes_def cw_at_def emitted_close, auto simp: emitted_def)
qed

text \<open>The encoder's tables agree with the positions at which it has started a token, and whatever
  tokens describe the rest of the source complete those written so far.\<close>

definition encodes :: "bytes \<Rightarrow> nat list \<Rightarrow> token list \<Rightarrow> nat \<Rightarrow> bool" where
  "encodes src P toks p \<longleftrightarrow> p \<le> length src \<and> (\<forall>q \<in> set P. q < p)
     \<and> (\<forall>ts. valid src P p ts \<longrightarrow> valid src [] 0 (toks @ ts))"

definition tables :: "bytes \<Rightarrow> nat list \<Rightarrow> compress_state \<Rightarrow> bool" where
  "tables src P st \<longleftrightarrow> cs_offset st = tbl src P
     \<and> (\<forall>h q. tbl src P h = Some q \<longrightarrow> cs_cache st h = read_u32 src q)"

lemma encodes_lit:
  "encodes src P toks p \<Longrightarrow> p < length src \<Longrightarrow> encodes src (P @ [p]) (toks @ [Lit (src ! p)]) (p + 1)"
  by (auto simp: encodes_def)

lemma encodes_ref:
  assumes "encodes src P toks p" and "1 \<le> t" "t \<le> 271" "h < 4096" "p + t + 2 < length src"
    and "tbl src P h = Some q" "q + 2 < p" "\<And>i. i < t + 2 \<Longrightarrow> src ! (q + i) = src ! (p + i)"
  shows "encodes src (P @ [p]) (toks @ [Ref h t]) (p + t + 2)"
  using assms by (auto simp: encodes_def)

lemma match_len_bounds:
  "t \<le> tmax \<Longrightarrow> t \<le> match_len src a b tmax t \<and> match_len src a b tmax t \<le> tmax"
proof (induction src a b tmax t rule: match_len.induct)
  case (1 src a b tmax t)
  then show ?case by (subst (1 2) match_len.simps) auto
qed

lemma match_len_eq:
  "t \<le> i \<Longrightarrow> i < match_len src a b tmax t \<Longrightarrow> src ! (a + i) = src ! (b + i)"
proof (induction src a b tmax t rule: match_len.induct)
  case (1 src a b tmax t)
  from "1.prems"(2) have "i < (if t < tmax \<and> a + t < length src \<and> src ! (a + t) = src ! (b + t)
      then match_len src a b tmax (t + 1) else t)"
    by (subst match_len.simps [symmetric])
  with 1 show ?case by (cases "i = t") (auto split: if_splits)
qed

definition enc_inv :: "bytes \<Rightarrow> bytes \<Rightarrow> compress_state \<Rightarrow> bool" where
  "enc_inv hdr src st \<longleftrightarrow> (\<exists>gs r P. writes hdr gs r st \<and> cw_at hdr gs st \<and> tables src P st
     \<and> encodes src P (concat gs @ r) (cs_src_pos st))"

lemma enc_invI_next:
  assumes "\<forall>g \<in> set gs. length g = 32" and "length r < 32" and "cs_cwbit st = length r"
    and "cs_dst st = emitted hdr gs (r @ [k])" and "cw_at hdr gs st" and "tables src P st"
    and "encodes src P ((concat gs @ r) @ [k]) (cs_src_pos st)"
  shows "enc_inv hdr src (next_cw st)"
proof -
  obtain gs' r' where g: "concat gs' @ r' = concat gs @ r @ [k]" "writes hdr gs' r' (next_cw st)" "cw_at hdr gs' (next_cw st)"
    using writes_next [OF assms(1-5)] by blast
  have "tables src P (next_cw st)"
    using assms(6) by (simp add: tables_def next_cw_def)
  moreover have "encodes src P (concat gs' @ r') (cs_src_pos (next_cw st))"
    using assms(7) g(1) by simp
  ultimately show ?thesis using g(2,3) unfolding enc_inv_def by blast
qed

text \<open>The reference a matching hash entry gives.\<close>

lemma encodes_match:
  assumes "encodes src P toks p" and "p \<le> srcendmatch src" and "p + 3 < length src"
    and "tables src P st" and h: "h = synlz_hash (read_u32 src p)" and q: "cs_offset st h = Some q"
    and "(read_u32 src p XOR cs_cache st h) AND 0x00FFFFFF = 0" and "q + 2 < p"
    and t: "t = match_len src (q + 2) (p + 2) (min (length src - (p + 2) - 1) (255 + 16)) 1"
  shows "encodes src (P @ [p]) (toks @ [Ref h t]) (p + t + 2)"
proof (rule encodes_ref)
  have len: "p + 11 \<le> length src" using assms(2,8) by (auto simp: srcendmatch_def)
  then have tb: "1 \<le> t" "t \<le> min (length src - (p + 2) - 1) (255 + 16)"
    unfolding t using match_len_bounds [of 1 "min (length src - (p + 2) - 1) (255 + 16)" src "q + 2" "p + 2"] by auto
  then show "1 \<le> t" "t \<le> 271" by auto
  show "p + t + 2 < length src" using tb len by auto
  show "h < 4096" unfolding h by (rule synlz_hash_less)
  show tq: "tbl src P h = Some q" using assms(4) q by (simp add: tables_def)
  show "q + 2 < p" by fact
  have "take_bit 24 (read_u32 src p) = take_bit 24 (read_u32 src q)"
    using xor_low_eq_0 [OF assms(7)] assms(4) tq by (simp add: tables_def)
  then have three: "src ! (q + i) = src ! (p + i)" if "i < 3" for i
    using read_u32_low_eqD [of src p src q i] assms(8) len that by simp
  show "src ! (q + i) = src ! (p + i)" if "i < t + 2" for i
  proof (cases "i < 3")
    case False
    then have i: "1 \<le> i - 2" "i - 2 < t" using that by auto
    have "q + 2 + (i - 2) = q + i" "p + 2 + (i - 2) = p + i" using False by simp_all
    with match_len_eq [OF i(1) i(2) [unfolded t]] show ?thesis by (simp only:)
  qed (rule three)
qed (fact assms(1))

lemma tables_update:
  "tables src P st \<Longrightarrow> h = hash_of src p \<Longrightarrow> v = read_u32 src p \<Longrightarrow>
     cs_offset st' = (cs_offset st)(h := Some p) \<Longrightarrow> cs_cache st' = (cs_cache st)(h := v) \<Longrightarrow> tables src (P @ [p]) st'"
  by (auto simp: tables_def tbl_snoc split: if_splits)

lemma compress_step_inv:
  assumes "enc_inv hdr src st" and p: "cs_src_pos st \<le> srcendmatch src" "cs_src_pos st + 3 < length src"
  shows "enc_inv hdr src (compress_step src st)"
proof -
  from assms(1) obtain gs r P where w: "writes hdr gs r st" "cw_at hdr gs st" and tb: "tables src P st"
    and enc: "encodes src P (concat gs @ r) (cs_src_pos st)" by (auto simp: enc_inv_def)
  from w have g: "\<forall>g \<in> set gs. length g = 32" "length r < 32" "cs_cwbit st = length r" "cs_dst st = emitted hdr gs r"
    by (auto simp: writes_def)
  define p where "p = cs_src_pos st"
  define v where "v = read_u32 src p"
  define h where "h = synlz_hash v"
  define st1 where "st1 = st\<lparr>cs_offset := (cs_offset st)(h := Some p), cs_cache := (cs_cache st)(h := v)\<rparr>"
  have tb1: "tables src (P @ [p]) (st1\<lparr>cs_src_pos := a, cs_dst := b\<rparr>)" for a b
    by (rule tables_update [OF tb]) (simp_all add: st1_def hash_of_def h_def v_def)
  have lit: "enc_inv hdr src (next_cw (st1\<lparr>cs_src_pos := p + 1, cs_dst := cs_dst st @ [src ! p]\<rparr>))"
  proof (rule enc_invI_next [of gs r _ _ "Lit (src ! p)", OF g(1,2) _ _ _ tb1])
    show "encodes src (P @ [p]) ((concat gs @ r) @ [Lit (src ! p)]) (cs_src_pos (st1\<lparr>cs_src_pos := p + 1, cs_dst := cs_dst st @ [src ! p]\<rparr>))"
      using encodes_lit [OF enc] assms(3) by (simp add: p_def)
  qed (use g w in \<open>simp_all add: st1_def emitted_def group_bytes_lit cw_at_def\<close>)
  have ref: "enc_inv hdr src (next_cw (st1\<lparr>cs_src_pos := p + 2 + t,
        cs_dst := set_cw_bit (cs_cw_pos st) (cs_cwbit st) (cs_dst st) @ backref_bytes h t\<rparr>))"
    if "encodes src (P @ [p]) ((concat gs @ r) @ [Ref h t]) (p + t + 2)" for t
  proof (rule enc_invI_next [of gs r _ _ "Ref h t", OF g(1,2) _ _ _ tb1])
    show "encodes src (P @ [p]) ((concat gs @ r) @ [Ref h t]) (cs_src_pos (st1\<lparr>cs_src_pos := p + 2 + t,
        cs_dst := set_cw_bit (cs_cw_pos st) (cs_cwbit st) (cs_dst st) @ backref_bytes h t\<rparr>))"
      using that by (simp add: ac_simps)
  qed (use g w emitted_ref [OF g(2)] in \<open>simp_all add: st1_def cw_at_def\<close>)
  show ?thesis
  proof (cases "\<exists>q. cs_offset st h = Some q \<and> (v XOR cs_cache st h) AND 0x00FFFFFF = 0 \<and> q + 2 < p")
    case True
    then obtain q where q: "cs_offset st h = Some q" "(v XOR cs_cache st h) AND 0x00FFFFFF = 0" "q + 2 < p" by blast
    define t where "t = match_len src (q + 2) (p + 2) (min (length src - (p + 2) - 1) (255 + 16)) 1"
    have "encodes src (P @ [p]) ((concat gs @ r) @ [Ref h t]) (p + t + 2)"
      using encodes_match [of src P "concat gs @ r" p st h q t] enc tb q assms(2,3) by (simp add: p_def v_def h_def t_def)
    from ref [OF this] q show ?thesis
      by (simp add: compress_step_def Let_def p_def [symmetric] v_def [symmetric] h_def [symmetric] st1_def t_def)
  next
    case False
    with lit show ?thesis
      by (auto simp: compress_step_def Let_def p_def [symmetric] v_def [symmetric] h_def [symmetric] st1_def split: option.splits)
  qed
qed

lemma compress_main_inv: "enc_inv hdr src st \<Longrightarrow> enc_inv hdr src (compress_main src st)"
proof (induction src st rule: compress_main.induct)
  case (1 src st)
  then show ?case
    by (subst compress_main.simps) (simp add: Let_def compress_step_inv)
qed

text \<open>The tail writes literals only and does not maintain the tables.\<close>

definition tail_inv :: "bytes \<Rightarrow> bytes \<Rightarrow> compress_state \<Rightarrow> bool" where
  "tail_inv hdr src st \<longleftrightarrow> (\<exists>gs r P. writes hdr gs r st \<and> encodes src P (concat gs @ r) (cs_src_pos st))"

lemma compress_tail_inv:
  "tail_inv hdr src st \<Longrightarrow> tail_inv hdr src (compress_tail src st) \<and> cs_src_pos (compress_tail src st) = length src"
proof (induction src st rule: compress_tail.induct)
  case (1 src st)
  from "1.prems" obtain gs r P where w: "writes hdr gs r st" and enc: "encodes src P (concat gs @ r) (cs_src_pos st)"
    by (auto simp: tail_inv_def)
  show ?case
  proof (cases "cs_src_pos st < length src")
    case True
    let ?st = "st\<lparr>cs_dst := cs_dst st @ [src ! cs_src_pos st], cs_src_pos := cs_src_pos st + 1\<rparr>"
    let ?st' = "if cs_cwbit ?st < 31 then ?st\<lparr>cs_cwbit := cs_cwbit ?st + 1\<rparr>
                else ?st\<lparr>cs_dst := cs_dst ?st @ le_bytes 4 (0 :: u32), cs_cwbit := 0\<rparr>"
    let ?r = "r @ [Lit (src ! cs_src_pos st)]"
    have e: "encodes src (P @ [cs_src_pos st]) (concat gs @ ?r) (cs_src_pos ?st')"
      using encodes_lit [OF enc True] by simp
    have "tail_inv hdr src ?st'"
    proof (cases "length r < 31")
      case True
      with w have "writes hdr gs ?r ?st'"
        by (simp add: writes_def emitted_def group_bytes_lit)
      with e show ?thesis unfolding tail_inv_def by blast
    next
      case False
      with w have "writes hdr (gs @ [?r]) [] ?st'"
        by (auto simp: writes_def emitted_def group_bytes_lit group_bytes_Nil)
      moreover have "concat (gs @ [?r]) @ [] = concat gs @ ?r" by simp
      ultimately show ?thesis using e unfolding tail_inv_def by metis
    qed
    moreover have "compress_tail src st = compress_tail src ?st'"
      by (subst compress_tail.simps) (simp only: True if_True Let_def)
    ultimately show ?thesis using "1.IH" [OF True, unfolded Let_def] by (simp only:)
  next
    case False
    with enc have "cs_src_pos st = length src" by (simp add: encodes_def)
    with 1 False show ?thesis by (subst (1 2) compress_tail.simps) simp
  qed
qed

section \<open>The round trip\<close>

lemma length_synlz_header: "length (synlz_header n) = (if n \<ge> 0x8000 then 4 else 2)"
  by (simp add: synlz_header_def)

lemma compressed_stream:
  assumes "src \<noteq> []"
  obtains gs r where "synlz_compress src = emitted (synlz_header (length src)) gs r"
    and "\<forall>g \<in> set gs. length g = 32" and "length r < 32" and "valid src [] 0 (concat gs @ r)"
proof -
  let ?hdr = "synlz_header (length src)"
  let ?st = "\<lparr>cs_src_pos = 0, cs_cwbit = 0, cs_cw_pos = length ?hdr, cs_dst = ?hdr @ le_bytes 4 (0 :: u32),
                 cs_offset = (\<lambda>_. None), cs_cache = (\<lambda>_. 0)\<rparr>"
  have "writes ?hdr [] [] ?st" "cw_at ?hdr [] ?st" "tables src [] ?st" "encodes src [] (concat [] @ []) (cs_src_pos ?st)"
    by (auto simp: writes_def cw_at_def tables_def encodes_def emitted_def group_bytes_Nil fun_eq_iff)
  then have "enc_inv ?hdr src ?st" unfolding enc_inv_def by blast
  then have "tail_inv ?hdr src (compress_main src ?st)"
    using compress_main_inv [of ?hdr src ?st] by (auto simp: enc_inv_def tail_inv_def)
  from compress_tail_inv [OF this] obtain gs r P where
    "writes ?hdr gs r (compress_tail src (compress_main src ?st))" and "encodes src P (concat gs @ r) (length src)"
    by (auto simp: tail_inv_def)
  moreover from this(2) have "valid src [] 0 ((concat gs @ r) @ [])"
    unfolding encodes_def by (metis valid.simps(1))
  ultimately show ?thesis
    using assms by (intro that [of gs r]) (auto simp: synlz_compress_def Let_def writes_def)
qed

text \<open>The size the decoder reads from the header.\<close>

lemma synlz_header_small:
  assumes "0 < n" and "n < 0x8000"
  shows "(from_le (slice 0 2 (synlz_header n @ rest)) :: u16) = of_nat n"
    and "(of_nat n :: u16) \<noteq> 0" and "(of_nat n :: u16) AND 0x8000 = 0" and "unat (of_nat n :: u16) = n"
proof -
  show "(from_le (slice 0 2 (synlz_header n @ rest)) :: u16) = of_nat n"
    using assms by (simp add: synlz_header_def slice_def)
  show u: "unat (of_nat n :: u16) = n" using assms by (simp add: unat_of_nat)
  then show "(of_nat n :: u16) \<noteq> 0" using assms(1) by auto
  have "\<not> bit n 15" using assms(2) by (simp add: bit_iff_odd)
  then have "\<not> bit (of_nat n :: u16) 15" by (simp add: bit_of_nat_iff)
  moreover have "(0x8000 :: u16) = push_bit 15 1" by (simp add: push_bit_of_1)
  ultimately show "(of_nat n :: u16) AND 0x8000 = 0"
    by (simp only: push_bit_of_1 and_exp_eq_0_iff_not_bit) simp
qed

lemma synlz_header_large:
  fixes n :: nat and rest :: bytes
  assumes "0x8000 \<le> n" and "n < 2 ^ 31"
  defines "w \<equiv> from_le (slice 0 2 (synlz_header n @ rest)) :: u16"
  shows "w AND 0x8000 \<noteq> 0"
    and "unat (w AND 0x7FFF) + unat (from_le (slice 2 4 (synlz_header n @ rest)) :: u16) * 2 ^ 15 = n"
proof -
  have w: "w = 0x8000 OR (of_nat n AND 0x7FFF)"
    using assms(1) by (simp add: w_def synlz_header_def slice_def)
  have m: "(0x7FFF :: u16) = mask 15" by (simp add: mask_eq_exp_minus_1)
  have t: "(0x8000 :: u16) = push_bit 15 1" by (simp add: push_bit_of_1)
  have "bit w 15" unfolding w t by (simp add: bit_or_iff bit_push_bit_iff)
  then show "w AND 0x8000 \<noteq> 0" unfolding t push_bit_of_1 and_exp_eq_0_iff_not_bit by simp
  have "w AND 0x7FFF = take_bit 15 (of_nat n)"
    unfolding w t m and_mask_is_take_bit by (rule bit_word_eqI) (auto simp: bit_take_bit_iff bit_or_iff bit_push_bit_iff)
  then have lo: "unat (w AND 0x7FFF) = n mod 2 ^ 15"
    by (simp add: unat_take_bit unat_of_nat mod_mod_cancel)
  have "(from_le (slice 2 4 (synlz_header n @ rest)) :: u16) = of_nat (n div 2 ^ 15)"
    using assms(1) by (simp add: synlz_header_def slice_def)
  moreover have "n div 2 ^ 15 < 2 ^ 16" using assms(2) by (simp add: less_mult_imp_div_less)
  ultimately have "unat (from_le (slice 2 4 (synlz_header n @ rest)) :: u16) = n div 2 ^ 15"
    by (simp add: unat_of_nat)
  with lo show "unat (w AND 0x7FFF) + unat (from_le (slice 2 4 (synlz_header n @ rest)) :: u16) * 2 ^ 15 = n"
    by simp
qed


lemma decompress_bounded_compress:
  assumes "length src \<le> max_output" and "length src < 2 ^ 31"
  shows "synlz_decompress_bounded (synlz_compress src) max_output = Some src"
proof (cases "src = []")
  case True
  then show ?thesis by (simp add: synlz_compress_def synlz_header_def synlz_decompress_bounded_def slice_def)
next
  case False
  let ?n = "length src" and ?hdr = "synlz_header (length src)"
  obtain gs r where s: "synlz_compress src = emitted ?hdr gs r"
    and g: "\<forall>g \<in> set gs. length g = 32" "length r < 32" and v: "valid src [] 0 (concat gs @ r)"
    using compressed_stream [OF False] by metis
  let ?body = "concat (map group_bytes gs) @ group_bytes r"
  have e: "synlz_compress src = ?hdr @ ?body" by (simp add: s emitted_def)
  have "ready src [] 0 (- 1) (\<lambda>_. 0) (concat gs @ r)"
    using v by (simp add: ready_def sync_def)
  then have run: "synlz_outer (?hdr @ ?body) ?n (length ?hdr) (replicate ?n 0) 0 (- 1) (\<lambda>_. 0) = (DOk ?n, src)"
    using outer_groups [OF g, of "length ?hdr" "?hdr @ ?body" src "[]" 0] by (simp add: buf_0)
  show ?thesis
  proof (cases "?n < 0x8000")
    case True
    with run show ?thesis
      unfolding e synlz_decompress_bounded_def using synlz_header_small(1) [of ?n ?body] synlz_header_small(2-4) [of ?n] False assms(1)
      by (simp add: Let_def length_synlz_header)
  next
    case large: False
    then have "w \<noteq> 0" if "w = (from_le (slice 0 2 (?hdr @ ?body)) :: u16)" for w
      using synlz_header_large(1) [of ?n ?body] assms(2) that by auto
    with run large show ?thesis
      unfolding e synlz_decompress_bounded_def using synlz_header_large [of ?n ?body] assms
      by (simp add: Let_def length_synlz_header)
  qed
qed

text \<open>C31: Compression loses nothing: for all data of at most \<^const>\<open>MAX_DECOMPRESSED_SIZE\<close> bytes, the
  decoder terminates on the encoder's output and returns exactly the data.  When the size policy keeps
  the compressed form, it is shorter than the data and decompresses to it.\<close>

theorem compression_roundtrip:
  assumes "length data \<le> MAX_DECOMPRESSED_SIZE"
  shows "synlz_decompress (synlz_compress data) = Some data
    \<and> (case mp_compress data of None \<Rightarrow> True
       | Some c \<Rightarrow> mp_decompress c = Some data \<and> length c < length data)"
proof -
  have "synlz_decompress (synlz_compress data) = Some data"
    using decompress_bounded_compress [OF assms] assms by (simp add: synlz_decompress_def MAX_DECOMPRESSED_SIZE_def)
  then show ?thesis
    by (auto simp: mp_compress_def mp_decompress_def Let_def split: option.splits)
qed

theorem compression_roundtrip_witness:
  "length (replicate 90 (7 :: byte)) \<le> MAX_DECOMPRESSED_SIZE
   \<and> synlz_decompress (synlz_compress (replicate 90 7)) = Some (replicate 90 7)"
  using compression_roundtrip [of "replicate 90 7"] by (simp add: MAX_DECOMPRESSED_SIZE_def)

end
