(* ===== verification/Floats.thy ===== *)
theory Floats
  imports Moon_Prelude Complex_Main
begin

text \<open>
  The floating-point values the market data carries.  A value is a rational, an infinity or not a
  number; the two zeros are one value and the payload of a NaN is not kept, since no operation used by the client
  observes either.  \<^verbatim>\<open>f32\<close> values are decoded from their bits, their conversion to \<^verbatim>\<open>f64\<close> is exact, and
  \<^verbatim>\<open>f64\<close> addition and subtraction round to nearest, ties to even.
\<close>

section \<open>Values\<close>

datatype flt = NaN | Inf bool | Fin rat

definition pow2 :: "int \<Rightarrow> rat" where
  "pow2 k = (if 0 \<le> k then 2 ^ nat k else 1 / 2 ^ nat (- k))"

text \<open>The value of an \<^verbatim>\<open>f32\<close> from its bits; also \<^verbatim>\<open>as f64\<close> of it.\<close>

definition f32_value :: "u32 \<Rightarrow> flt" where
  "f32_value w =
     (let negative = bit w 31; e = unat (take_bit 8 (drop_bit 23 w)); m = unat (take_bit 23 w);
          v = (if e = 0 then of_nat m * pow2 (- 149) else of_nat (2 ^ 23 + m) * pow2 (int e - 150))
      in if e = 255 then if m = 0 then Inf negative else NaN
         else Fin (if negative then - v else v))"

section \<open>Rounding\<close>

text \<open>Number of binary digits, and \<open>\<lfloor>log\<^sub>2 x\<rfloor>\<close> for positive \<open>x\<close>.\<close>

function bits :: "int \<Rightarrow> nat" where
  "bits n = (if n \<le> 0 then 0 else Suc (bits (n div 2)))"
  by pat_completeness auto
termination
  by (relation "measure nat") (auto simp: nat_less_iff)

declare bits.simps [simp del]

definition ilog2 :: "rat \<Rightarrow> int" where
  "ilog2 x =
     (if 1 \<le> x then int (bits \<lfloor>x\<rfloor>) - 1
      else let k = 1 - int (bits \<lfloor>1 / x\<rfloor>) in if pow2 k \<le> x then k else k - 1)"

definition round_even :: "rat \<Rightarrow> int" where
  "round_even x = (let f = \<lfloor>x\<rfloor>; r = x - of_int f
     in if r < 1 / 2 then f else if 1 / 2 < r then f + 1 else if even f then f else f + 1)"

definition round64 :: "rat \<Rightarrow> flt" where
  "round64 x =
     (if x = 0 then Fin 0
      else let u = max (ilog2 \<bar>x\<bar> - 52) (- 1074); y = of_int (round_even (x / pow2 u)) * pow2 u
           in if 2 ^ 1024 \<le> \<bar>y\<bar> then Inf (x < 0) else Fin y)"

section \<open>Operations\<close>

fun flt_add :: "flt \<Rightarrow> flt \<Rightarrow> flt" where
  "flt_add (Fin a) (Fin b) = round64 (a + b)"
| "flt_add (Inf s) (Inf t) = (if s = t then Inf s else NaN)"
| "flt_add (Inf s) (Fin _) = Inf s"
| "flt_add (Fin _) (Inf t) = Inf t"
| "flt_add _ _ = NaN"

fun flt_neg :: "flt \<Rightarrow> flt" where
  "flt_neg NaN = NaN"
| "flt_neg (Inf s) = Inf (\<not> s)"
| "flt_neg (Fin a) = Fin (- a)"

definition flt_sub :: "flt \<Rightarrow> flt \<Rightarrow> flt" where
  "flt_sub a b = flt_add a (flt_neg b)"

fun flt_abs :: "flt \<Rightarrow> flt" where
  "flt_abs NaN = NaN"
| "flt_abs (Inf _) = Inf False"
| "flt_abs (Fin a) = Fin \<bar>a\<bar>"

fun flt_lt :: "flt \<Rightarrow> flt \<Rightarrow> bool" where
  "flt_lt (Fin a) (Fin b) \<longleftrightarrow> a < b"
| "flt_lt (Inf s) (Inf t) \<longleftrightarrow> s \<and> \<not> t"
| "flt_lt (Inf s) (Fin _) \<longleftrightarrow> s"
| "flt_lt (Fin _) (Inf t) \<longleftrightarrow> \<not> t"
| "flt_lt _ _ \<longleftrightarrow> False"

definition flt_le :: "flt \<Rightarrow> flt \<Rightarrow> bool" where
  "flt_le a b \<longleftrightarrow> flt_lt a b \<or> a = b \<and> a \<noteq> NaN"

section \<open>Order\<close>

lemma flt_lt_irrefl [simp]: "\<not> flt_lt a a"
  by (cases a) auto

lemma flt_lt_trans: "flt_lt a b \<Longrightarrow> flt_lt b c \<Longrightarrow> flt_lt a c"
  by (cases a; cases b; cases c) auto

lemma flt_lt_asym: "flt_lt a b \<Longrightarrow> \<not> flt_lt b a"
  using flt_lt_trans flt_lt_irrefl by blast

lemma flt_lt_linear: "a \<noteq> NaN \<Longrightarrow> b \<noteq> NaN \<Longrightarrow> flt_lt a b \<or> a = b \<or> flt_lt b a"
  by (cases a; cases b) auto

lemma flt_lt_not_NaN: "flt_lt a b \<Longrightarrow> a \<noteq> NaN \<and> b \<noteq> NaN"
  by auto

lemma flt_le_lt_trans: "flt_le a b \<Longrightarrow> flt_lt b c \<Longrightarrow> flt_lt a c"
  using flt_lt_trans by (auto simp: flt_le_def)

lemma flt_lt_le_trans: "flt_lt a b \<Longrightarrow> flt_le b c \<Longrightarrow> flt_lt a c"
  using flt_lt_trans by (auto simp: flt_le_def)

section \<open>Rounding is to nearest\<close>

text \<open>The finite \<^verbatim>\<open>f64\<close> values.\<close>

definition f64_rep :: "rat \<Rightarrow> bool" where
  "f64_rep z \<longleftrightarrow> (\<exists>k v. z = of_int k * pow2 v \<and> \<bar>k\<bar> \<le> 2 ^ 53 \<and> - 1074 \<le> v) \<and> \<bar>z\<bar> < 2 ^ 1024"

lemma pow2_pos [simp]: "0 < pow2 k"
  by (simp add: pow2_def)

lemma pow2_eq_powr: "pow2 k = power_int 2 k"
  by (simp add: pow2_def power_int_def power_one_over)

lemma pow2_add: "pow2 (a + b) = pow2 a * pow2 b"
  by (simp add: pow2_eq_powr power_int_add)

lemma pow2_mono: "a \<le> b \<Longrightarrow> pow2 a \<le> pow2 b"
  unfolding pow2_eq_powr by (rule power_int_increasing) auto

lemma pow2_nat: "pow2 (int n) = 2 ^ n"
  by (simp add: pow2_def)

lemma bits_bounds: "0 < n \<Longrightarrow> 2 ^ (bits n - 1) \<le> n \<and> n < 2 ^ bits n \<and> 0 < bits n"
proof (induction n rule: bits.induct)
  case (1 n)
  show ?case
  proof (cases "n = 1")
    case True
    then show ?thesis by (simp add: bits.simps [of 1] bits.simps [of 0])
  next
    case False
    then have "0 < n div 2" using 1 by auto
    with 1 have IH: "2 ^ (bits (n div 2) - 1) \<le> n div 2" "n div 2 < 2 ^ bits (n div 2)" "0 < bits (n div 2)" by auto
    obtain k where k: "bits (n div 2) = Suc k" using IH(3) gr0_implies_Suc by blast
    have "bits n = Suc (Suc k)" using 1(2) k by (subst bits.simps) simp
    moreover have "n = 2 * (n div 2) + n mod 2" "0 \<le> n mod 2" "n mod 2 < 2" by simp_all
    ultimately show ?thesis using IH(1,2) unfolding k by (simp, linarith)
  qed
qed

lemma pow2_minus: "pow2 (- int n) = 1 / 2 ^ n"
  by (cases "n = 0") (simp_all add: pow2_def)

lemma ilog2_le:
  assumes "0 < x"
  shows "pow2 (ilog2 x) \<le> x"
proof (cases "1 \<le> x")
  case True
  have b: "2 ^ (bits \<lfloor>x\<rfloor> - 1) \<le> \<lfloor>x\<rfloor>" "0 < bits \<lfloor>x\<rfloor>" using bits_bounds [of "\<lfloor>x\<rfloor>"] True by auto
  have "pow2 (int (bits \<lfloor>x\<rfloor>) - 1) = 2 ^ (bits \<lfloor>x\<rfloor> - 1)"
    using b(2) pow2_nat [of "bits \<lfloor>x\<rfloor> - 1"] by (simp add: of_nat_diff)
  also have "\<dots> \<le> of_int \<lfloor>x\<rfloor>" using b(1) by (metis of_int_le_iff of_int_numeral of_int_power)
  also have "\<dots> \<le> x" by simp
  finally show ?thesis using True by (simp add: ilog2_def)
next
  case False
  define n where "n = bits \<lfloor>1 / x\<rfloor>"
  have "1 \<le> 1 / x" using assms False by (simp add: le_divide_eq)
  then have "\<lfloor>1 / x\<rfloor> < 2 ^ n" unfolding n_def using bits_bounds [of "\<lfloor>1 / x\<rfloor>"] by simp
  then have "1 / x < 2 ^ n" using floor_less_iff [of "1 / x" "2 ^ n"] by simp
  then have "pow2 (- int n) \<le> x" using assms by (simp add: pow2_minus divide_le_eq divide_less_eq mult.commute less_imp_le)
  then show ?thesis using False by (simp add: ilog2_def Let_def n_def)
qed

lemma round_even_nearest: "\<bar>of_int (round_even x) - x\<bar> \<le> \<bar>of_int k - x\<bar>"
proof -
  define f where "f = \<lfloor>x\<rfloor>"
  have f: "of_int f \<le> x" "x < of_int f + 1" unfolding f_def by linarith+
  have "k \<le> f \<or> f + 1 \<le> k" by linarith
  then have k: "of_int k \<le> (of_int f :: rat) \<or> of_int f + 1 \<le> (of_int k :: rat)"
    by (metis of_int_1 of_int_add of_int_le_iff)
  have r: "of_int (round_even x) = (of_int f :: rat) \<and> x - of_int f \<le> 1 / 2
      \<or> of_int (round_even x) = (of_int f :: rat) + 1 \<and> 1 / 2 \<le> x - of_int f"
    by (simp add: round_even_def f_def Let_def)
  from r k f show ?thesis by (elim disjE conjE) (simp_all add: abs_if)
qed

text \<open>The rounded value before the overflow check.\<close>

definition round64_raw :: "rat \<Rightarrow> rat" where
  "round64_raw x = (let u = max (ilog2 \<bar>x\<bar> - 52) (- 1074) in of_int (round_even (x / pow2 u)) * pow2 u)"

lemma round64_raw_multiple:
  assumes "u = max (ilog2 \<bar>x\<bar> - 52) (- 1074)"
  shows "\<bar>round64_raw x - x\<bar> \<le> \<bar>of_int k * pow2 u - x\<bar>"
proof -
  have "\<bar>of_int (round_even (x / pow2 u)) - x / pow2 u\<bar> * pow2 u \<le> \<bar>of_int k - x / pow2 u\<bar> * pow2 u"
    using round_even_nearest [of "x / pow2 u" k] by (intro mult_right_mono) (simp_all add: less_imp_le)
  moreover have "\<bar>a - x / pow2 u\<bar> * pow2 u = \<bar>a * pow2 u - x\<bar>" for a
    using abs_mult [of "a - x / pow2 u" "pow2 u"] pow2_pos [of u] by (simp add: left_diff_distrib)
  ultimately show ?thesis
    by (simp add: round64_raw_def assms [symmetric] Let_def)
qed

lemma round64_nearest:
  assumes x: "x \<noteq> 0" and z: "f64_rep z"
  shows "\<bar>round64_raw x - x\<bar> \<le> \<bar>z - x\<bar>"
proof -
  define e where "e = ilog2 \<bar>x\<bar>"
  define u where "u = max (e - 52) (- 1074)"
  note near = round64_raw_multiple [of u x, unfolded e_def [symmetric], OF u_def]
  obtain k v where k: "z = of_int k * pow2 v" "\<bar>k\<bar> \<le> 2 ^ 53" "- 1074 \<le> v"
    using z by (auto simp: f64_rep_def)
  show ?thesis
  proof (cases "u \<le> v")
    case True
    then have "z = of_int (k * 2 ^ nat (v - u)) * pow2 u"
      using k(1) pow2_add [of "v - u" u] by (simp add: pow2_def [of "v - u"])
    with near [of "k * 2 ^ nat (v - u)"] show ?thesis by simp
  next
    case False
    then have u: "u = e - 52" using k(3) by (simp add: u_def max_def split: if_splits)
    have "\<bar>of_int k :: rat\<bar> \<le> 2 ^ 53"
      using k(2) by (metis of_int_abs of_int_le_iff of_int_numeral of_int_power)
    then have "\<bar>z\<bar> \<le> 2 ^ 53 * pow2 v"
      unfolding k(1) abs_mult abs_of_pos [OF pow2_pos] using less_imp_le [OF pow2_pos] by (intro mult_right_mono)
    also have "\<dots> = pow2 (53 + v)" by (simp add: pow2_add pow2_def [of 53])
    also have "\<dots> \<le> pow2 e" using False u by (intro pow2_mono) simp
    finally have zle: "\<bar>z\<bar> \<le> pow2 e" .
    have ex: "pow2 e \<le> \<bar>x\<bar>" unfolding e_def using x by (intro ilog2_le) simp
    have p: "pow2 e = 2 ^ 52 * pow2 u" unfolding u using pow2_add [of 52 "e - 52"] by (simp add: pow2_def [of 52])
    define c :: int where "c = (if x < 0 then - (2 ^ 52) else 2 ^ 52)"
    have "\<bar>of_int c * pow2 u - x\<bar> \<le> \<bar>z - x\<bar>"
      using zle ex p by (auto simp: c_def abs_if split: if_splits)
    with near [of c] show ?thesis by simp
  qed
qed

lemma round64_eq:
  "round64 x = (if x = 0 then Fin 0 else if 2 ^ 1024 \<le> \<bar>round64_raw x\<bar> then Inf (x < 0) else Fin (round64_raw x))"
  by (simp add: round64_def round64_raw_def Let_def)

lemma round64_near:
  assumes "f64_rep b" and "\<bar>b\<bar> + 2 * \<bar>b - x\<bar> < 2 ^ 1024"
  obtains y where "round64 x = Fin y" and "\<bar>y - x\<bar> \<le> \<bar>b - x\<bar>"
proof (cases "x = 0")
  case True
  then show ?thesis by (intro that [of 0]) (simp_all add: round64_eq)
next
  case False
  have n: "\<bar>round64_raw x - x\<bar> \<le> \<bar>b - x\<bar>" using round64_nearest [OF False assms(1)] .
  have "\<bar>round64_raw x\<bar> \<le> \<bar>round64_raw x - x\<bar> + \<bar>x - b\<bar> + \<bar>b\<bar>" by linarith
  with n assms(2) abs_minus_commute [of x b] have "\<bar>round64_raw x\<bar> < 2 ^ 1024" by linarith
  with n False show ?thesis by (intro that [of "round64_raw x"]) (simp_all add: round64_eq)
qed

section \<open>Comparisons up to a tolerance\<close>

text \<open>Two representable values that are equal or more than twice the tolerance apart: the comparisons
  with the tolerance added or subtracted decide exactly their order, rounding included.\<close>

lemma tolerance_above:
  assumes "f64_rep b" and "0 < d" and "\<bar>b\<bar> + 2 * d < 2 ^ 1024" and "a = b \<or> 2 * d < \<bar>a - b\<bar>"
  shows "flt_lt (flt_add (Fin b) (Fin d)) (Fin a) \<longleftrightarrow> b < a"
proof -
  obtain y where "round64 (b + d) = Fin y" "\<bar>y - (b + d)\<bar> \<le> \<bar>b - (b + d)\<bar>"
    by (rule round64_near [OF assms(1), of "b + d"]) (use assms(2,3) in auto)
  then show ?thesis using assms(2,4) by auto
qed

lemma tolerance_below:
  assumes "f64_rep b" and "0 < d" and "\<bar>b\<bar> + 2 * d < 2 ^ 1024" and "a = b \<or> 2 * d < \<bar>a - b\<bar>"
  shows "flt_lt (Fin a) (flt_sub (Fin b) (Fin d)) \<longleftrightarrow> a < b"
proof -
  obtain y where "round64 (b - d) = Fin y" "\<bar>y - (b - d)\<bar> \<le> \<bar>b - (b - d)\<bar>"
    by (rule round64_near [OF assms(1), of "b - d"]) (use assms(2,3) in auto)
  then show ?thesis using assms(2,4) by (auto simp: flt_sub_def)
qed

lemma f64_rep_neg:
  assumes "f64_rep z"
  shows "f64_rep (- z)"
proof -
  obtain k v where k: "z = of_int k * pow2 v" "\<bar>k\<bar> \<le> 2 ^ 53" "- 1074 \<le> v" and z: "\<bar>z\<bar> < 2 ^ 1024"
    using assms unfolding f64_rep_def by blast
  have "- z = of_int (- k) * pow2 v" using k(1) by simp
  moreover have "\<bar>- k\<bar> \<le> 2 ^ 53" using k(2) by simp
  ultimately have "\<exists>k v. - z = of_int k * pow2 v \<and> \<bar>k\<bar> \<le> 2 ^ 53 \<and> - 1074 \<le> v" using k(3) by blast
  then show ?thesis using z unfolding f64_rep_def by (simp only: abs_minus_cancel simp_thms)
qed

lemma tolerance_equal:
  assumes "0 < d" and "f64_rep (2 * d)" and s: "a = b \<or> 2 * d < \<bar>a - b\<bar>"
  shows "flt_lt (flt_abs (flt_sub (Fin a) (Fin b))) (Fin d) \<longleftrightarrow> a = b"
proof (cases "a = b")
  case True
  then show ?thesis using assms(1) by (simp add: flt_sub_def round64_eq)
next
  case False
  define c where "c = (if a < b then - (2 * d) else 2 * d)"
  have "f64_rep c"
    unfolding c_def using assms(2) f64_rep_neg [OF assms(2)] by simp
  then have "\<bar>round64_raw (a - b) - (a - b)\<bar> \<le> \<bar>c - (a - b)\<bar>"
    using False by (intro round64_nearest) auto
  then have "d < \<bar>round64_raw (a - b)\<bar>"
    using False s assms(1) by (auto simp: c_def abs_if split: if_splits)
  then show ?thesis using False by (simp add: flt_sub_def round64_eq)
qed

text \<open>Values of \<^verbatim>\<open>f32\<close> fields are \<^verbatim>\<open>f64\<close> values.\<close>

lemma f32_value_rep:
  assumes "f32_value w = Fin a"
  shows "f64_rep a" and "\<bar>a\<bar> < 2 ^ 128"
proof -
  define e where "e = unat (take_bit 8 (drop_bit 23 w))"
  define m where "m = unat (take_bit 23 w)"
  have val: "f32_value w = (let v = (if e = 0 then of_nat m * pow2 (- 149) else of_nat (2 ^ 23 + m) * pow2 (int e - 150))
      in if e = 255 then if m = 0 then Inf (bit w 31) else NaN else Fin (if bit w 31 then - v else v))"
    unfolding f32_value_def e_def m_def Let_def ..
  have m: "m < 2 ^ 23" by (simp add: m_def unat_take_bit)
  have "e < 256" by (simp add: e_def unat_take_bit)
  then have e: "e < 255" using assms unfolding val by (auto simp: Let_def split: if_splits)
  define k :: nat where "k = (if e = 0 then m else 2 ^ 23 + m)"
  define v :: int where "v = (if e = 0 then - 149 else int e - 150)"
  have k: "k < 2 ^ 24" using m by (simp add: k_def)
  have v: "- 149 \<le> v" "v \<le> 104" using e by (auto simp: v_def)
  have a: "a = of_int (if bit w 31 then - int k else int k) * pow2 v"
    using assms e unfolding val by (auto simp: Let_def k_def v_def algebra_simps split: if_splits)
  have kr: "(of_nat k :: rat) < 2 ^ 24" using k by (metis of_nat_less_iff of_nat_numeral of_nat_power)
  have "\<bar>a\<bar> = of_nat k * pow2 v" unfolding a abs_mult abs_of_pos [OF pow2_pos] by simp
  also have "\<dots> < 2 ^ 24 * pow2 v" using kr pow2_pos by (rule mult_strict_right_mono)
  also have "\<dots> \<le> 2 ^ 24 * pow2 104" using pow2_mono [OF v(2)] by simp
  also have "\<dots> = 2 ^ 128" by (simp add: pow2_def)
  finally show lt: "\<bar>a\<bar> < 2 ^ 128" .
  have "\<bar>if bit w 31 then - int k else int k\<bar> \<le> 2 ^ 53" using k by simp
  moreover have "- 1074 \<le> v" using v(1) by simp
  ultimately have "\<exists>k v. a = of_int k * pow2 v \<and> \<bar>k\<bar> \<le> 2 ^ 53 \<and> - 1074 \<le> v" using a by blast
  moreover have "\<bar>a\<bar> < 2 ^ 1024" using lt by (rule less_trans) simp
  ultimately show "f64_rep a" unfolding f64_rep_def by blast
qed

end
