(* ===== verification/Order_Books.thy ===== *)
theory Order_Books
  imports Floats Compression
begin

text \<open>
  Order books: the packet parser (\<^verbatim>\<open>commands/order_book.rs\<close>), the tolerance profiles (\<^verbatim>\<open>state/eps.rs\<close>) and the
  synchronisation state (\<^verbatim>\<open>state/order_books.rs\<close> with its modules \<^verbatim>\<open>apply\<close>, \<^verbatim>\<open>cache\<close> and \<^verbatim>\<open>types\<close>): one
  reordering cache and one visible book per market and book kind.

  The build with the diagnostics feature is modelled, in which ignored packets and requests for a
  full book are events too and a snapshot remembers its sequence number.  Locks and shared handles are left out: every
  operation runs under the write lock.  \<^verbatim>\<open>partition_point\<close> is specified for lists it partitions only; the model takes the
  length of the longest matching prefix.
\<close>

section \<open>Packets\<close>

record order_level =
  ol_rate :: u32
  ol_quantity :: u32

record order_book_update =
  ou_market_index :: u16
  ou_seq :: u16
  ou_is_full :: bool
  ou_book_kind :: u8
  ou_buys :: "order_level list"
  ou_sells :: "order_level list"

record order_book_packet_meta =
  om_market_index :: u16
  om_seq :: u16
  om_is_full :: bool
  om_book_kind :: u8
  om_buy_count :: nat
  om_sell_count :: nat

definition ORDER_LEVEL_SIZE :: nat where
  "ORDER_LEVEL_SIZE = 8"

definition compare_seq :: "u16 \<Rightarrow> u16 \<Rightarrow> int" where
  "compare_seq a b = sint (a - b)"

definition parse_order_book_decompressed_meta :: "bytes \<Rightarrow> order_book_packet_meta option" where
  "parse_order_book_decompressed_meta data =
     (if length data < 7 then None
      else let flags = data ! 4;
               buy_count = unat (from_le (slice 5 7 data) :: u16);
               sell_start = 7 + buy_count * ORDER_LEVEL_SIZE
           in if sell_start > length data then None
              else let remaining = length data - sell_start
                   in if remaining mod ORDER_LEVEL_SIZE \<noteq> 0 then None
                      else Some \<lparr>om_market_index = from_le (slice 0 2 data), om_seq = from_le (slice 2 4 data),
                                 om_is_full = (flags AND 1 \<noteq> 0), om_book_kind = drop_bit 1 flags AND 1,
                                 om_buy_count = buy_count, om_sell_count = remaining div ORDER_LEVEL_SIZE\<rparr>)"

definition parse_order_book_packet_meta :: "bytes \<Rightarrow> order_book_packet_meta option" where
  "parse_order_book_packet_meta raw = Option.bind (mp_decompress raw) parse_order_book_decompressed_meta"

definition read_level :: "bytes \<Rightarrow> nat \<Rightarrow> order_level" where
  "read_level data pos =
     \<lparr>ol_rate = from_le (slice pos (pos + 4) data), ol_quantity = from_le (slice (pos + 4) (pos + 8) data)\<rparr>"

text \<open>The level loop, leaving early at the end of the data, with the position after it.\<close>

fun read_levels :: "bytes \<Rightarrow> nat \<Rightarrow> nat \<Rightarrow> order_level list \<times> nat" where
  "read_levels data 0 pos = ([], pos)"
| "read_levels data (Suc n) pos =
     (if pos + ORDER_LEVEL_SIZE > length data then ([], pos)
      else let (ls, pos') = read_levels data n (pos + ORDER_LEVEL_SIZE) in (read_level data pos # ls, pos'))"

definition parse_order_book_packet :: "bytes \<Rightarrow> order_book_update option" where
  "parse_order_book_packet raw =
     (case mp_decompress raw of
        None \<Rightarrow> None
      | Some data \<Rightarrow>
          (case parse_order_book_decompressed_meta data of
             None \<Rightarrow> None
           | Some meta \<Rightarrow>
               (if 5 + 2 > length data then None
                else if om_buy_count meta * ORDER_LEVEL_SIZE > length data - 7 then None
                else let (buys, pos) = read_levels data (om_buy_count meta) 7;
                         (sells, _) = read_levels data ((length data - pos) div ORDER_LEVEL_SIZE) pos
                     in Some \<lparr>ou_market_index = om_market_index meta, ou_seq = om_seq meta,
                              ou_is_full = om_is_full meta, ou_book_kind = om_book_kind meta,
                              ou_buys = buys, ou_sells = sells\<rparr>)))"

section \<open>Tolerance profiles\<close>

record eps_profile =
  ep_eps :: flt
  ep_eps_step :: flt
  ep_eps_m :: flt

definition HUOBI :: eps_profile where
  "HUOBI = \<lparr>ep_eps = round64 (1 / 10 ^ 12), ep_eps_step = round64 (15 / 10 ^ 13), ep_eps_m = round64 (1 / 10 ^ 13)\<rparr>"

definition FUTURES_ALT :: eps_profile where
  "FUTURES_ALT = \<lparr>ep_eps = round64 (1 / 10 ^ 10), ep_eps_step = round64 (15 / 10 ^ 11), ep_eps_m = round64 (5 / 10 ^ 12)\<rparr>"

definition HYPER :: eps_profile where
  "HYPER = \<lparr>ep_eps = round64 (1 / 10 ^ 11), ep_eps_step = round64 (15 / 10 ^ 12), ep_eps_m = round64 (1 / 10 ^ 12)\<rparr>"

definition BINANCE :: eps_profile where
  "BINANCE = \<lparr>ep_eps = round64 (1 / 10 ^ 8), ep_eps_step = round64 (15 / 10 ^ 9), ep_eps_m = round64 (9 / 10 ^ 9)\<rparr>"

text \<open>The exchange codes are the ordinals of \<^verbatim>\<open>ExchangeCode\<close>.\<close>

definition from_exchange_code :: "u8 option \<Rightarrow> eps_profile" where
  "from_exchange_code exchange_code =
     (case exchange_code of
        None \<Rightarrow> HUOBI
      | Some c \<Rightarrow> if c \<in> {3, 4, 6} then BINANCE
                 else if c \<in> {5, 7, 8, 10} then HUOBI
                 else if c \<in> {2, 9, 11} then FUTURES_ALT
                 else if c \<in> {12, 13} then HYPER
                 else HUOBI)"

section \<open>Visible books\<close>

datatype order_book_kind = Futures | Spot

definition kind_as_u8 :: "order_book_kind \<Rightarrow> u8" where
  "kind_as_u8 k = (case k of Futures \<Rightarrow> 0 | Spot \<Rightarrow> 1)"

definition kind_from_u8 :: "u8 \<Rightarrow> order_book_kind option" where
  "kind_from_u8 b = (if b = 0 then Some Futures else if b = 1 then Some Spot else None)"

definition kind_of_wire :: "u8 \<Rightarrow> order_book_kind" where
  "kind_of_wire b = (case kind_from_u8 b of Some k \<Rightarrow> k | None \<Rightarrow> Futures)"

record order_book_level =
  bl_rate :: flt
  bl_quantity :: flt

definition level_from :: "order_level \<Rightarrow> order_book_level" where
  "level_from l = \<lparr>bl_rate = f32_value (ol_rate l), bl_quantity = f32_value (ol_quantity l)\<rparr>"

record top_of_book =
  tb_bid :: "order_book_level option"
  tb_ask :: "order_book_level option"

record order_book_snapshot =
  bs_market_index :: u16
  bs_kind :: order_book_kind
  bs_seq :: u16
  bs_revision :: u64
  bs_buys :: "order_book_level list"
  bs_sells :: "order_book_level list"

definition mark_applied :: "order_book_snapshot \<Rightarrow> u16 \<Rightarrow> order_book_snapshot" where
  "mark_applied b seq = b\<lparr>bs_seq := seq, bs_revision := bs_revision b + 1\<rparr>"

definition first_level :: "order_book_level list \<Rightarrow> order_book_level option" where
  "first_level ls = (case ls of [] \<Rightarrow> None | l # _ \<Rightarrow> Some l)"

definition top :: "order_book_snapshot \<Rightarrow> top_of_book" where
  "top b = \<lparr>tb_bid = first_level (bs_buys b), tb_ask = first_level (bs_sells b)\<rparr>"

type_synonym book_key = "u16 \<times> u8"
type_synonym order_book_map = "(book_key \<times> order_book_snapshot) list"

definition order_book_entry :: "order_book_map \<Rightarrow> book_key \<Rightarrow> order_book_snapshot" where
  "order_book_entry books key =
     (case map_of books key of
        Some b \<Rightarrow> b
      | None \<Rightarrow> \<lparr>bs_market_index = fst key, bs_kind = kind_of_wire (snd key), bs_seq = 0, bs_revision = 0,
                 bs_buys = [], bs_sells = []\<rparr>)"

subsection \<open>Merging a diff\<close>

text \<open>The levels pushed before a diff level: the price is better by more than the tolerance.\<close>

definition ahead :: "eps_profile \<Rightarrow> bool \<Rightarrow> flt \<Rightarrow> order_book_level \<Rightarrow> bool" where
  "ahead eps is_buy_book diff_rate l =
     (if is_buy_book then flt_lt (flt_add diff_rate (ep_eps_m eps)) (bl_rate l)
      else flt_lt (bl_rate l) (flt_sub diff_rate (ep_eps_m eps)))"

definition same_rate :: "eps_profile \<Rightarrow> flt \<Rightarrow> order_book_level \<Rightarrow> bool" where
  "same_rate eps diff_rate l = flt_lt (flt_abs (flt_sub (bl_rate l) diff_rate)) (ep_eps_m eps)"

text \<open>The loop over the diff; \<open>rest\<close> is the part of the old book from index \<open>k\<close> on.\<close>

fun merge_diff :: "eps_profile \<Rightarrow> bool \<Rightarrow> order_level list \<Rightarrow> order_book_level list \<Rightarrow> order_book_level list" where
  "merge_diff eps is_buy_book [] rest = rest"
| "merge_diff eps is_buy_book (d # ds) rest =
     (let diff_rate = f32_value (ol_rate d);
          before = takeWhile (ahead eps is_buy_book diff_rate) rest;
          rest = dropWhile (ahead eps is_buy_book diff_rate) rest;
          new = (if flt_lt (ep_eps eps) (f32_value (ol_quantity d)) then [level_from d] else []);
          rest = (case rest of l # ls \<Rightarrow> if same_rate eps diff_rate l then ls else rest | [] \<Rightarrow> [])
      in before @ new @ merge_diff eps is_buy_book ds rest)"

definition cut_price :: "eps_profile \<Rightarrow> order_level list \<Rightarrow> flt" where
  "cut_price eps shrink =
     (case find (\<lambda>l. flt_lt (ep_eps_m eps) (f32_value (ol_rate l))) shrink of
        Some l \<Rightarrow> f32_value (ol_rate l) | None \<Rightarrow> Fin (- 1))"

definition apply_order_book_diff_keep_zero_with_eps ::
  "order_book_level list \<Rightarrow> order_level list \<Rightarrow> order_level list \<Rightarrow> bool \<Rightarrow> eps_profile \<Rightarrow> order_book_level list" where
  "apply_order_book_diff_keep_zero_with_eps book diff shrink is_buy_book eps =
     (if diff = [] then book
      else let book = merge_diff eps is_buy_book diff book; cut = cut_price eps shrink
           in if flt_lt (Fin 0) cut
              then dropWhile (\<lambda>l. if is_buy_book then flt_le cut (bl_rate l) else flt_le (bl_rate l) cut) book
              else book)"

subsection \<open>Applying packets\<close>

definition full_snapshot :: "order_book_snapshot \<Rightarrow> u16 \<Rightarrow> order_level list \<Rightarrow> order_level list \<Rightarrow> order_book_snapshot" where
  "full_snapshot b seq buys sells = (mark_applied b seq)\<lparr>bs_buys := map level_from buys, bs_sells := map level_from sells\<rparr>"

definition diff_snapshot ::
  "order_book_snapshot \<Rightarrow> u16 \<Rightarrow> order_level list \<Rightarrow> order_level list \<Rightarrow> eps_profile \<Rightarrow> order_book_snapshot" where
  "diff_snapshot b seq buy_diff sell_diff eps =
     mark_applied (b\<lparr>bs_buys := apply_order_book_diff_keep_zero_with_eps (bs_buys b) buy_diff sell_diff True eps,
                     bs_sells := apply_order_book_diff_keep_zero_with_eps (bs_sells b) sell_diff buy_diff False eps\<rparr>) seq"

definition apply_full_book ::
  "order_book_map \<Rightarrow> book_key \<Rightarrow> u16 \<Rightarrow> order_level list \<Rightarrow> order_level list \<Rightarrow> top_of_book \<times> order_book_map" where
  "apply_full_book books key seq buys sells =
     (let book = full_snapshot (order_book_entry books key) seq buys sells in (top book, map_insert key book books))"

definition apply_diff_book ::
  "order_book_map \<Rightarrow> book_key \<Rightarrow> u16 \<Rightarrow> order_level list \<Rightarrow> order_level list \<Rightarrow> eps_profile \<Rightarrow> top_of_book \<times> order_book_map" where
  "apply_diff_book books key seq buy_diff sell_diff eps =
     (let book = diff_snapshot (order_book_entry books key) seq buy_diff sell_diff eps
      in (top book, map_insert key book books))"

definition apply_cached_packet ::
  "order_book_map \<Rightarrow> book_key \<Rightarrow> order_book_update \<Rightarrow> eps_profile \<Rightarrow> top_of_book \<times> order_book_map" where
  "apply_cached_packet books key pkt eps =
     (if ou_is_full pkt then apply_full_book books key (ou_seq pkt) (ou_buys pkt) (ou_sells pkt)
      else apply_diff_book books key (ou_seq pkt) (ou_buys pkt) (ou_sells pkt) eps)"

section \<open>Reordering caches\<close>

definition BOOK_EXPIRED_TIMEOUT :: int where "BOOK_EXPIRED_TIMEOUT = 800"
definition BOOK_FULL_REQUEST_THROTTLE :: int where "BOOK_FULL_REQUEST_THROTTLE = 5000"
definition BOOK_CACHE_MAX_PACKETS :: nat where "BOOK_CACHE_MAX_PACKETS = 64"

record cached_packet =
  cp_seq :: u16
  cp_pkt :: order_book_update

record order_book_cache =
  oc_expected_seq :: u16
  oc_last_applied_seq :: u16
  oc_packets :: "cached_packet list"
  oc_corrupted :: bool
  oc_last_full_request_ms :: millis
  oc_cache_not_empty_since_ms :: millis

definition cache_default :: order_book_cache where
  "cache_default = \<lparr>oc_expected_seq = 0, oc_last_applied_seq = 0, oc_packets = [], oc_corrupted = False,
     oc_last_full_request_ms = 0, oc_cache_not_empty_since_ms = 0\<rparr>"

definition binary_search_insert :: "order_book_cache \<Rightarrow> u16 \<Rightarrow> nat" where
  "binary_search_insert c seq = length (takeWhile (\<lambda>p. compare_seq (cp_seq p) seq < 0) (oc_packets c))"

definition cache_add :: "order_book_cache \<Rightarrow> u16 \<Rightarrow> order_book_update \<Rightarrow> millis \<Rightarrow> order_book_cache" where
  "cache_add c seq pkt now_ms =
     (let c = (if oc_packets c = [] then c\<lparr>oc_cache_not_empty_since_ms := now_ms\<rparr> else c);
          pos = binary_search_insert c seq
      in c\<lparr>oc_packets := take pos (oc_packets c) @ \<lparr>cp_seq = seq, cp_pkt = pkt\<rparr> # drop pos (oc_packets c)\<rparr>)"

definition check_cache_empty :: "order_book_cache \<Rightarrow> order_book_cache" where
  "check_cache_empty c = (if oc_packets c = [] then c\<lparr>oc_cache_not_empty_since_ms := 0\<rparr> else c)"

definition drop_oldest :: "order_book_cache \<Rightarrow> order_book_cache" where
  "drop_oldest c = check_cache_empty (c\<lparr>oc_packets := tl (oc_packets c)\<rparr>)"

definition is_expired :: "order_book_cache \<Rightarrow> millis \<Rightarrow> bool" where
  "is_expired c now_ms \<longleftrightarrow> 0 < oc_cache_not_empty_since_ms c
     \<and> \<bar>now_ms - oc_cache_not_empty_since_ms c\<bar> > BOOK_EXPIRED_TIMEOUT"

definition try_request_full :: "order_book_cache \<Rightarrow> millis \<Rightarrow> bool \<times> order_book_cache" where
  "try_request_full c now_ms =
     (if \<not> oc_corrupted c then (False, c)
      else if \<bar>now_ms - oc_last_full_request_ms c\<bar> \<le> BOOK_FULL_REQUEST_THROTTLE then (False, c)
      else (True, c\<lparr>oc_last_full_request_ms := now_ms\<rparr>))"

definition retain_from :: "u16 \<Rightarrow> cached_packet list \<Rightarrow> cached_packet list" where
  "retain_from expected ps = filter (\<lambda>p. 0 \<le> compare_seq (cp_seq p) expected) ps"

section \<open>Processing packets\<close>

datatype apply_result = Cached | Stale

datatype order_book_event =
  Ev_Apply u16 order_book_kind bool u16 top_of_book
| Ev_RequestFullNeeded u16 order_book_kind
| Ev_Ignored u16 order_book_kind u16 apply_result

datatype order_book_control = RequestFullNeeded u16 order_book_kind

record order_books =
  obs_caches :: "(book_key \<times> order_book_cache) list"
  obs_books :: order_book_map
  obs_eps_profile :: eps_profile

definition order_books_default :: order_books where
  "order_books_default = \<lparr>obs_caches = [], obs_books = [], obs_eps_profile = HUOBI\<rparr>"

definition cache_entry :: "order_books \<Rightarrow> book_key \<Rightarrow> order_book_cache" where
  "cache_entry s key = (case map_of (obs_caches s) key of Some c \<Rightarrow> c | None \<Rightarrow> cache_default)"

text \<open>The drain loop over the packets of a cache; stops at the first packet that is not the expected one.\<close>

fun drain_loop ::
  "eps_profile \<Rightarrow> book_key \<Rightarrow> order_book_cache \<Rightarrow> order_book_map \<Rightarrow> cached_packet list \<Rightarrow>
    order_book_cache \<times> order_book_map \<times> order_book_event list" where
  "drain_loop eps key c books [] = (c\<lparr>oc_packets := []\<rparr>, books, [])"
| "drain_loop eps key c books (p # ps) =
     (if cp_seq p \<noteq> oc_expected_seq c then (c\<lparr>oc_packets := p # ps\<rparr>, books, [])
      else let (t, books) = apply_cached_packet books key (cp_pkt p) eps;
               ev = Ev_Apply (ou_market_index (cp_pkt p)) (kind_of_wire (ou_book_kind (cp_pkt p)))
                      (ou_is_full (cp_pkt p)) (cp_seq p) t;
               (c, books, evs) = drain_loop eps key (c\<lparr>oc_expected_seq := cp_seq p + 1, oc_last_applied_seq := cp_seq p\<rparr>) books ps
           in (c, books, ev # evs))"

definition drain_cache ::
  "eps_profile \<Rightarrow> book_key \<Rightarrow> order_book_cache \<Rightarrow> order_book_map \<Rightarrow>
    order_book_cache \<times> order_book_map \<times> order_book_event list" where
  "drain_cache eps key c books =
     (let (c, books, evs) = drain_loop eps key c books (retain_from (oc_expected_seq c) (oc_packets c))
      in (check_cache_empty c, books, evs))"

definition push_request ::
  "order_book_cache \<Rightarrow> millis \<Rightarrow> u16 \<Rightarrow> order_book_kind \<Rightarrow> order_book_cache \<times> order_book_event list \<times> order_book_control list" where
  "push_request c now_ms market kind =
     (case try_request_full c now_ms of
        (True, c) \<Rightarrow> (c, [Ev_RequestFullNeeded market kind], [RequestFullNeeded market kind])
      | (False, c) \<Rightarrow> (c, [], []))"

text \<open>\<^verbatim>\<open>on_packet_into\<close> on the cache and the books of one key.\<close>

definition on_packet_key ::
  "eps_profile \<Rightarrow> book_key \<Rightarrow> order_book_update \<Rightarrow> millis \<Rightarrow> order_book_cache \<Rightarrow> order_book_map \<Rightarrow>
    order_book_cache \<times> order_book_map \<times> order_book_event list \<times> order_book_control list" where
  "on_packet_key eps key pkt now_ms c books =
     (let market = ou_market_index pkt; seq = ou_seq pkt; kind = kind_of_wire (ou_book_kind pkt)
      in if ou_is_full pkt
         then let (t, books) = apply_full_book books key seq (ou_buys pkt) (ou_sells pkt);
                  c = c\<lparr>oc_corrupted := False, oc_last_applied_seq := seq, oc_expected_seq := seq + 1\<rparr>;
                  c = check_cache_empty (c\<lparr>oc_packets := retain_from (seq + 1) (oc_packets c)\<rparr>);
                  (c, books, evs) = drain_cache eps key c books
              in (c, books, Ev_Apply market kind True seq t # evs, [])
         else if oc_corrupted c
         then let (t, books) = apply_diff_book books key seq (ou_buys pkt) (ou_sells pkt) eps;
                  c = c\<lparr>oc_last_applied_seq := seq\<rparr>;
                  c = (if BOOK_CACHE_MAX_PACKETS \<le> length (oc_packets c) then drop_oldest c else c);
                  (c, evs, ctl) = push_request (cache_add c seq pkt now_ms) now_ms (fst key) kind
              in (c, books, Ev_Apply market kind False seq t # evs, ctl)
         else let cmp = compare_seq seq (oc_expected_seq c)
              in if cmp = 0 \<or> oc_last_applied_seq c = 0
                 then let (t, books) = apply_diff_book books key seq (ou_buys pkt) (ou_sells pkt) eps;
                          c = c\<lparr>oc_expected_seq := seq + 1, oc_last_applied_seq := seq\<rparr>;
                          (c, books, evs) = drain_cache eps key c books
                      in (c, books, Ev_Apply market kind False seq t # evs, [])
                 else if cmp < 0 then (c, books, [Ev_Ignored market kind seq Stale], [])
                 else let c = cache_add c seq pkt now_ms;
                          c = (if is_expired c now_ms \<or> BOOK_CACHE_MAX_PACKETS < length (oc_packets c)
                               then c\<lparr>oc_corrupted := True\<rparr> else c);
                          (c, evs, ctl) = push_request c now_ms (fst key) kind
                      in (c, books, evs @ [Ev_Ignored market kind seq Cached], ctl))"

definition on_packet_into ::
  "order_books \<Rightarrow> order_book_update \<Rightarrow> millis \<Rightarrow> order_books \<times> order_book_event list \<times> order_book_control list" where
  "on_packet_into s pkt now_ms =
     (let key = (ou_market_index pkt, ou_book_kind pkt);
          (c, books, evs, ctl) = on_packet_key (obs_eps_profile s) key pkt now_ms (cache_entry s key) (obs_books s)
      in (s\<lparr>obs_caches := map_insert key c (obs_caches s), obs_books := books\<rparr>, evs, ctl))"

definition reset_caches_keep_books :: "order_books \<Rightarrow> order_books" where
  "reset_caches_keep_books s = s\<lparr>obs_caches := []\<rparr>"

definition order_books_set_eps_profile :: "order_books \<Rightarrow> eps_profile \<Rightarrow> order_books" where
  "order_books_set_eps_profile s eps = s\<lparr>obs_eps_profile := eps\<rparr>"

definition order_books_len :: "order_books \<Rightarrow> nat" where
  "order_books_len s = length (obs_caches s)"

definition order_books_is_empty :: "order_books \<Rightarrow> bool" where
  "order_books_is_empty s \<longleftrightarrow> obs_caches s = []"

definition book_by_kind :: "order_books \<Rightarrow> u16 \<Rightarrow> u8 \<Rightarrow> order_book_snapshot option" where
  "book_by_kind s market_index book_kind = map_of (obs_books s) (market_index, book_kind)"

definition book_of :: "order_books \<Rightarrow> u16 \<Rightarrow> order_book_kind \<Rightarrow> order_book_snapshot option" where
  "book_of s market_index kind = book_by_kind s market_index (kind_as_u8 kind)"

end
