(* ===== verification/Book_Sync.thy ===== *)
theory Book_Sync
  imports Order_Books
begin

text \<open>
  Correctness of the order books.  A book side is abstracted to the map from rates to quantities; merging
  a diff overrides that map, although the code merges two lists with tolerance comparisons on
  rounded floating-point values.  The reordering cache applies the diffs that follow a full
  book in the order of their sequence numbers, in whatever order they arrive.
\<close>

section \<open>Book sides as maps\<close>


definition side_map :: "order_book_level list \<Rightarrow> flt \<rightharpoonup> flt" where
  "side_map ls = map_of (map (\<lambda>l. (bl_rate l, bl_quantity l)) ls)"













section \<open>Merging\<close>



lemma side_map_None: "r \<notin> bl_rate ` set ls \<Longrightarrow> side_map ls r = None"
  unfolding side_map_def by (auto simp: map_of_eq_None_iff image_image)

lemma side_map_rate: "side_map ls r = Some q \<Longrightarrow> r \<in> bl_rate ` set ls"
  using side_map_None by (metis option.distinct(1))




declare dropWhile_eq_Nil_conv [simp del]












subsection \<open>A concrete book\<close>









section \<open>Reordered diffs\<close>

















lemma entry_insert [simp]: "order_book_entry (map_insert key b books) key = b"
  by (simp add: order_book_entry_def map_of_insert)







lemma check_cache_empty_sel [simp]:
  "oc_packets (check_cache_empty c) = oc_packets c" "oc_expected_seq (check_cache_empty c) = oc_expected_seq c"
  "oc_last_applied_seq (check_cache_empty c) = oc_last_applied_seq c" "oc_corrupted (check_cache_empty c) = oc_corrupted c"
  by (simp_all add: check_cache_empty_def)




section \<open>Whole runs\<close>

fun run_packets :: "order_books \<Rightarrow> (order_book_update \<times> millis) list \<Rightarrow> order_books \<times> order_book_control list" where
  "run_packets st [] = (st, [])"
| "run_packets st ((pkt, t) # ps) =
     (case on_packet_into st pkt t of (st, _, ctl) \<Rightarrow> case run_packets st ps of (st, ctl') \<Rightarrow> (st, ctl @ ctl'))"







definition demo_packet :: "u16 \<Rightarrow> bool \<Rightarrow> order_level list \<Rightarrow> order_book_update" where
  "demo_packet seq full buys = \<lparr>ou_market_index = 3, ou_seq = seq, ou_is_full = full, ou_book_kind = 0,
     ou_buys = buys, ou_sells = []\<rparr>"



text \<open>A diff that arrives twice while it waits blocks the cache: when the missing diff 8 arrives, 9 is applied,
  its second copy stops the drain, and 10, although received, is not applied.  The packet the cache waits for
  has already arrived, so only another copy of it, or the expiry of the cache and a new full book, resolves this.\<close>

lemma duplicate_blocks_cache:
  "case run_packets order_books_default [(demo_packet 7 True [], 1000), (demo_packet 9 False [], 1010),
      (demo_packet 9 False [], 1011), (demo_packet 10 False [], 1020), (demo_packet 8 False [], 1030)] of (st', ctl) \<Rightarrow>
     oc_expected_seq (cache_entry st' (3, 0)) = 10 \<and> map cp_seq (oc_packets (cache_entry st' (3, 0))) = [9, 10] \<and> ctl = []"
  by (simp add: order_books_default_def demo_packet_def on_packet_into_def on_packet_key_def Let_def cache_entry_def cache_default_def
      map_of_insert apply_full_book_def apply_diff_book_def retain_from_def check_cache_empty_def drain_cache_def
      cache_add_def binary_search_insert_def push_request_def try_request_full_def is_expired_def BOOK_EXPIRED_TIMEOUT_def
      BOOK_CACHE_MAX_PACKETS_def compare_seq_def apply_cached_packet_def)

text \<open>The number 0 also marks a book without history.  When a book with the number 0 has been applied, as happens at every
  wrap of the number, the next diff is applied whatever its number is: here 5 is applied at once, and 1, the first of the
  diffs in between, is then dropped as stale.\<close>

lemma wrapped_zero_skips_gap:
  "case run_packets order_books_default [(demo_packet 0 True [], 1000), (demo_packet 5 False [], 1010), (demo_packet 1 False [], 1020)] of (st', ctl) \<Rightarrow>
     oc_expected_seq (cache_entry st' (3, 0)) = 6 \<and> oc_packets (cache_entry st' (3, 0)) = []
     \<and> map_option bs_revision (book_by_kind st' 3 0) = Some 2 \<and> ctl = []"
  by (simp add: order_books_default_def demo_packet_def on_packet_into_def on_packet_key_def Let_def cache_entry_def cache_default_def
      map_of_insert apply_full_book_def apply_diff_book_def retain_from_def check_cache_empty_def drain_cache_def
      compare_seq_def book_by_kind_def order_book_entry_def full_snapshot_def diff_snapshot_def mark_applied_def)

section \<open>Parsing\<close>

lemma read_levels_complete:
  "pos + n * ORDER_LEVEL_SIZE \<le> length data \<Longrightarrow>
     length (fst (read_levels data n pos)) = n \<and> snd (read_levels data n pos) = pos + n * ORDER_LEVEL_SIZE"
  by (induction n arbitrary: pos) (auto simp: Let_def case_prod_beta ORDER_LEVEL_SIZE_def)

definition meta_of :: "order_book_update \<Rightarrow> order_book_packet_meta" where
  "meta_of u = \<lparr>om_market_index = ou_market_index u, om_seq = ou_seq u, om_is_full = ou_is_full u,
     om_book_kind = ou_book_kind u, om_buy_count = length (ou_buys u), om_sell_count = length (ou_sells u)\<rparr>"

text \<open>C34: The parser that reads only the metadata of an order-book packet agrees with the full parser on every
  payload: it accepts the same payloads, and its fields and level counts are those of the parsed packet, so no level is dropped or added.\<close>

theorem order_book_meta_agrees:
  "parse_order_book_packet_meta raw = map_option meta_of (parse_order_book_packet raw)"
proof (cases "mp_decompress raw")
  case None
  then show ?thesis by (simp add: parse_order_book_packet_meta_def parse_order_book_packet_def)
next
  case (Some data)
  show ?thesis
  proof (cases "parse_order_book_decompressed_meta data")
    case None
    with Some show ?thesis by (simp add: parse_order_book_packet_meta_def parse_order_book_packet_def)
  next
    case meta: (Some m)
    let ?n = "om_buy_count m"
    have m: "7 \<le> length data" "7 + ?n * ORDER_LEVEL_SIZE \<le> length data"
      "om_sell_count m = (length data - (7 + ?n * ORDER_LEVEL_SIZE)) div ORDER_LEVEL_SIZE"
      using meta by (auto simp: parse_order_book_decompressed_meta_def Let_def split: if_splits)
    have b: "length (fst (read_levels data ?n 7)) = ?n" "snd (read_levels data ?n 7) = 7 + ?n * ORDER_LEVEL_SIZE"
      using read_levels_complete [OF m(2)] by auto
    let ?pos = "7 + ?n * ORDER_LEVEL_SIZE"
    have "?pos + (length data - ?pos) div ORDER_LEVEL_SIZE * ORDER_LEVEL_SIZE \<le> length data"
      using m(2) by (simp add: ORDER_LEVEL_SIZE_def)
    from read_levels_complete [OF this] have "length (fst (read_levels data ((length data - ?pos) div ORDER_LEVEL_SIZE) ?pos)) = om_sell_count m"
      using m(3) by simp
    with Some meta m b show ?thesis
      by (simp add: parse_order_book_packet_meta_def parse_order_book_packet_def meta_of_def Let_def case_prod_beta)
  qed
qed

end
