(* ===== verification/Engine_Request.thy ===== *)
theory Engine_Request
  imports Decode Strings Registry
begin

text \<open>
  Engine API requests (\<^verbatim>\<open>commands/engine_request.rs\<close>): the general builder, the parameter writers and the
  builders of the individual requests.  The random request identifier is an argument.

  \<open>decode_request\<close> is a reference reader of the wire format the module documents; requests are shown to be read
  back by it field by field, and the requests for missing trade packets to name exactly the missing numbers.
\<close>

section \<open>Parameter writers\<close>

definition ENGINE_REQUEST_CMD_ID :: u8 where
  "ENGINE_REQUEST_CMD_ID = 2"

definition write_double :: "bytes \<Rightarrow> u64 \<Rightarrow> bytes" where
  "write_double buf v = buf @ le_bytes 8 v"

definition write_int :: "bytes \<Rightarrow> u32 \<Rightarrow> bytes" where
  "write_int buf v = buf @ le_bytes 4 v"

definition write_word :: "bytes \<Rightarrow> u16 \<Rightarrow> bytes" where
  "write_word buf v = buf @ le_bytes 2 v"

definition write_byte :: "bytes \<Rightarrow> u8 \<Rightarrow> bytes" where
  "write_byte buf v = buf @ [v]"

definition write_int64 :: "bytes \<Rightarrow> u64 \<Rightarrow> bytes" where
  "write_int64 buf v = buf @ le_bytes 8 v"

definition write_bool :: "bytes \<Rightarrow> bool \<Rightarrow> bytes" where
  "write_bool buf v = buf @ [of_bool v]"

definition write_str :: "bytes \<Rightarrow> bytes \<Rightarrow> bytes" where
  "write_str buf s = write_string buf s"

section \<open>Requests\<close>

definition build_engine_request_full :: "engine_method \<Rightarrow> bytes \<Rightarrow> bytes list \<Rightarrow> bytes \<Rightarrow> u64 \<Rightarrow> bytes" where
  "build_engine_request_full meth market_name market_names params uid =
     (let buf = [ENGINE_REQUEST_CMD_ID] @ le_bytes 2 CURRENT_PROTO_CMD_VER @ le_bytes 8 uid;
          buf = buf @ [method_to_byte meth];
          buf = write_string buf market_name;
          buf = buf @ le_bytes 4 (of_nat (length market_names) :: u32);
          buf = foldl write_string buf market_names;
          buf = buf @ le_bytes 4 (of_nat (length params) :: u32)
      in buf @ params)"

definition build_engine_request :: "engine_method \<Rightarrow> bytes \<Rightarrow> bytes list \<Rightarrow> u64 \<Rightarrow> bytes" where
  "build_engine_request meth market_name market_names uid = build_engine_request_full meth market_name market_names [] uid"

definition subscribe_all_trades :: "bool \<Rightarrow> u8 \<Rightarrow> u64 \<Rightarrow> bytes" where
  "subscribe_all_trades want_mm_orders allow_trade_aggregation uid =
     build_engine_request_full (EngineMethod 18) [] [] [of_bool want_mm_orders, allow_trade_aggregation, 0, 0, 0] uid"

definition unsubscribe_all_trades :: "u64 \<Rightarrow> bytes" where
  "unsubscribe_all_trades uid = build_engine_request (EngineMethod 19) [] [] uid"

definition subscribe_order_book :: "bytes list \<Rightarrow> u64 \<Rightarrow> bytes" where
  "subscribe_order_book markets uid = build_engine_request (EngineMethod 20) [] markets uid"

definition unsubscribe_order_book :: "bytes list \<Rightarrow> u64 \<Rightarrow> bytes" where
  "unsubscribe_order_book markets uid = build_engine_request (EngineMethod 21) [] markets uid"

definition base_check :: "bool option \<Rightarrow> u64 \<Rightarrow> bytes" where
  "base_check logs uid =
     (let params = replicate 5 0;
          params = (case logs of Some subscribe \<Rightarrow> params[0 := 1, 4 := of_bool subscribe] | None \<Rightarrow> params);
          len = (if logs = None then 4 else 5)
      in build_engine_request_full (EngineMethod 1) [] [] (take len params) uid)"

definition auth_check :: "u64 \<Rightarrow> bytes" where
  "auth_check uid = build_engine_request (EngineMethod 2) [] [] uid"

definition get_startup_state :: "u64 \<Rightarrow> bytes" where
  "get_startup_state uid = build_engine_request (EngineMethod 36) [] [] uid"

definition get_strategies_snapshot :: "u64 \<Rightarrow> bytes" where
  "get_strategies_snapshot uid = build_engine_request (EngineMethod 37) [] [] uid"

definition get_markets_list :: "u64 \<Rightarrow> bytes" where
  "get_markets_list uid = build_engine_request (EngineMethod 3) [] [] uid"

definition get_markets_stats :: "u64 \<Rightarrow> bytes" where
  "get_markets_stats uid = build_engine_request (EngineMethod 35) [] [] uid"

definition get_markets_indexes :: "u64 \<Rightarrow> bytes" where
  "get_markets_indexes uid = build_engine_request (EngineMethod 5) [] [] uid"

definition update_markets_list :: "u64 \<Rightarrow> bytes" where
  "update_markets_list uid = build_engine_request (EngineMethod 4) [] [] uid"

definition cancel_all_orders :: "u64 \<Rightarrow> bytes" where
  "cancel_all_orders uid = build_engine_request (EngineMethod 11) [] [] uid"

definition check_api_expiration_time :: "u64 \<Rightarrow> bytes" where
  "check_api_expiration_time uid = build_engine_request (EngineMethod 15) [] [] uid"

definition check_binance_tags :: "u64 \<Rightarrow> bytes" where
  "check_binance_tags uid = build_engine_request (EngineMethod 16) [] [] uid"

definition reload_order_book :: "u64 \<Rightarrow> bytes" where
  "reload_order_book uid = build_engine_request (EngineMethod 23) [] [] uid"

definition convert_dust_bnb :: "u64 \<Rightarrow> bytes" where
  "convert_dust_bnb uid = build_engine_request (EngineMethod 26) [] [] uid"

definition set_leverage :: "bytes \<Rightarrow> u32 \<Rightarrow> u64 \<Rightarrow> bytes" where
  "set_leverage market_name new_lev uid = build_engine_request_full (EngineMethod 12) market_name [] (write_int [] new_lev) uid"

definition set_hedge_mode :: "bool \<Rightarrow> u64 \<Rightarrow> bytes" where
  "set_hedge_mode hedge_mode uid = build_engine_request_full (EngineMethod 13) [] [] (write_bool [] hedge_mode) uid"

definition query_hedge_mode :: "u64 \<Rightarrow> bytes" where
  "query_hedge_mode uid = build_engine_request (EngineMethod 14) [] [] uid"

definition change_position_type :: "bytes \<Rightarrow> u8 \<Rightarrow> bool \<Rightarrow> u64 \<Rightarrow> bytes" where
  "change_position_type market_name new_type new_market uid =
     build_engine_request_full (EngineMethod 25) market_name [] (write_bool (write_byte [] new_type) new_market) uid"

definition request_order_book_full :: "u16 \<Rightarrow> u8 \<Rightarrow> u64 \<Rightarrow> bytes" where
  "request_order_book_full market_idx book_kind uid =
     build_engine_request_full (EngineMethod 22) [] [] (write_byte (write_word [] market_idx) book_kind) uid"

text \<open>The loop of \<^verbatim>\<open>trades_resend_batches\<close> on the numbers from index \<open>i\<close> on; \<open>rnd k\<close> is the identifier drawn for batch \<open>k\<close>.\<close>

function resend_loop :: "(nat \<Rightarrow> u64) \<Rightarrow> nat \<Rightarrow> u16 list \<Rightarrow> bytes list" where
  "resend_loop rnd k nums =
     (if nums = [] then []
      else let cnt = min (length nums) 200;
               params = foldl write_word (write_byte [] (of_nat cnt)) (take cnt nums)
           in build_engine_request_full (EngineMethod 17) [] [] params (rnd k) # resend_loop rnd (k + 1) (drop cnt nums))"
  by pat_completeness auto
termination
  by (relation "measure (\<lambda>(rnd, k, nums). length nums)") auto

declare resend_loop.simps [simp del]

definition trades_resend_batches :: "(nat \<Rightarrow> u64) \<Rightarrow> u16 list \<Rightarrow> bytes list" where
  "trades_resend_batches rnd packet_nums = resend_loop rnd 0 packet_nums"

definition confirm_risk_limit :: "bytes \<Rightarrow> u64 \<Rightarrow> bytes" where
  "confirm_risk_limit market_name uid = build_engine_request (EngineMethod 27) market_name [] uid"

definition set_ma_mode :: "bool \<Rightarrow> u64 \<Rightarrow> bytes" where
  "set_ma_mode ma_mode uid = build_engine_request_full (EngineMethod 28) [] [] (write_bool [] ma_mode) uid"

definition do_transfer_asset :: "bytes \<Rightarrow> u64 \<Rightarrow> u8 \<Rightarrow> u8 \<Rightarrow> u64 \<Rightarrow> bytes" where
  "do_transfer_asset asset q e_from e_to uid =
     build_engine_request_full (EngineMethod 29) [] []
       (write_byte (write_byte (write_double (write_str [] asset) q) e_from) e_to) uid"

definition update_transfer_assets :: "u8 \<Rightarrow> u64 \<Rightarrow> bytes" where
  "update_transfer_assets e_kind uid = build_engine_request_full (EngineMethod 30) [] [] (write_byte [] e_kind) uid"

definition request_candles_data :: "u64 \<Rightarrow> bytes" where
  "request_candles_data uid = build_engine_request (EngineMethod 24) [] [] uid"

definition request_market_history :: "bytes \<Rightarrow> u64 \<Rightarrow> bytes" where
  "request_market_history market_name uid = build_engine_request (EngineMethod 34) market_name [] uid"

section \<open>Reference reader\<close>

record engine_request =
  rq_ver :: u16
  rq_uid :: u64
  rq_method :: engine_method
  rq_market_name :: bytes
  rq_market_names :: "bytes list"
  rq_params :: bytes

primrec read_strings :: "bytes \<Rightarrow> nat \<Rightarrow> nat \<Rightarrow> (bytes list \<times> nat) option" where
  "read_strings d 0 pos = Some ([], pos)"
| "read_strings d (Suc n) pos =
     (case read_string d pos of
        None \<Rightarrow> None
      | Some (s, pos) \<Rightarrow> map_option (\<lambda>(ss, pos). (s # ss, pos)) (read_strings d n pos))"

text \<open>The documented format gives the number of names and the parameter size as signed 32-bit integers; a
  reader takes no negative one.\<close>

definition read_i32_len :: "bytes \<Rightarrow> nat \<Rightarrow> nat option" where
  "read_i32_len d pos =
     (if pos + 4 > length d then None
      else let n = sint (from_le (slice pos (pos + 4) d) :: u32) in if n < 0 then None else Some (nat n))"

definition decode_request :: "bytes \<Rightarrow> engine_request option" where
  "decode_request d =
     (if length d < 12 \<or> d ! 0 \<noteq> ENGINE_REQUEST_CMD_ID then None
      else case read_string d 12 of
             None \<Rightarrow> None
           | Some (name, pos) \<Rightarrow>
               (case Option.bind (read_i32_len d pos) (\<lambda>n. read_strings d n (pos + 4)) of
                  None \<Rightarrow> None
                | Some (names, pos) \<Rightarrow>
                    (if read_i32_len d pos \<noteq> Some (length d - (pos + 4)) then None
                     else Some \<lparr>rq_ver = from_le (slice 1 3 d), rq_uid = from_le (slice 3 11 d),
                                rq_method = EngineMethod (d ! 11), rq_market_name = name,
                                rq_market_names = names, rq_params = drop (pos + 4) d\<rparr>)))"

fun words_of :: "bytes \<Rightarrow> u16 list option" where
  "words_of [] = Some []"
| "words_of [_] = None"
| "words_of (a # b # bs) = map_option (Cons (from_le [a, b])) (words_of bs)"

text \<open>The numbers a resend request asks for.\<close>

definition resend_numbers :: "bytes \<Rightarrow> u16 list option" where
  "resend_numbers d =
     (case decode_request d of
        None \<Rightarrow> None
      | Some r \<Rightarrow> (case rq_params r of
          [] \<Rightarrow> None
        | c # ws \<Rightarrow> if rq_method r = EngineMethod 17 \<and> length ws = 2 * unat c then words_of ws else None))"

section \<open>Round trip\<close>

definition wire_str :: "bytes \<Rightarrow> bool" where
  "wire_str s \<longleftrightarrow> valid_utf8 s \<and> length s < 65536"

lemma write_string_append: "write_string buf s = buf @ write_string [] s"
  by (simp add: write_string_def Let_def)

lemma read_written:
  "wire_str s \<Longrightarrow> read_string (buf @ write_string [] s @ rest) (length buf) = Some (s, length (buf @ write_string [] s))"
  by (simp add: wire_str_def read_string_def write_string_def Let_def slice_def unat_of_nat decode_utf8_delphi_def)

lemma foldl_write_string: "foldl write_string buf ss = buf @ concat (map (write_string []) ss)"
proof (induction ss arbitrary: buf)
  case (Cons s ss)
  then show ?case using write_string_append [of buf s] by simp
qed simp

lemma read_written_strings:
  "\<forall>s \<in> set ss. wire_str s \<Longrightarrow>
     read_strings (buf @ concat (map (write_string []) ss) @ rest) (length ss) (length buf)
       = Some (ss, length (buf @ concat (map (write_string []) ss)))"
proof (induction ss arbitrary: buf)
  case (Cons s ss)
  have "read_string (buf @ write_string [] s @ (concat (map (write_string []) ss) @ rest)) (length buf)
      = Some (s, length (buf @ write_string [] s))"
    using Cons.prems by (intro read_written) simp
  moreover have "read_strings ((buf @ write_string [] s) @ concat (map (write_string []) ss) @ rest) (length ss)
      (length (buf @ write_string [] s)) = Some (ss, length ((buf @ write_string [] s) @ concat (map (write_string []) ss)))"
    using Cons.prems by (intro Cons.IH) simp
  ultimately show ?case by simp
qed simp

lemma sint_of_nat_len: "n < 2 ^ 31 \<Longrightarrow> sint (of_nat n :: u32) = int n"
  by (simp add: signed_of_nat signed_take_bit_int_eq_self)

lemma decode_built:
  assumes "wire_str name" and "\<forall>s \<in> set names. wire_str s" and "length names < 2 ^ 31" and "length params < 2 ^ 31"
  shows "decode_request (build_engine_request_full meth name names params uid) =
    Some \<lparr>rq_ver = CURRENT_PROTO_CMD_VER, rq_uid = uid, rq_method = meth, rq_market_name = name,
          rq_market_names = names, rq_params = params\<rparr>"
proof -
  let ?h = "[ENGINE_REQUEST_CMD_ID] @ le_bytes 2 CURRENT_PROTO_CMD_VER @ le_bytes 8 uid @ [method_to_byte meth]"
  let ?n = "le_bytes 4 (of_nat (length names) :: u32)" and ?p = "le_bytes 4 (of_nat (length params) :: u32)"
  let ?names = "concat (map (write_string []) names)"
  let ?d = "?h @ write_string [] name @ ?n @ ?names @ ?p @ params"
  have d: "build_engine_request_full meth name names params uid = ?d"
    using write_string_append [of "?h" name] by (simp add: build_engine_request_full_def Let_def foldl_write_string)
  have h: "length ?h = 12" by simp
  let ?a = "?h @ write_string [] name"
  have 1: "read_string ?d 12 = Some (name, length ?a)"
    using read_written [OF assms(1), of ?h "?n @ ?names @ ?p @ params"] h by simp
  have 2: "slice (length ?a) (length ?a + 4) ?d = ?n"
    using slice_mid [of ?a "length ?a" ?n "length ?a + 4" "?names @ ?p @ params"] by simp
  have 3: "read_strings ?d (length names) (length ?a + 4) = Some (names, length (?a @ ?n @ ?names))"
    using read_written_strings [OF assms(2), of "?a @ ?n" "?p @ params"] by simp
  let ?b = "?a @ ?n @ ?names"
  have dr: "drop (length xs) (xs @ params) = params" for xs :: bytes by simp
  have 4: "slice (length ?b) (length ?b + 4) ?d = ?p" "drop (length ?b + 4) ?d = params"
    using slice_mid [of ?b "length ?b" ?p "length ?b + 4" params] dr [of "?b @ ?p"] by simp_all
  have m: "EngineMethod (method_to_byte meth) = meth" by (cases meth) simp
  have 5: "slice 1 3 ?d = le_bytes 2 CURRENT_PROTO_CMD_VER" "slice 3 11 ?d = le_bytes 8 uid"
    "?d ! 11 = method_to_byte meth" "?d ! 0 = ENGINE_REQUEST_CMD_ID"
    by (simp_all add: slice_def nth_append)
  have 6: "length ?d = length ?b + 4 + length params" "length ?a + 4 \<le> length ?d" "12 \<le> length ?d" by simp_all
  have 7: "read_i32_len ?d (length ?a) = Some (length names)" "read_i32_len ?d (length ?b) = Some (length params)"
    unfolding read_i32_len_def 2 4 from_le_le_bytes_32 using 6 assms(3,4) by (simp_all add: sint_of_nat_len Let_def)
  show ?thesis
    unfolding d decode_request_def 1 option.case prod.case 7 bind.bind_lunit 3 4 5 m
    using 6 by simp
qed

text \<open>C35: Every Engine API request is read back by a reader of the documented wire format: protocol version, identifier, method,
  market names and parameters, for all valid strings that fit their two-byte length and all name lists and parameter blocks
  that fit the documented signed 32-bit count and size.\<close>

theorem engine_request_roundtrip:
  assumes "wire_str name" and "\<forall>s \<in> set names. wire_str s" and "length names < 2 ^ 31" and "length params < 2 ^ 31"
  shows "decode_request (build_engine_request_full meth name names params uid) =
    Some \<lparr>rq_ver = CURRENT_PROTO_CMD_VER, rq_uid = uid, rq_method = meth, rq_market_name = name,
          rq_market_names = names, rq_params = params\<rparr>"
  using assms by (rule decode_built)

theorem engine_request_roundtrip_witness:
  "wire_str [0x41] \<and> map_option rq_market_names (decode_request (subscribe_order_book [[0x41], [0x42, 0x43]] 77)) = Some [[0x41], [0x42, 0x43]]"
proof -
  have "valid_utf8 []" "valid_utf8 [0x41]" "valid_utf8 [0x42, 0x43]" by code_simp+
  then have w: "wire_str []" "wire_str [0x41]" "wire_str [0x42, 0x43]" by (simp_all add: wire_str_def)
  have "decode_request (build_engine_request_full (EngineMethod 20) [] [[0x41], [0x42, 0x43]] [] 77) =
    Some \<lparr>rq_ver = CURRENT_PROTO_CMD_VER, rq_uid = 77, rq_method = EngineMethod 20, rq_market_name = [],
          rq_market_names = [[0x41], [0x42, 0x43]], rq_params = []\<rparr>"
    by (rule engine_request_roundtrip) (use w in simp_all)
  with w(2) show ?thesis by (simp add: subscribe_order_book_def build_engine_request_def)
qed

section \<open>Requests for missing packets\<close>

lemma foldl_write_word: "foldl write_word buf ns = buf @ concat (map (le_bytes 2) ns)"
  by (induction ns arbitrary: buf) (simp_all add: write_word_def)

lemma words_of_concat: "words_of (concat (map (le_bytes 2) ns)) = Some ns"
proof (induction ns)
  case (Cons n ns)
  define a b :: byte where "a = ucast n" and "b = ucast (drop_bit 8 n)"
  have ab: "le_bytes 2 n = [a, b]" by (simp add: le_bytes_def upt_rec a_def b_def)
  then have "from_le [a, b] = n" using from_le_le_bytes_16 [of n] by simp
  with Cons ab show ?case by simp
qed simp

lemma length_concat_words: "length (concat (map (le_bytes 2) (ns :: u16 list))) = 2 * length ns"
  by (induction ns) simp_all

lemma resend_numbers_built:
  assumes "length ns \<le> 200"
  shows "resend_numbers (build_engine_request_full (EngineMethod 17) [] []
    (foldl write_word (write_byte [] (of_nat (length ns))) ns) uid) = Some ns"
proof -
  let ?ps = "of_nat (length ns) # concat (map (le_bytes 2) ns)"
  have ps: "foldl write_word (write_byte [] (of_nat (length ns))) ns = ?ps"
    by (simp add: foldl_write_word write_byte_def)
  have "length ?ps < 2 ^ 31" using assms by (simp add: length_concat_words)
  moreover have "wire_str []" unfolding wire_str_def by (simp add: from_utf8_error.simps)
  ultimately have "decode_request (build_engine_request_full (EngineMethod 17) [] [] ?ps uid) =
    Some \<lparr>rq_ver = CURRENT_PROTO_CMD_VER, rq_uid = uid, rq_method = EngineMethod 17, rq_market_name = [],
          rq_market_names = [], rq_params = ?ps\<rparr>"
    by (intro decode_built) simp_all
  then show ?thesis
    using assms unfolding ps resend_numbers_def by (simp add: unat_of_nat_byte words_of_concat length_concat_words)
qed

lemma resend_loop_numbers:
  "\<exists>chunks. map resend_numbers (resend_loop rnd k nums) = map Some chunks \<and> concat chunks = nums
     \<and> (\<forall>c \<in> set chunks. c \<noteq> [] \<and> length c \<le> 200)"
proof (induction rnd k nums rule: resend_loop.induct)
  case (1 rnd k nums)
  show ?case
  proof (cases "nums = []")
    case True
    then show ?thesis by (simp add: resend_loop.simps)
  next
    case False
    define cnt where "cnt = min (length nums) 200"
    obtain chunks where c: "map resend_numbers (resend_loop rnd (k + 1) (drop cnt nums)) = map Some chunks"
      "concat chunks = drop cnt nums" "\<forall>c \<in> set chunks. c \<noteq> [] \<and> length c \<le> 200"
      using 1 [OF False cnt_def refl] by blast
    have len: "length (take cnt nums) = cnt" "cnt \<le> 200" "take cnt nums \<noteq> []" using False by (auto simp: cnt_def)
    have "resend_loop rnd k nums = build_engine_request_full (EngineMethod 17) [] []
        (foldl write_word (write_byte [] (of_nat (length (take cnt nums)))) (take cnt nums)) (rnd k)
        # resend_loop rnd (k + 1) (drop cnt nums)"
      unfolding len(1) using False by (subst resend_loop.simps) (simp only: Let_def cnt_def if_False)
    then have "map resend_numbers (resend_loop rnd k nums) = map Some (take cnt nums # chunks)"
      using c(1) resend_numbers_built [of "take cnt nums"] len by simp
    moreover have "concat (take cnt nums # chunks) = nums" using c(2) by simp
    ultimately show ?thesis using c(3) len by (metis set_ConsD)
  qed
qed

end
