(* ===== verification/Trades.thy ===== *)
theory Trades
  imports Engine_Request Compression Complex_Main
begin

text \<open>
  Gap tracking and recovery of the trades stream (\<^verbatim>\<open>state/trades.rs\<close> with its modules).  Packets carry a wrapping
  16-bit number.  A jump opens a bucket for the missing numbers; packets that arrive late or are resent
  mark their slot; a tick requests what is still missing and closes buckets that are complete or have been
  requested often enough.

  Slices indexed past their end panic in the source; the operations with such an access return
  \<open>None\<close> then.  \<^verbatim>\<open>f64\<close> time computations of the tick are exact rationals.  The events of the diagnostics
  build are part of the model.
\<close>

section \<open>Buckets\<close>

definition MAX_GAP_BUCKETS :: nat where "MAX_GAP_BUCKETS = 50"
definition DEFAULT_RECVD_SIZE :: nat where "DEFAULT_RECVD_SIZE = 100"
definition MAX_RECVD_SIZE :: nat where "MAX_RECVD_SIZE = 3000"
definition MAX_RETRY_COUNT :: u8 where "MAX_RETRY_COUNT = 3"
definition TRADES_PAUSE_TIMEOUT_MS :: millis where "TRADES_PAUSE_TIMEOUT_MS = 30000"

record gap_bucket =
  gb_active :: bool
  gb_start_num :: u16
  gb_end_num :: u16
  gb_created_ms :: millis
  gb_last_retry_ms :: millis
  gb_retry_count :: u8
  gb_refund_used :: bool
  gb_recvd :: "bool list"

definition gap_bucket_default :: gap_bucket where
  "gap_bucket_default = \<lparr>gb_active = False, gb_start_num = 0, gb_end_num = 0, gb_created_ms = 0, gb_last_retry_ms = 0,
     gb_retry_count = 0, gb_refund_used = False, gb_recvd = replicate DEFAULT_RECVD_SIZE False\<rparr>"

text \<open>\<^verbatim>\<open>end.wrapping_sub(start) as usize + 1\<close>\<close>

definition range_size :: "u16 \<Rightarrow> u16 \<Rightarrow> nat" where
  "range_size gap_from gap_to = unat (gap_to - gap_from) + 1"

definition gap_size :: "gap_bucket \<Rightarrow> nat" where
  "gap_size b = range_size (gb_start_num b) (gb_end_num b)"

definition is_packet_in_range :: "u16 \<Rightarrow> u16 \<Rightarrow> u16 \<Rightarrow> bool" where
  "is_packet_in_range packet gap_from gap_to \<longleftrightarrow> packet - gap_from \<le> gap_to - gap_from"

section \<open>State\<close>

datatype packet_effect =
  Eff_Apply
| Eff_GapDetected u16 u16
| Eff_Duplicate
| Eff_OutOfOrder u16
| Eff_GapFilled u16 "u16 \<times> u16"

record trades_state =
  ts_buckets :: "gap_bucket list"
  ts_used_buckets :: nat
  ts_last_packet_num :: u16
  ts_last_packet_time_ms :: millis
  ts_trades_started :: bool
  ts_last_check_missing_ms :: millis
  ts_last_large_recvd_ms :: millis
  ts_seen_packets :: "u64 list"

definition trades_new :: trades_state where
  "trades_new = \<lparr>ts_buckets = replicate MAX_GAP_BUCKETS gap_bucket_default, ts_used_buckets = 0, ts_last_packet_num = 0,
     ts_last_packet_time_ms = 0, ts_trades_started = False, ts_last_check_missing_ms = 0, ts_last_large_recvd_ms = 0,
     ts_seen_packets = replicate 8192 0\<rparr>"

definition reset_gap_buckets :: "trades_state \<Rightarrow> millis \<Rightarrow> trades_state" where
  "reset_gap_buckets s now_ms =
     s\<lparr>ts_buckets := map (\<lambda>b. b\<lparr>gb_active := False\<rparr>) (ts_buckets s), ts_used_buckets := 0,
       ts_last_packet_time_ms := now_ms, ts_trades_started := False\<rparr>"

definition full_reset_at :: "trades_state \<Rightarrow> millis \<Rightarrow> trades_state" where
  "full_reset_at s now_ms =
     (reset_gap_buckets s now_ms)\<lparr>ts_last_packet_num := 0, ts_seen_packets := map (\<lambda>_. 0) (ts_seen_packets s)\<rparr>"

definition remember_packet :: "trades_state \<Rightarrow> u16 \<Rightarrow> u64 \<Rightarrow> bool \<times> trades_state" where
  "remember_packet s packet_num base_time =
     (let key = base_time XOR push_bit 48 (ucast packet_num); i = unat (packet_num AND 8191)
      in (ts_seen_packets s ! i = key, s\<lparr>ts_seen_packets := (ts_seen_packets s)[i := key]\<rparr>))"

section \<open>Opening and extending buckets\<close>

text \<open>\<^verbatim>\<open>iter().position(p)\<close>\<close>

definition first_index :: "('a \<Rightarrow> bool) \<Rightarrow> 'a list \<Rightarrow> nat option" where
  "first_index p xs = (let n = length (takeWhile (\<lambda>x. \<not> p x) xs) in if n < length xs then Some n else None)"

text \<open>The fields both branches of \<^verbatim>\<open>create_bucket\<close> set.\<close>

definition open_bucket :: "u16 \<Rightarrow> u16 \<Rightarrow> millis \<Rightarrow> nat \<Rightarrow> gap_bucket \<Rightarrow> gap_bucket" where
  "open_bucket gap_from gap_to now_ms sz b =
     b\<lparr>gb_start_num := gap_from, gb_end_num := gap_to, gb_created_ms := now_ms, gb_last_retry_ms := now_ms,
       gb_retry_count := 0, gb_refund_used := False,
       gb_recvd := (if length (gb_recvd b) < sz then resize sz False (gb_recvd b) else fill_prefix sz False (gb_recvd b))\<rparr>"

text \<open>\<^verbatim>\<open>min_by_key\<close>: the first of the minimal elements.\<close>

definition oldest_index :: "gap_bucket list \<Rightarrow> nat" where
  "oldest_index bs =
     (case first_index (\<lambda>b. \<forall>b' \<in> set bs. gb_created_ms b \<le> gb_created_ms b') bs of Some i \<Rightarrow> i | None \<Rightarrow> 0)"

definition create_bucket :: "trades_state \<Rightarrow> u16 \<Rightarrow> u16 \<Rightarrow> millis \<Rightarrow> trades_state" where
  "create_bucket s gap_from gap_to now_ms =
     (let sz = min (range_size gap_from gap_to) MAX_RECVD_SIZE;
          s = (if sz > DEFAULT_RECVD_SIZE then s\<lparr>ts_last_large_recvd_ms := now_ms\<rparr> else s)
      in case first_index (\<lambda>b. \<not> gb_active b) (ts_buckets s) of
           Some i \<Rightarrow>
             s\<lparr>ts_buckets := (ts_buckets s)[i := open_bucket gap_from gap_to now_ms sz ((ts_buckets s ! i)\<lparr>gb_active := True\<rparr>)],
               ts_used_buckets := ts_used_buckets s + 1\<rparr>
         | None \<Rightarrow>
             (let i = oldest_index (ts_buckets s)
              in s\<lparr>ts_buckets := (ts_buckets s)[i := open_bucket gap_from gap_to now_ms sz (ts_buckets s ! i)]\<rparr>))"

text \<open>Whether a bucket can be extended over the new gap, and the extension.\<close>

definition extendable :: "u16 \<Rightarrow> u16 \<Rightarrow> gap_bucket \<Rightarrow> bool" where
  "extendable new_gap_start new_gap_end b \<longleftrightarrow>
     gb_active b \<and> gb_retry_count b < 2 \<and> gb_end_num b = new_gap_start - 2
     \<and> range_size (gb_start_num b) new_gap_end \<le> MAX_RECVD_SIZE"

definition extend_bucket :: "u16 \<Rightarrow> gap_bucket \<Rightarrow> gap_bucket" where
  "extend_bucket new_gap_end b =
     (let old_size = gap_size b; new_size = range_size (gb_start_num b) new_gap_end;
          recvd = (if length (gb_recvd b) < new_size then resize new_size False (gb_recvd b) else gb_recvd b);
          recvd = (if old_size < length recvd then recvd[old_size := True] else recvd);
          recvd = (if old_size + 1 < new_size then take (old_size + 1) recvd @ replicate (new_size - (old_size + 1)) False @ drop new_size recvd
                   else recvd);
          b = b\<lparr>gb_recvd := recvd, gb_end_num := new_gap_end\<rparr>
      in if 1 \<le> gb_retry_count b \<and> \<not> gb_refund_used b
         then b\<lparr>gb_retry_count := gb_retry_count b - 1, gb_refund_used := True\<rparr> else b)"

definition find_bucket_for_packet ::
  "trades_state \<Rightarrow> u16 \<Rightarrow> bool \<Rightarrow> u16 \<Rightarrow> u16 \<Rightarrow> nat option \<times> trades_state" where
  "find_bucket_for_packet s packet_num want_extend new_gap_start new_gap_end =
     (if ts_used_buckets s = 0 then (None, s)
      else case first_index (\<lambda>b. gb_active b \<and> is_packet_in_range packet_num (gb_start_num b) (gb_end_num b)) (ts_buckets s) of
             Some i \<Rightarrow> (Some i, s)
           | None \<Rightarrow>
               if \<not> want_extend then (None, s)
               else case first_index (extendable new_gap_start new_gap_end) (ts_buckets s) of
                      Some i \<Rightarrow> (Some i, s\<lparr>ts_buckets := (ts_buckets s)[i := extend_bucket new_gap_end (ts_buckets s ! i)],
                                          ts_last_packet_num := packet_num\<rparr>)
                    | None \<Rightarrow> (None, s))"

definition mark_received :: "u16 \<Rightarrow> gap_bucket \<Rightarrow> gap_bucket" where
  "mark_received packet_num b =
     (let i = unat (packet_num - gb_start_num b)
      in if i < length (gb_recvd b) then b\<lparr>gb_recvd := (gb_recvd b)[i := True]\<rparr> else b)"

definition mark_in :: "trades_state \<Rightarrow> nat \<Rightarrow> u16 \<Rightarrow> trades_state" where
  "mark_in s i packet_num = s\<lparr>ts_buckets := (ts_buckets s)[i := mark_received packet_num (ts_buckets s ! i)]\<rparr>"

section \<open>Packets\<close>

definition on_packet_header :: "trades_state \<Rightarrow> u16 \<Rightarrow> u64 \<Rightarrow> millis \<Rightarrow> packet_effect list \<times> trades_state" where
  "on_packet_header s packet_num base_time now_ms =
     (let s = snd (remember_packet s packet_num base_time);
          pause_detected = (ts_trades_started s \<and> ts_last_packet_time_ms s \<noteq> 0
                            \<and> \<bar>now_ms - ts_last_packet_time_ms s\<bar> > TRADES_PAUSE_TIMEOUT_MS)
      in if \<not> ts_trades_started s \<or> pause_detected
         then ([Eff_Apply], (reset_gap_buckets s now_ms)\<lparr>ts_trades_started := True, ts_last_packet_num := packet_num,
                              ts_last_packet_time_ms := now_ms\<rparr>)
         else if packet_num = ts_last_packet_num s
         then ([Eff_Duplicate, Eff_Apply], s\<lparr>ts_last_packet_time_ms := now_ms\<rparr>)
         else if packet_num = ts_last_packet_num s + 1
         then ([Eff_Apply], s\<lparr>ts_last_packet_num := packet_num, ts_last_packet_time_ms := now_ms\<rparr>)
         else let last = ts_last_packet_num s; gap = unat (packet_num - (last + 1));
                  new_gap_start = last + 1; new_gap_end = packet_num - 1
              in case find_bucket_for_packet s packet_num True new_gap_start new_gap_end of
                   (Some i, s) \<Rightarrow>
                     (let b = ts_buckets s ! i
                      in if is_packet_in_range packet_num (gb_start_num b) (gb_end_num b)
                         then ([Eff_GapFilled packet_num (gb_start_num b, gb_end_num b), Eff_Apply],
                               (mark_in s i packet_num)\<lparr>ts_last_packet_time_ms := now_ms\<rparr>)
                         else ([Eff_GapDetected new_gap_start new_gap_end, Eff_Apply],
                               s\<lparr>ts_last_packet_num := packet_num, ts_last_packet_time_ms := now_ms\<rparr>))
                 | (None, s) \<Rightarrow>
                     if gap > MAX_RECVD_SIZE \<or> ts_used_buckets s \<ge> MAX_GAP_BUCKETS
                     then ([Eff_Apply], reset_gap_buckets s now_ms)
                     else ([Eff_GapDetected new_gap_start new_gap_end, Eff_Apply],
                           (create_bucket s new_gap_start new_gap_end now_ms)\<lparr>ts_last_packet_num := packet_num,
                             ts_last_packet_time_ms := now_ms\<rparr>))"

definition on_packet_resend_header :: "trades_state \<Rightarrow> u16 \<Rightarrow> u64 \<Rightarrow> packet_effect list \<times> trades_state" where
  "on_packet_resend_header s packet_num base_time =
     (let (effects, s) =
            (case find_bucket_for_packet s packet_num False 0 0 of
               (Some i, s) \<Rightarrow>
                 ([Eff_GapFilled packet_num (gb_start_num (ts_buckets s ! i), gb_end_num (ts_buckets s ! i))], mark_in s i packet_num)
             | (None, s) \<Rightarrow> ([Eff_OutOfOrder packet_num], s));
          (duplicate, s) = remember_packet s packet_num base_time
      in (effects @ (if duplicate then [] else [Eff_Apply]), s))"

section \<open>Recovery tick\<close>

datatype trades_event =
  Te_BucketClosed u16 u16 bool u8
| Te_ResendRequested "u16 list"

definition clamp01 :: "rat \<Rightarrow> rat" where
  "clamp01 x = max 0 (min 1 x)"

definition path_delay_ms :: "millis \<Rightarrow> rat \<Rightarrow> gap_bucket \<Rightarrow> rat" where
  "path_delay_ms rtt_ms delivery_ratio b =
     (let retry_delay_ms = of_int (max rtt_ms 250);
          first_retry_factor = clamp01 ((97 / 100 - delivery_ratio) / (12 / 100));
          d = min (max (retry_delay_ms * (12 / 10 + of_nat (unat (gb_retry_count b)) * (7 / 10))) 300) 1800
      in if gb_retry_count b = 0 \<and> \<not> gb_refund_used b then 32 + (d - 32) * first_retry_factor else d)"

text \<open>The numbers still missing in a bucket; \<open>None\<close> when the bitmap is shorter than the gap (\<^verbatim>\<open>b.recvd[j]\<close> panics).\<close>

definition missing_numbers :: "gap_bucket \<Rightarrow> u16 list option" where
  "missing_numbers b =
     (if length (gb_recvd b) < gap_size b then None
      else Some (map (\<lambda>j. gb_start_num b + of_nat j) (filter (\<lambda>j. \<not> gb_recvd b ! j) [0..<gap_size b])))"

text \<open>One iteration of the loop: the bucket, \<open>used_buckets\<close>, the numbers to request and the events.\<close>

definition tick_bucket ::
  "millis \<Rightarrow> rat \<Rightarrow> millis \<Rightarrow> nat \<Rightarrow> gap_bucket \<Rightarrow> (gap_bucket \<times> nat \<times> u16 list \<times> trades_event list) option" where
  "tick_bucket rtt_ms delivery_ratio now_ms used b =
     (if \<not> gb_active b then Some (b, used, [], [])
      else let all_recvd = list_all (\<lambda>r. r) (take (gap_size b) (gb_recvd b));
               delay = path_delay_ms rtt_ms delivery_ratio b;
               due = (of_int \<bar>now_ms - gb_last_retry_ms b\<bar> > delay);
               closed = (\<lambda>all. [Te_BucketClosed (gb_start_num b) (gb_end_num b) all (gb_retry_count b)])
           in if all_recvd then Some (b\<lparr>gb_active := False\<rparr>, used - 1, [], closed True)
              else if MAX_RETRY_COUNT \<le> gb_retry_count b
              then Some (if due then (b\<lparr>gb_active := False\<rparr>, used - 1, [], closed False) else (b, used, [], []))
              else if due
              then case missing_numbers b of
                     None \<Rightarrow> None
                   | Some nums \<Rightarrow>
                       Some (b\<lparr>gb_retry_count := sat_inc_u8 (gb_retry_count b), gb_last_retry_ms := now_ms\<rparr>, used, nums, [])
              else Some (b, used, [], []))"

fun tick_buckets ::
  "millis \<Rightarrow> rat \<Rightarrow> millis \<Rightarrow> nat \<Rightarrow> gap_bucket list \<Rightarrow> (gap_bucket list \<times> nat \<times> u16 list \<times> trades_event list) option" where
  "tick_buckets rtt dr now used [] = Some ([], used, [], [])"
| "tick_buckets rtt dr now used (b # bs) =
     (case tick_bucket rtt dr now used b of
        None \<Rightarrow> None
      | Some (b, used, nums, evs) \<Rightarrow>
          (case tick_buckets rtt dr now used bs of
             None \<Rightarrow> None
           | Some (bs, used, nums', evs') \<Rightarrow> Some (b # bs, used, nums @ nums', evs @ evs')))"

definition LARGE_RECVD_SHRINK_MS :: millis where
  "LARGE_RECVD_SHRINK_MS = 30 * 60 * 1000"

definition shrink_bucket :: "gap_bucket \<Rightarrow> gap_bucket" where
  "shrink_bucket b =
     (if \<not> gb_active b \<and> length (gb_recvd b) > DEFAULT_RECVD_SIZE then b\<lparr>gb_recvd := take DEFAULT_RECVD_SIZE (gb_recvd b)\<rparr> else b)"

text \<open>\<^verbatim>\<open>tick_impl\<close>; \<open>rnd\<close> gives the identifiers of the requests.\<close>

definition tick_impl ::
  "trades_state \<Rightarrow> millis \<Rightarrow> rat \<Rightarrow> millis \<Rightarrow> (nat \<Rightarrow> u64) \<Rightarrow> (trades_state \<times> bytes list \<times> trades_event list) option" where
  "tick_impl s rtt_ms delivery_ratio now_ms rnd =
     (if now_ms - ts_last_check_missing_ms s \<le> 100 then Some (s, [], [])
      else let s = s\<lparr>ts_last_check_missing_ms := now_ms\<rparr>
           in if ts_used_buckets s = 0 then Some (s, [], [])
              else case tick_buckets rtt_ms delivery_ratio now_ms (ts_used_buckets s) (ts_buckets s) of
                     None \<Rightarrow> None
                   | Some (bs, used, nums, evs) \<Rightarrow>
                       (let s = s\<lparr>ts_buckets := bs, ts_used_buckets := used\<rparr>;
                            s = (if now_ms - ts_last_large_recvd_ms s > LARGE_RECVD_SHRINK_MS
                                 then s\<lparr>ts_buckets := map shrink_bucket (ts_buckets s), ts_last_large_recvd_ms := now_ms\<rparr> else s)
                        in if nums = [] then Some (s, [], evs)
                           else Some (s, trades_resend_batches rnd nums, evs @ [Te_ResendRequested nums])))"

section \<open>Resend responses\<close>

text \<open>\<^verbatim>\<open>TradesResendResponsePackets\<close>: the inner packets, until one does not fit.\<close>

fun resend_packets :: "bytes \<Rightarrow> nat \<Rightarrow> nat \<Rightarrow> bytes list" where
  "resend_packets payload pos 0 = []"
| "resend_packets payload pos (Suc remaining) =
     (if pos + 2 > length payload then []
      else let len = unat (from_le (slice pos (pos + 2) payload) :: u16); pos = pos + 2
           in if pos + len > length payload then []
              else slice pos (pos + len) payload # resend_packets payload (pos + len) remaining)"

definition iter_trades_resend_response :: "bytes \<Rightarrow> bytes list" where
  "iter_trades_resend_response payload =
     (if payload = [] then [] else resend_packets payload 1 (unat (payload ! 0)))"

end
