(* ===== verification/Trades_Correct.thy ===== *)
theory Trades_Correct
  imports Trades
begin

text \<open>
  Correctness of the gap tracking of \<open>Trades\<close>: the recovery tick never indexes past a bitmap, over all runs; in a
  session without ticks the open buckets name exactly the numbers that were sent and not received, and the next
  due tick requests exactly these; a gap that is not filled is requested three times and then closed.
\<close>

section \<open>Searching and updating buckets\<close>

lemma first_index_Some:
  assumes "first_index p xs = Some i"
  shows "i < length xs" and "p (xs ! i)"
proof -
  have i: "i = length (takeWhile (\<lambda>x. \<not> p x) xs)" "i < length xs"
    using assms by (auto simp: first_index_def Let_def split: if_splits)
  then show "i < length xs" by simp
  from i show "p (xs ! i)" using nth_length_takeWhile [of "\<lambda>x. \<not> p x" xs] by simp
qed

lemma takeWhile_shorter: "length (takeWhile p xs) < length xs \<longleftrightarrow> (\<exists>x \<in> set xs. \<not> p x)"
  by (induction xs) auto

lemma first_index_None: "first_index p xs = None \<Longrightarrow> x \<in> set xs \<Longrightarrow> \<not> p x"
  by (auto simp: first_index_def Let_def takeWhile_shorter split: if_splits)

lemma count_update:
  "i < length xs \<Longrightarrow>
    length (filter p (xs[i := y])) + (if p (xs ! i) then 1 else 0) = length (filter p xs) + (if p y then 1 else 0)"
proof (induction xs arbitrary: i)
  case (Cons x xs)
  then show ?case by (cases i) (auto split: if_splits)
qed simp

lemma oldest_index_less: "bs \<noteq> [] \<Longrightarrow> oldest_index bs < length bs"
  by (auto simp: oldest_index_def dest: first_index_Some(1) split: option.splits)

section \<open>Invariant\<close>

definition bucket_ok :: "gap_bucket \<Rightarrow> bool" where
  "bucket_ok b \<longleftrightarrow> (gb_active b \<longrightarrow> gap_size b \<le> length (gb_recvd b) \<and> gap_size b \<le> MAX_RECVD_SIZE)"

definition trades_ok :: "trades_state \<Rightarrow> bool" where
  "trades_ok s \<longleftrightarrow> length (ts_buckets s) = MAX_GAP_BUCKETS \<and> ts_used_buckets s = length (filter gb_active (ts_buckets s))
     \<and> (\<forall>b \<in> set (ts_buckets s). bucket_ok b) \<and> length (ts_seen_packets s) = 8192"

lemma trades_okD:
  assumes "trades_ok s"
  shows "length (ts_buckets s) = MAX_GAP_BUCKETS" and "ts_used_buckets s = length (filter gb_active (ts_buckets s))"
    and "b \<in> set (ts_buckets s) \<Longrightarrow> bucket_ok b" and "length (ts_seen_packets s) = 8192"
  using assms by (auto simp: trades_ok_def)

lemma trades_ok_new: "trades_ok trades_new"
  by (simp add: trades_ok_def trades_new_def bucket_ok_def gap_bucket_default_def)

lemma trades_ok_reset: "trades_ok s \<Longrightarrow> trades_ok (reset_gap_buckets s now)"
  by (auto simp: trades_ok_def reset_gap_buckets_def bucket_ok_def filter_map o_def)

lemma trades_ok_fields [simp]:
  "trades_ok (s\<lparr>ts_last_packet_num := a\<rparr>) = trades_ok s" "trades_ok (s\<lparr>ts_last_packet_time_ms := t\<rparr>) = trades_ok s"
  "trades_ok (s\<lparr>ts_trades_started := d\<rparr>) = trades_ok s" "trades_ok (s\<lparr>ts_last_large_recvd_ms := t\<rparr>) = trades_ok s"
  "trades_ok (s\<lparr>ts_last_check_missing_ms := t\<rparr>) = trades_ok s"
  by (simp_all add: trades_ok_def)

lemma trades_ok_remember: "trades_ok s \<Longrightarrow> trades_ok (snd (remember_packet s p t))"
  by (simp add: trades_ok_def remember_packet_def Let_def)

lemma trades_ok_update:
  assumes "trades_ok s" "i < MAX_GAP_BUCKETS" "bucket_ok b" "gb_active b = gb_active (ts_buckets s ! i)"
  shows "trades_ok (s\<lparr>ts_buckets := (ts_buckets s)[i := b]\<rparr>)"
  using assms count_update [of i "ts_buckets s" gb_active b] set_update_subset_insert [of "ts_buckets s" i b]
  by (auto simp: trades_ok_def)

lemma bucket_ok_mark: "bucket_ok b \<Longrightarrow> bucket_ok (mark_received p b)"
  by (simp add: bucket_ok_def mark_received_def gap_size_def Let_def)

lemma mark_active [simp]: "gb_active (mark_received p b) = gb_active b"
  by (simp add: mark_received_def Let_def)

lemma trades_ok_mark: "trades_ok s \<Longrightarrow> i < MAX_GAP_BUCKETS \<Longrightarrow> trades_ok (mark_in s i p)"
  unfolding mark_in_def
  by (rule trades_ok_update) (auto intro!: bucket_ok_mark trades_okD(3) simp: trades_okD(1))

section \<open>The operations keep the invariant\<close>

lemma bucket_ok_extend:
  assumes "bucket_ok b" and "extendable f t b"
  shows "bucket_ok (extend_bucket t b)"
  using assms by (auto simp: bucket_ok_def extendable_def extend_bucket_def gap_size_def Let_def)

lemma extend_active [simp]: "gb_active (extend_bucket t b) = gb_active b"
  by (simp add: extend_bucket_def Let_def)

lemma find_bucket_cases:
  assumes "find_bucket_for_packet s p ext f t = (r, s')"
  obtains (none) "r = None" "s' = s"
  | (inside) i where "r = Some i" "s' = s" "i < length (ts_buckets s)" "gb_active (ts_buckets s ! i)"
      "is_packet_in_range p (gb_start_num (ts_buckets s ! i)) (gb_end_num (ts_buckets s ! i))"
  | (extend) i where "r = Some i" "i < length (ts_buckets s)" "extendable f t (ts_buckets s ! i)" "ext"
      "s' = s\<lparr>ts_buckets := (ts_buckets s)[i := extend_bucket t (ts_buckets s ! i)], ts_last_packet_num := p\<rparr>"
proof -
  let ?hit = "first_index (\<lambda>b. gb_active b \<and> is_packet_in_range p (gb_start_num b) (gb_end_num b)) (ts_buckets s)"
  let ?grow = "first_index (extendable f t) (ts_buckets s)"
  note find = assms [unfolded find_bucket_for_packet_def]
  show ?thesis
  proof (cases "ts_used_buckets s = 0")
    case True
    with find have "r = None" "s' = s" by simp_all
    then show ?thesis by (rule none)
  next
    case used: False
    show ?thesis
    proof (cases ?hit)
      case (Some i)
      with used find have "r = Some i" "s' = s" by simp_all
      then show ?thesis by (rule inside) (use first_index_Some [OF Some] in simp_all)
    next
      case miss: None
      show ?thesis
      proof (cases "ext \<and> ?grow \<noteq> None")
        case True
        then obtain i where i: "?grow = Some i" by blast
        have "r = Some i" "s' = s\<lparr>ts_buckets := (ts_buckets s)[i := extend_bucket t (ts_buckets s ! i)], ts_last_packet_num := p\<rparr>"
          using used miss find True i by simp_all
        then show ?thesis using first_index_Some [OF i] True by (intro extend [of i]) blast+
      next
        case False
        with used miss find have "r = None" "s' = s" by (auto split: if_splits)
        then show ?thesis by (rule none)
      qed
    qed
  qed
qed

lemma trades_ok_find:
  assumes ok: "trades_ok s" and find: "find_bucket_for_packet s p ext f t = (r, s')"
  shows "trades_ok s' \<and> (\<forall>i. r = Some i \<longrightarrow> i < MAX_GAP_BUCKETS)"
  using find
proof (cases rule: find_bucket_cases)
  case (extend i)
  have i: "i < MAX_GAP_BUCKETS" using extend(2) ok by (simp add: trades_okD(1))
  have "bucket_ok (extend_bucket t (ts_buckets s ! i))"
    by (rule bucket_ok_extend [OF trades_okD(3) [OF ok nth_mem [OF extend(2)]] extend(3)])
  then have "trades_ok (s\<lparr>ts_buckets := (ts_buckets s)[i := extend_bucket t (ts_buckets s ! i)]\<rparr>)"
    by (intro trades_ok_update [OF ok i]) simp_all
  with extend i show ?thesis by simp
qed (use ok in \<open>auto simp: trades_okD(1)\<close>)

lemma bucket_ok_open:
  "range_size f t \<le> MAX_RECVD_SIZE \<Longrightarrow> bucket_ok (open_bucket f t now (min (range_size f t) MAX_RECVD_SIZE) b)"
  by (auto simp: bucket_ok_def open_bucket_def gap_size_def)

lemma open_active [simp]: "gb_active (open_bucket f t now n b) = gb_active b"
  by (simp add: open_bucket_def)

lemma trades_ok_create:
  assumes ok: "trades_ok s" and size: "range_size f t \<le> MAX_RECVD_SIZE"
  shows "trades_ok (create_bucket s f t now)"
proof -
  define n where "n = min (range_size f t) MAX_RECVD_SIZE"
  define s1 where "s1 = (if n > DEFAULT_RECVD_SIZE then s\<lparr>ts_last_large_recvd_ms := now\<rparr> else s)"
  have ok1: "trades_ok s1" using ok by (simp add: s1_def)
  note new = bucket_ok_open [OF size, folded n_def]
  show ?thesis
  proof (cases "first_index (\<lambda>b. \<not> gb_active b) (ts_buckets s1)")
    case None
    have len: "length (ts_buckets s1) = MAX_GAP_BUCKETS" by (rule trades_okD(1) [OF ok1])
    then have "ts_buckets s1 \<noteq> []" by (auto simp: MAX_GAP_BUCKETS_def)
    from oldest_index_less [OF this] len have "oldest_index (ts_buckets s1) < MAX_GAP_BUCKETS" by simp
    from trades_ok_update [OF ok1 this new] show ?thesis
      using None by (simp add: create_bucket_def Let_def flip: n_def s1_def)
  next
    case (Some i)
    note i = first_index_Some [OF Some]
    let ?b = "open_bucket f t now n ((ts_buckets s1 ! i)\<lparr>gb_active := True\<rparr>)"
    have "create_bucket s f t now = s1\<lparr>ts_buckets := (ts_buckets s1)[i := ?b], ts_used_buckets := ts_used_buckets s1 + 1\<rparr>"
      using Some by (simp add: create_bucket_def Let_def flip: n_def s1_def)
    then show ?thesis
      using ok1 i count_update [of i "ts_buckets s1" gb_active ?b] new set_update_subset_insert [of "ts_buckets s1" i ?b]
      by (auto simp: trades_ok_def)
  qed
qed

text \<open>The gap between \<open>last\<close> and a packet ahead of it.\<close>

lemma unat_pred: "x \<noteq> 0 \<Longrightarrow> unat (x - 1) + 1 = unat (x :: u16)"
  using unat_minus_one [of x] unat_gt_0 [of x] by linarith

lemma new_gap_size:
  assumes "p \<noteq> l + 1"
  shows "range_size (l + 1) (p - 1) = unat (p - (l + 1))"
proof -
  have "p - (l + 1) \<noteq> 0" using assms by simp
  from unat_pred [OF this] show ?thesis
    unfolding range_size_def by (metis diff_right_commute)
qed

lemma trades_ok_header:
  assumes "trades_ok s"
  shows "trades_ok (snd (on_packet_header s p bt now))"
proof -
  define s1 where "s1 = snd (remember_packet s p bt)"
  have ok: "trades_ok s1" using assms by (simp add: s1_def trades_ok_remember)
  obtain r s2 where find: "find_bucket_for_packet s1 p True (ts_last_packet_num s1 + 1) (p - 1) = (r, s2)" by fastforce
  note ok2 = trades_ok_find [OF ok find]
  show ?thesis
  proof (cases r)
    case (Some i)
    then have "trades_ok (mark_in s2 i p)" using ok2 by (simp add: trades_ok_mark)
    with Some ok ok2 find show ?thesis
      by (simp add: on_packet_header_def trades_ok_reset Let_def flip: s1_def)
  next
    case None
    have "p \<noteq> ts_last_packet_num s1 + 1 \<Longrightarrow> unat (p - (ts_last_packet_num s1 + 1)) \<le> MAX_RECVD_SIZE \<Longrightarrow>
        trades_ok (create_bucket s2 (ts_last_packet_num s1 + 1) (p - 1) now)"
      using ok2 by (simp add: trades_ok_create new_gap_size)
    with None ok ok2 find show ?thesis
      by (simp add: on_packet_header_def trades_ok_reset Let_def not_le flip: s1_def)
  qed
qed

lemma trades_ok_resend:
  assumes ok: "trades_ok s"
  shows "trades_ok (snd (on_packet_resend_header s p bt))"
proof -
  obtain r s2 where find: "find_bucket_for_packet s p False 0 0 = (r, s2)" by fastforce
  have "trades_ok s2" "\<And>i. r = Some i \<Longrightarrow> trades_ok (mark_in s2 i p)"
    using trades_ok_find [OF ok find] by (simp_all add: trades_ok_mark)
  then show ?thesis
    by (cases r) (simp_all add: on_packet_resend_header_def find case_prod_beta trades_ok_remember Let_def)
qed

section \<open>The tick\<close>

lemma tick_bucket_ok:
  assumes "bucket_ok b"
  shows "\<exists>b' nums evs. tick_bucket rtt dr now used b =
      Some (b', if gb_active b \<and> \<not> gb_active b' then used - 1 else used, nums, evs)
    \<and> bucket_ok b' \<and> (gb_active b' \<longrightarrow> gb_active b)"
  using assms
  by (auto simp: tick_bucket_def bucket_ok_def missing_numbers_def gap_size_def Let_def)

lemma tick_buckets_ok:
  "\<forall>b \<in> set bs. bucket_ok b \<Longrightarrow> used = n + length (filter gb_active bs) \<Longrightarrow>
    \<exists>bs' nums evs. tick_buckets rtt dr now used bs = Some (bs', n + length (filter gb_active bs'), nums, evs)
      \<and> length bs' = length bs \<and> (\<forall>b \<in> set bs'. bucket_ok b)"
proof (induction bs arbitrary: used n)
  case (Cons b bs)
  define u where "u = (\<lambda>b' :: gap_bucket. if gb_active b \<and> \<not> gb_active b' then used - 1 else used)"
  obtain b' nums evs where b: "tick_bucket rtt dr now used b = Some (b', u b', nums, evs)"
      "bucket_ok b'" "gb_active b' \<longrightarrow> gb_active b"
    using tick_bucket_ok [of b rtt dr now used] Cons.prems(1) unfolding u_def by auto
  define k where "k = n + (if gb_active b' then 1 else 0)"
  have "u b' = k + length (filter gb_active bs)" using Cons.prems(2) b(3) by (auto simp: u_def k_def)
  from Cons.IH [OF _ this] Cons.prems(1) obtain bs' nums' evs' where
    "tick_buckets rtt dr now (u b') bs = Some (bs', k + length (filter gb_active bs'), nums', evs')"
    "length bs' = length bs" "\<forall>b \<in> set bs'. bucket_ok b" by auto
  with b show ?case by (simp add: k_def)
qed simp

lemma shrink_ok: "bucket_ok b \<Longrightarrow> bucket_ok (shrink_bucket b)"
  by (simp add: shrink_bucket_def bucket_ok_def)

lemma shrink_active [simp]: "gb_active (shrink_bucket b) = gb_active b"
  by (simp add: shrink_bucket_def)

lemma trades_ok_tick:
  assumes ok: "trades_ok s"
  shows "\<exists>s' out evs. tick_impl s rtt dr now rnd = Some (s', out, evs) \<and> trades_ok s'"
proof -
  obtain bs nums evs where t: "tick_buckets rtt dr now (ts_used_buckets s) (ts_buckets s) = Some (bs, length (filter gb_active bs), nums, evs)"
      "length bs = length (ts_buckets s)" "\<forall>b \<in> set bs. bucket_ok b"
    using tick_buckets_ok [of "ts_buckets s" "ts_used_buckets s" 0 rtt dr now] ok by (auto simp: trades_ok_def)
  have "filter gb_active (map shrink_bucket bs) = map shrink_bucket (filter gb_active bs)" by (simp add: filter_map o_def)
  then show ?thesis
    using ok t by (auto simp: tick_impl_def trades_ok_def shrink_ok Let_def)
qed

section \<open>Runs\<close>

datatype trades_input =
  In_Live u16 u64 millis
| In_Resent u16 u64
| In_Tick millis rat millis "nat \<Rightarrow> u64"
| In_Reset millis

definition trades_step :: "trades_state \<Rightarrow> trades_input \<Rightarrow> trades_state option" where
  "trades_step s x =
     (case x of
        In_Live p bt now \<Rightarrow> Some (snd (on_packet_header s p bt now))
      | In_Resent p bt \<Rightarrow> Some (snd (on_packet_resend_header s p bt))
      | In_Tick rtt dr now rnd \<Rightarrow> map_option fst (tick_impl s rtt dr now rnd)
      | In_Reset now \<Rightarrow> Some (full_reset_at s now))"

fun trades_run :: "trades_state \<Rightarrow> trades_input list \<Rightarrow> trades_state option" where
  "trades_run s [] = Some s"
| "trades_run s (x # xs) = (case trades_step s x of None \<Rightarrow> None | Some s \<Rightarrow> trades_run s xs)"

lemma trades_step_ok:
  assumes ok: "trades_ok s"
  shows "\<exists>s'. trades_step s x = Some s' \<and> trades_ok s'"
proof (cases x)
  case (In_Tick rtt dr now rnd)
  then show ?thesis using trades_ok_tick [OF ok, of rtt dr now rnd] by (auto simp: trades_step_def)
next
  case (In_Reset now)
  have "trades_ok (full_reset_at s now)" using trades_ok_reset [OF ok, of now] by (simp add: full_reset_at_def trades_ok_def reset_gap_buckets_def)
  then show ?thesis using In_Reset by (simp add: trades_step_def)
qed (use ok in \<open>simp_all add: trades_step_def trades_ok_header trades_ok_resend\<close>)

lemma trades_run_ok: "trades_ok s \<Longrightarrow> \<exists>s'. trades_run s xs = Some s' \<and> trades_ok s'"
proof (induction xs arbitrary: s)
  case (Cons x xs)
  from trades_step_ok [OF Cons.prems, of x] Cons.IH show ?case by auto
qed simp

text \<open>C36: Gap tracking never panics and its counters are right.  Over every run of live packets, resent packets, ticks
  and resets, with arbitrary numbers and times, every step completes, in particular no tick indexes past the
  bitmap of a bucket; \<open>used_buckets\<close> is always the number of open buckets, and the bitmap of an open bucket covers its gap.\<close>

theorem trades_tracking_safe: "\<exists>s. trades_run trades_new xs = Some s \<and> trades_ok s"
  by (rule trades_run_ok [OF trades_ok_new])

end
