(* ===== verification/Trades_Gaps.thy ===== *)
theory Trades_Gaps
  imports Trades_Correct
begin

text \<open>
  The open buckets of \<open>Trades\<close> name exactly the missing packets.  Packets of a session are numbered by natural
  numbers \<open>k\<close>, sent on the wire as the wrapping number \<open>n0 + k\<close>; the proof relates the buckets to the set of
  numbers received so far.
\<close>

section \<open>Packet numbers\<close>

definition num :: "u16 \<Rightarrow> nat \<Rightarrow> u16" where
  "num n0 k = n0 + of_nat k"

lemma num_diff: "a \<le> b \<Longrightarrow> b \<le> 3001 \<Longrightarrow> unat (num n0 b - num n0 a) = b - a"
proof -
  assume "a \<le> b" "b \<le> 3001"
  then have "num n0 b - num n0 a = of_nat (b - a)" by (simp add: num_def of_nat_diff)
  with \<open>b \<le> 3001\<close> show ?thesis by (simp add: unat_of_nat)
qed

lemma num_diff_wrap:
  assumes "b < a" "a \<le> 3001"
  shows "unat (num n0 b - num n0 a) = 65536 - (a - b)"
proof -
  have z: "(of_nat 65536 :: u16) = 0" by simp
  have "(of_nat (65536 - (a - b)) :: u16) = of_nat 65536 - of_nat (a - b)" using assms by (intro of_nat_diff) simp
  also have "\<dots> = num n0 b - num n0 a" using assms unfolding z by (simp add: num_def of_nat_diff)
  finally have e: "num n0 b - num n0 a = of_nat (65536 - (a - b))" by (rule sym)
  show ?thesis unfolding e using assms by (subst unat_of_nat) simp
qed

lemma num_eq_iff: "a \<le> 3001 \<Longrightarrow> b \<le> 3001 \<Longrightarrow> num n0 a = num n0 b \<longleftrightarrow> a = b"
  using num_diff [of a b n0] num_diff [of b a n0] by (cases "a \<le> b") auto

lemma num_Suc: "num n0 k + 1 = num n0 (k + 1)"
  by (simp add: num_def)

lemma num_pred: "1 \<le> k \<Longrightarrow> num n0 k - 1 = num n0 (k - 1)"
  by (simp add: num_def of_nat_diff)

lemma in_range_num:
  assumes "a \<le> e" "e \<le> 3000" "k \<le> 3000"
  shows "is_packet_in_range (num n0 k) (num n0 a) (num n0 e) \<longleftrightarrow> a \<le> k \<and> k \<le> e"
proof (cases "a \<le> k")
  case True
  then show ?thesis using assms by (simp add: is_packet_in_range_def word_le_nat_alt num_diff) arith
next
  case False
  then show ?thesis using assms by (simp add: is_packet_in_range_def word_le_nat_alt num_diff num_diff_wrap)
qed

section \<open>Buckets and the numbers they cover\<close>

definition lo :: "u16 \<Rightarrow> gap_bucket \<Rightarrow> nat" where
  "lo n0 b = unat (gb_start_num b - n0)"

definition hi :: "u16 \<Rightarrow> gap_bucket \<Rightarrow> nat" where
  "hi n0 b = unat (gb_end_num b - n0)"

definition inside :: "u16 \<Rightarrow> gap_bucket \<Rightarrow> nat \<Rightarrow> bool" where
  "inside n0 b k \<longleftrightarrow> gb_active b \<and> lo n0 b \<le> k \<and> k \<le> hi n0 b"

definition bucket_tracks :: "u16 \<Rightarrow> nat \<Rightarrow> nat set \<Rightarrow> millis \<Rightarrow> gap_bucket \<Rightarrow> bool" where
  "bucket_tracks n0 m R T b \<longleftrightarrow>
     (if gb_active b
      then 1 \<le> lo n0 b \<and> lo n0 b \<le> hi n0 b \<and> hi n0 b < m \<and> hi n0 b - lo n0 b < length (gb_recvd b)
           \<and> (\<forall>k. inside n0 b k \<longrightarrow> (gb_recvd b ! (k - lo n0 b) \<longleftrightarrow> k \<in> R))
           \<and> gb_retry_count b = 0 \<and> gb_last_retry_ms b \<le> T
      else (\<forall>r \<in> set (gb_recvd b). \<not> r))"

definition buckets_track :: "u16 \<Rightarrow> nat \<Rightarrow> nat set \<Rightarrow> nat set \<Rightarrow> millis \<Rightarrow> gap_bucket list \<Rightarrow> bool" where
  "buckets_track n0 m L R T bs \<longleftrightarrow>
     (\<forall>i < length bs. bucket_tracks n0 m R T (bs ! i))
     \<and> (\<forall>i < length bs. \<forall>j < length bs. \<forall>k. inside n0 (bs ! i) k \<longrightarrow> inside n0 (bs ! j) k \<longrightarrow> i = j)
     \<and> (\<forall>k. 1 \<le> k \<longrightarrow> k \<le> m \<longrightarrow> k \<notin> L \<longrightarrow> (\<exists>i < length bs. inside n0 (bs ! i) k))"

lemma bucket_nums: "gb_start_num b = num n0 (lo n0 b)" "gb_end_num b = num n0 (hi n0 b)"
  by (simp_all add: lo_def hi_def num_def)

lemma lo_hi_num: "k \<le> 3000 \<Longrightarrow> unat (num n0 k - n0) = k"
  using num_diff [of 0 k n0] by (simp add: num_def)

lemma gap_size_lo_hi: "lo n0 b \<le> hi n0 b \<Longrightarrow> hi n0 b \<le> 3000 \<Longrightarrow> gap_size b = hi n0 b - lo n0 b + 1"
  using num_diff [of "lo n0 b" "hi n0 b" n0] by (simp add: gap_size_def range_size_def flip: bucket_nums)

lemma inside_in_range:
  assumes "bucket_tracks n0 m R T b" "m \<le> 3000" "k \<le> 3000"
  shows "gb_active b \<and> is_packet_in_range (num n0 k) (gb_start_num b) (gb_end_num b) \<longleftrightarrow> inside n0 b k"
  using assms in_range_num [of "lo n0 b" "hi n0 b" k n0]
  by (auto simp: inside_def bucket_tracks_def simp flip: bucket_nums)

lemma tracks_other:
  assumes "bucket_tracks n0 m R T b" "\<not> inside n0 b k" "m \<le> m'"
  shows "bucket_tracks n0 m' (insert k R) T b"
  using assms by (auto simp: bucket_tracks_def)

text \<open>Replacing one bucket.\<close>

lemma buckets_track_update:
  assumes "i < length bs" and "bucket_tracks n0 m R T b"
    and "\<And>j. j < length bs \<Longrightarrow> j \<noteq> i \<Longrightarrow> bucket_tracks n0 m R T (bs ! j)"
    and "\<And>j k. j < length bs \<Longrightarrow> j \<noteq> i \<Longrightarrow> inside n0 b k \<Longrightarrow> \<not> inside n0 (bs ! j) k"
    and "\<And>j j' k. j < length bs \<Longrightarrow> j' < length bs \<Longrightarrow> inside n0 (bs ! j) k \<Longrightarrow> inside n0 (bs ! j') k \<Longrightarrow> j = j'"
    and "\<And>k. 1 \<le> k \<Longrightarrow> k \<le> m \<Longrightarrow> k \<notin> L \<Longrightarrow> inside n0 b k \<or> (\<exists>j < length bs. j \<noteq> i \<and> inside n0 (bs ! j) k)"
  shows "buckets_track n0 m L R T (bs[i := b])"
proof -
  have cover: "\<exists>j < length bs. inside n0 (bs[i := b] ! j) k" if "1 \<le> k" "k \<le> m" "k \<notin> L" for k
    using assms(6) [OF that] assms(1) by (metis nth_list_update_eq nth_list_update_neq)
  have uniq: "j = j'" if "j < length bs" "j' < length bs" "inside n0 (bs[i := b] ! j) k" "inside n0 (bs[i := b] ! j') k" for j j' k
    using that assms(1,4,5) by (metis nth_list_update_eq nth_list_update_neq)
  show ?thesis
    unfolding buckets_track_def using cover uniq assms(1,2,3) by (auto simp: nth_list_update)
qed

section \<open>Marking, extending and opening a bucket\<close>

lemma mark_fields [simp]: "lo n0 (mark_received p b) = lo n0 b" "hi n0 (mark_received p b) = hi n0 b"
  "inside n0 (mark_received p b) k = inside n0 b k" "gap_size (mark_received p b) = gap_size b"
  by (simp_all add: lo_def hi_def inside_def mark_received_def gap_size_def Let_def)

lemma mark_tracks:
  assumes t: "bucket_tracks n0 m R T b" and k: "inside n0 b k" and m: "m \<le> 3000"
  shows "bucket_tracks n0 m (insert k R) T (mark_received (num n0 k) b)"
proof -
  have b: "lo n0 b \<le> k" "k \<le> hi n0 b" "hi n0 b < m" "hi n0 b - lo n0 b < length (gb_recvd b)" "gb_active b"
    using t k by (auto simp: bucket_tracks_def inside_def)
  then have "unat (num n0 k - gb_start_num b) = k - lo n0 b"
    using m num_diff [of "lo n0 b" k n0] by (simp flip: bucket_nums)
  moreover have "k - lo n0 b < length (gb_recvd b)" using b by linarith
  ultimately have e: "mark_received (num n0 k) b = b\<lparr>gb_recvd := (gb_recvd b)[k - lo n0 b := True]\<rparr>"
    by (simp add: mark_received_def)
  have "(gb_recvd b)[k - lo n0 b := True] ! (j - lo n0 b) \<longleftrightarrow> j \<in> insert k R" if "inside n0 b j" for j
  proof (cases "j = k")
    case False
    then have "j - lo n0 b \<noteq> k - lo n0 b" using that b(1) by (auto simp: inside_def)
    then show ?thesis using False that t b(5) by (simp add: bucket_tracks_def)
  qed (use \<open>k - lo n0 b < length (gb_recvd b)\<close> in simp)
  then show ?thesis
    using t b(5) mark_fields(1,2,3) [of n0 "num n0 k" b] unfolding bucket_tracks_def e by simp
qed

lemma extend_recvd:
  assumes "gap_size b \<le> length (gb_recvd b)" "gap_size b < n" "n = range_size (gb_start_num b) t" "j < n"
  shows "gb_recvd (extend_bucket t b) ! j \<longleftrightarrow> (if j < gap_size b then gb_recvd b ! j else j = gap_size b)"
    and "n \<le> length (gb_recvd (extend_bucket t b))"
  using assms by (auto simp: extend_bucket_def Let_def nth_append nth_resize nth_list_update min_def)

lemma extend_fields: "gb_start_num (extend_bucket t b) = gb_start_num b" "gb_end_num (extend_bucket t b) = t"
  "gb_last_retry_ms (extend_bucket t b) = gb_last_retry_ms b"
  "gb_retry_count b = 0 \<Longrightarrow> gb_retry_count (extend_bucket t b) = 0"
  by (simp_all add: extend_bucket_def Let_def)

lemma extend_tracks:
  assumes t: "bucket_tracks n0 m R T b" and b: "gb_active b" "hi n0 b = m - 1" and R: "R \<subseteq> {..m}" "m \<in> R"
    and k: "m + 1 < k" "k \<le> 3000"
  shows "bucket_tracks n0 k (insert k R) T (extend_bucket (num n0 (k - 1)) b)"
    and "inside n0 (extend_bucket (num n0 (k - 1)) b) j \<longleftrightarrow> lo n0 b \<le> j \<and> j \<le> k - 1"
proof -
  let ?b = "extend_bucket (num n0 (k - 1)) b"
  have l: "1 \<le> lo n0 b" "lo n0 b \<le> m - 1" "1 \<le> m" "hi n0 b - lo n0 b < length (gb_recvd b)"
    using t b by (auto simp: bucket_tracks_def)
  have lh: "lo n0 ?b = lo n0 b" "hi n0 ?b = k - 1"
    using k by (simp_all add: lo_def hi_def extend_fields lo_hi_num)
  show ins: "inside n0 ?b j \<longleftrightarrow> lo n0 b \<le> j \<and> j \<le> k - 1" for j
    unfolding inside_def lh using b(1) by simp
  have gs: "gap_size b = m - lo n0 b" using gap_size_lo_hi [of n0 b] l b(2) k by linarith
  have n: "k - lo n0 b = range_size (gb_start_num b) (num n0 (k - 1))"
    using k l num_diff [of "lo n0 b" "k - 1" n0] by (simp add: range_size_def flip: bucket_nums)
  have gl: "gap_size b \<le> length (gb_recvd b)" "gap_size b < k - lo n0 b" using gs l b(2) k by linarith+
  have bits: "gb_recvd ?b ! (j - lo n0 b) \<longleftrightarrow> j \<in> insert k R" if j: "inside n0 ?b j" for j
  proof -
    have jl: "lo n0 b \<le> j" "j \<le> k - 1" using j ins by auto
    have "gb_recvd ?b ! (j - lo n0 b) \<longleftrightarrow> (if j - lo n0 b < gap_size b then gb_recvd b ! (j - lo n0 b) else j - lo n0 b = gap_size b)"
      by (rule extend_recvd(1) [OF gl n]) (use jl k l in linarith)
    also have "\<dots> \<longleftrightarrow> j \<in> insert k R"
    proof (cases "j < m")
      case True
      then have "inside n0 b j" using b jl(1) by (simp add: inside_def)
      then have "gb_recvd b ! (j - lo n0 b) \<longleftrightarrow> j \<in> R" using t b(1) by (simp add: bucket_tracks_def)
      then show ?thesis using True gs jl k l by auto
    next
      case False
      then have "j - lo n0 b = gap_size b \<longleftrightarrow> j = m" "\<not> j - lo n0 b < gap_size b" using gs jl l by auto
      then show ?thesis using False R jl k by auto
    qed
    finally show ?thesis .
  qed
  have "k - lo n0 b \<le> length (gb_recvd ?b)" by (rule extend_recvd(2) [OF gl n, of 0]) (use k l in linarith)
  then show "bucket_tracks n0 k (insert k R) T ?b"
    using t b(1) l k bits unfolding bucket_tracks_def lh by (simp add: extend_fields) linarith
qed

lemma open_tracks:
  fixes n0 :: u16
  assumes clean: "\<forall>r \<in> set (gb_recvd b). \<not> r" and R: "R \<subseteq> {..m}" and k: "m + 1 < k" "k \<le> 3000" and now: "now \<le> T"
  defines "b' \<equiv> open_bucket (num n0 (m + 1)) (num n0 (k - 1)) now (k - 1 - m) (b\<lparr>gb_active := True\<rparr>)"
  shows "bucket_tracks n0 k (insert k R) T b'" and "inside n0 b' j \<longleftrightarrow> m < j \<and> j < k"
proof -
  have lh: "lo n0 b' = m + 1" "hi n0 b' = k - 1"
    using k by (simp_all add: b'_def lo_def hi_def open_bucket_def lo_hi_num)
  have act: "gb_active b'" by (simp add: b'_def)
  show ins: "inside n0 b' j \<longleftrightarrow> m < j \<and> j < k" for j unfolding inside_def lh using k act by auto
  have len: "k - 1 - m \<le> length (gb_recvd b')" by (simp add: b'_def open_bucket_def)
  have unset: "\<not> gb_recvd b' ! i" if "i < k - 1 - m" for i
  proof (cases "length (gb_recvd b) < k - 1 - m")
    case True
    then have "gb_recvd b' = resize (k - 1 - m) False (gb_recvd b)" by (simp add: b'_def open_bucket_def)
    moreover have "\<not> gb_recvd b ! i" if "i < length (gb_recvd b)" by (rule bspec [OF clean nth_mem [OF that]])
    ultimately show ?thesis using that by (simp add: nth_resize)
  next
    case False
    then have "gb_recvd b' = fill_prefix (k - 1 - m) False (gb_recvd b)" by (simp add: b'_def open_bucket_def)
    then show ?thesis using that False by (simp add: nth_fill_prefix)
  qed
  have "\<not> gb_recvd b' ! (j - (m + 1))" if "inside n0 b' j" for j by (rule unset) (use that ins [of j] in linarith)
  moreover have "j \<notin> insert k R" if "inside n0 b' j" for j using that ins [of j] R by auto
  moreover have "1 \<le> m + 1" "m + 1 \<le> k - 1" "k - 1 < k" "k - 1 - (m + 1) < length (gb_recvd b')" using k len by linarith+
  moreover have "gb_retry_count b' = 0" "gb_last_retry_ms b' \<le> T" using now by (simp_all add: b'_def open_bucket_def)
  ultimately show "bucket_tracks n0 k (insert k R) T b'"
    using act unfolding bucket_tracks_def lh by presburger
qed

section \<open>Tracking state\<close>

text \<open>\<open>m\<close> is the newest number, \<open>L\<close> the numbers received live, \<open>R\<close> all numbers received, \<open>J\<close> a bound on the buckets
  in use, and all times lie in the 30 seconds before \<open>T\<close>.\<close>

definition tracks :: "u16 \<Rightarrow> nat \<Rightarrow> nat set \<Rightarrow> nat set \<Rightarrow> nat \<Rightarrow> millis \<Rightarrow> trades_state \<Rightarrow> bool" where
  "tracks n0 m L R J T s \<longleftrightarrow>
     ts_trades_started s \<and> ts_last_packet_num s = num n0 m \<and> m \<le> 3000
     \<and> T - TRADES_PAUSE_TIMEOUT_MS \<le> ts_last_packet_time_ms s \<and> ts_last_packet_time_ms s \<le> T
     \<and> length (ts_buckets s) = MAX_GAP_BUCKETS \<and> ts_used_buckets s = length (filter gb_active (ts_buckets s))
     \<and> ts_used_buckets s \<le> J \<and> buckets_track n0 m L R T (ts_buckets s)
     \<and> 0 \<in> L \<and> m \<in> L \<and> L \<subseteq> R \<and> R \<subseteq> {..m} \<and> ts_last_check_missing_ms s = 0"

lemma tracksD:
  assumes "tracks n0 m L R J T s"
  shows "ts_last_packet_num s = num n0 m" "m \<le> 3000" "length (ts_buckets s) = MAX_GAP_BUCKETS"
    "ts_used_buckets s = length (filter gb_active (ts_buckets s))" "ts_used_buckets s \<le> J"
    "buckets_track n0 m L R T (ts_buckets s)" "0 \<in> L" "m \<in> L" "L \<subseteq> R" "R \<subseteq> {..m}"
    "ts_trades_started s" "\<lbrakk>T - TRADES_PAUSE_TIMEOUT_MS \<le> now; now \<le> T\<rbrakk> \<Longrightarrow> \<bar>now - ts_last_packet_time_ms s\<bar> \<le> TRADES_PAUSE_TIMEOUT_MS"
  using assms by (auto simp: tracks_def)

lemma buckets_trackD:
  assumes "buckets_track n0 m L R T bs"
  shows "i < length bs \<Longrightarrow> bucket_tracks n0 m R T (bs ! i)"
    and "i < length bs \<Longrightarrow> j < length bs \<Longrightarrow> inside n0 (bs ! i) k \<Longrightarrow> inside n0 (bs ! j) k \<Longrightarrow> i = j"
    and "1 \<le> k \<Longrightarrow> k \<le> m \<Longrightarrow> k \<notin> L \<Longrightarrow> \<exists>i < length bs. inside n0 (bs ! i) k"
  using assms unfolding buckets_track_def by blast+

lemma inside_less:
  assumes "bucket_tracks n0 m R T b" "inside n0 b k"
  shows "k < m" and "1 \<le> k"
  using assms by (auto simp: bucket_tracks_def inside_def)

lemma tracks_remember [simp]: "tracks n0 m L R J T (snd (remember_packet s p bt)) = tracks n0 m L R J T s"
  by (simp add: tracks_def remember_packet_def Let_def)

lemma first_index_is:
  assumes "i < length xs" "p (xs ! i)" "\<And>j. j < length xs \<Longrightarrow> p (xs ! j) \<Longrightarrow> j = i"
  shows "first_index p xs = Some i"
proof (cases "first_index p xs")
  case None
  from first_index_None [OF this nth_mem [OF assms(1)]] assms(2) show ?thesis by simp
next
  case (Some j)
  from assms(3) [OF first_index_Some [OF Some]] Some show ?thesis by simp
qed

lemma find_inside:
  assumes tr: "tracks n0 m L R J T s" and i: "i < length (ts_buckets s)" "inside n0 (ts_buckets s ! i) k"
  shows "find_bucket_for_packet s (num n0 k) ext f t = (Some i, s)"
proof -
  note bt = tracksD(6) [OF tr]
  have k: "k \<le> 3000" using inside_less(1) [OF buckets_trackD(1) [OF bt i(1)] i(2)] tracksD(2) [OF tr] by simp
  have eq: "gb_active (ts_buckets s ! j) \<and> is_packet_in_range (num n0 k) (gb_start_num (ts_buckets s ! j)) (gb_end_num (ts_buckets s ! j))
      \<longleftrightarrow> inside n0 (ts_buckets s ! j) k" if "j < length (ts_buckets s)" for j
    by (rule inside_in_range [OF buckets_trackD(1) [OF bt that] tracksD(2) [OF tr] k])
  have "ts_used_buckets s \<noteq> 0"
    using i nth_mem [OF i(1)] unfolding tracksD(4) [OF tr] by (auto simp: inside_def filter_empty_conv)
  moreover have "first_index (\<lambda>b. gb_active b \<and> is_packet_in_range (num n0 k) (gb_start_num b) (gb_end_num b)) (ts_buckets s) = Some i"
    using eq i buckets_trackD(2) [OF bt _ i(1)] by (intro first_index_is) auto
  ultimately show ?thesis by (simp add: find_bucket_for_packet_def)
qed

text \<open>A number that no bucket covers: nothing is found, unless the last bucket is extended.\<close>

lemma find_outside:
  assumes tr: "tracks n0 m L R J T s" and k: "k \<le> 3000" and out: "\<forall>i < length (ts_buckets s). \<not> inside n0 (ts_buckets s ! i) k"
  shows "find_bucket_for_packet s (num n0 k) False f t = (None, s)"
    and "find_bucket_for_packet s (num n0 k) True f t = (None, s)
      \<or> (\<exists>i. i < length (ts_buckets s) \<and> extendable f t (ts_buckets s ! i)
           \<and> find_bucket_for_packet s (num n0 k) True f t =
               (Some i, s\<lparr>ts_buckets := (ts_buckets s)[i := extend_bucket t (ts_buckets s ! i)], ts_last_packet_num := num n0 k\<rparr>))"
proof -
  have no: "\<not> (gb_active (ts_buckets s ! i) \<and> is_packet_in_range (num n0 k) (gb_start_num (ts_buckets s ! i)) (gb_end_num (ts_buckets s ! i)))"
    if "i < length (ts_buckets s)" for i
    using inside_in_range [OF buckets_trackD(1) [OF tracksD(6) [OF tr] that] tracksD(2) [OF tr] k] out that by blast
  obtain r s' where f: "find_bucket_for_packet s (num n0 k) False f t = (r, s')" by fastforce
  then have "r = None \<and> s' = s" by (cases rule: find_bucket_cases) (use no in auto)
  with f show "find_bucket_for_packet s (num n0 k) False f t = (None, s)" by simp
  obtain r s' where g: "find_bucket_for_packet s (num n0 k) True f t = (r, s')" by fastforce
  then have "r = None \<and> s' = s \<or> (\<exists>i. i < length (ts_buckets s) \<and> extendable f t (ts_buckets s ! i) \<and> r = Some i
      \<and> s' = s\<lparr>ts_buckets := (ts_buckets s)[i := extend_bucket t (ts_buckets s ! i)], ts_last_packet_num := num n0 k\<rparr>)"
    by (cases rule: find_bucket_cases) (use no in auto)
  with g show "find_bucket_for_packet s (num n0 k) True f t = (None, s)
      \<or> (\<exists>i. i < length (ts_buckets s) \<and> extendable f t (ts_buckets s ! i)
           \<and> find_bucket_for_packet s (num n0 k) True f t =
               (Some i, s\<lparr>ts_buckets := (ts_buckets s)[i := extend_bucket t (ts_buckets s ! i)], ts_last_packet_num := num n0 k\<rparr>))"
    by auto
qed

section \<open>Steps\<close>

lemma mark_step:
  assumes tr: "tracks n0 m L R J T s" and i: "i < length (ts_buckets s)" "inside n0 (ts_buckets s ! i) k"
    and L: "L' = L \<or> L' = insert k L"
  shows "tracks n0 m L' (insert k R) J T (mark_in s i (num n0 k))"
proof -
  note bt = tracksD(6) [OF tr]
  let ?bs = "ts_buckets s" and ?b = "mark_received (num n0 k) (ts_buckets s ! i)"
  have km: "k < m" by (rule inside_less(1) [OF buckets_trackD(1) [OF bt i(1)] i(2)])
  have "buckets_track n0 m L' (insert k R) T (?bs[i := ?b])"
  proof (rule buckets_track_update [OF i(1)])
    show "bucket_tracks n0 m (insert k R) T ?b"
      by (rule mark_tracks [OF buckets_trackD(1) [OF bt i(1)] i(2) tracksD(2) [OF tr]])
    show "bucket_tracks n0 m (insert k R) T (?bs ! j)" if "j < length ?bs" "j \<noteq> i" for j
      using tracks_other [OF buckets_trackD(1) [OF bt that(1)]] buckets_trackD(2) [OF bt that(1) i(1)] i(2) that(2) by blast
    show "\<not> inside n0 (?bs ! j) j'" if "j < length ?bs" "j \<noteq> i" "inside n0 ?b j'" for j j'
      using buckets_trackD(2) [OF bt that(1) i(1)] that(2,3) by auto
    show "j = j'" if "j < length ?bs" "j' < length ?bs" "inside n0 (?bs ! j) x" "inside n0 (?bs ! j') x" for j j' x
      by (rule buckets_trackD(2) [OF bt that])
    show "inside n0 ?b x \<or> (\<exists>j < length ?bs. j \<noteq> i \<and> inside n0 (?bs ! j) x)" if "1 \<le> x" "x \<le> m" "x \<notin> L'" for x
      using buckets_trackD(3) [OF bt that(1,2)] that(3) L by auto
  qed
  moreover have "length (filter gb_active (?bs[i := ?b])) = length (filter gb_active ?bs)"
    using count_update [OF i(1), of gb_active ?b] by (simp split: if_splits)
  ultimately show ?thesis using tr L km by (auto simp: tracks_def mark_in_def)
qed

lemma next_step:
  assumes tr: "tracks n0 m L R J T s" and k: "k = m + 1" "k \<le> 3000" and now: "T - TRADES_PAUSE_TIMEOUT_MS \<le> now" "now \<le> T"
  shows "tracks n0 k (insert k L) (insert k R) J T (s\<lparr>ts_last_packet_num := num n0 k, ts_last_packet_time_ms := now\<rparr>)"
proof -
  note bt = tracksD(6) [OF tr]
  have "bucket_tracks n0 k (insert k R) T (ts_buckets s ! i)" if i: "i < length (ts_buckets s)" for i
    using tracks_other [OF buckets_trackD(1) [OF bt i], of k k] inside_less(1) [OF buckets_trackD(1) [OF bt i], of k] k by linarith
  moreover have "\<exists>i < length (ts_buckets s). inside n0 (ts_buckets s ! i) x" if "1 \<le> x" "x \<le> k" "x \<notin> insert k L" for x
    using buckets_trackD(3) [OF bt, of x] that k(1) by auto
  ultimately have "buckets_track n0 k (insert k L) (insert k R) T (ts_buckets s)"
    using buckets_trackD(2) [OF bt] unfolding buckets_track_def by blast
  then show ?thesis using tr k now by (auto simp: tracks_def)
qed

text \<open>Replacing bucket \<open>i\<close> by one that also covers the new gap.\<close>

lemma gap_step:
  assumes tr: "tracks n0 m L R J T s" and i: "i < length (ts_buckets s)" and k: "m + 1 < k" "k \<le> 3000"
    and b: "bucket_tracks n0 k (insert k R) T b"
    and new: "\<And>x. inside n0 b x \<longleftrightarrow> inside n0 (ts_buckets s ! i) x \<or> m < x \<and> x < k \<or> x = m \<and> old"
  shows "buckets_track n0 k (insert k L) (insert k R) T ((ts_buckets s)[i := b])"
proof (rule buckets_track_update [OF i b])
  let ?bs = "ts_buckets s"
  note bt = tracksD(6) [OF tr]
  have lt: "x < m" if "j < length ?bs" "inside n0 (?bs ! j) x" for j x
    by (rule inside_less(1) [OF buckets_trackD(1) [OF bt that(1)] that(2)])
  show "bucket_tracks n0 k (insert k R) T (?bs ! j)" if "j < length ?bs" "j \<noteq> i" for j
    using tracks_other [OF buckets_trackD(1) [OF bt that(1)], of k k] lt [OF that(1), of k] k by linarith
  show "\<not> inside n0 (?bs ! j) x" if "j < length ?bs" "j \<noteq> i" "inside n0 b x" for j x
    using lt [OF that(1), of x] buckets_trackD(2) [OF bt that(1) i, of x] that(2,3) new [of x] by auto
  show "j = j'" if "j < length ?bs" "j' < length ?bs" "inside n0 (?bs ! j) x" "inside n0 (?bs ! j') x" for j j' x
    by (rule buckets_trackD(2) [OF bt that])
  show "inside n0 b x \<or> (\<exists>j < length ?bs. j \<noteq> i \<and> inside n0 (?bs ! j) x)" if h: "1 \<le> x" "x \<le> k" "x \<notin> insert k L" for x
  proof (cases "x \<le> m")
    case True
    then obtain j where "j < length ?bs" "inside n0 (?bs ! j) x" using buckets_trackD(3) [OF bt h(1)] h(3) by blast
    then show ?thesis using new [of x] by blast
  next
    case False
    then show ?thesis using new [of x] h by auto
  qed
qed

lemma extend_step:
  assumes tr: "tracks n0 m L R J T s" and i: "i < length (ts_buckets s)" and k: "m + 1 < k" "k \<le> 3000"
    and e: "extendable (num n0 (m + 1)) (num n0 (k - 1)) (ts_buckets s ! i)"
    and now: "T - TRADES_PAUSE_TIMEOUT_MS \<le> now" "now \<le> T"
  shows "tracks n0 k (insert k L) (insert k R) J T
    (s\<lparr>ts_buckets := (ts_buckets s)[i := extend_bucket (num n0 (k - 1)) (ts_buckets s ! i)],
       ts_last_packet_num := num n0 k, ts_last_packet_time_ms := now\<rparr>)"
proof -
  let ?b = "ts_buckets s ! i" let ?b' = "extend_bucket (num n0 (k - 1)) ?b"
  have t: "bucket_tracks n0 m R T ?b" by (rule buckets_trackD(1) [OF tracksD(6) [OF tr] i])
  have a: "gb_active ?b" using e by (simp add: extendable_def)
  then have h: "hi n0 ?b < m" "1 \<le> m" "lo n0 ?b \<le> hi n0 ?b" using t by (auto simp: bucket_tracks_def)
  have "num n0 (hi n0 ?b) = num n0 (m + 1) - 2" using e by (simp add: extendable_def flip: bucket_nums)
  also have "\<dots> = num n0 (m - 1)" using h(2) by (simp add: num_def of_nat_diff)
  finally have hi: "hi n0 ?b = m - 1" using num_eq_iff [of "hi n0 ?b" "m - 1" n0] h tracksD(2) [OF tr] by simp
  have mR: "m \<in> R" using tracksD(8,9) [OF tr] by blast
  note ext = extend_tracks [OF t a hi tracksD(10) [OF tr] mR k]
  have new: "inside n0 ?b' x \<longleftrightarrow> inside n0 ?b x \<or> m < x \<and> x < k \<or> x = m \<and> True" for x
    unfolding ext(2) using a hi h k by (auto simp: inside_def)
  have "length (filter gb_active ((ts_buckets s)[i := ?b'])) = length (filter gb_active (ts_buckets s))"
    using count_update [OF i, of gb_active ?b'] by (simp split: if_splits)
  then show ?thesis
    using tr now k gap_step [OF tr i k ext(1) new] by (auto simp: tracks_def)
qed

lemma create_step:
  assumes tr: "tracks n0 m L R J T s" and J: "J < MAX_GAP_BUCKETS" and k: "m + 1 < k" "k \<le> 3000"
    and now: "T - TRADES_PAUSE_TIMEOUT_MS \<le> now" "now \<le> T"
  shows "tracks n0 k (insert k L) (insert k R) (J + 1) T
    ((create_bucket s (num n0 (m + 1)) (num n0 (k - 1)) now)\<lparr>ts_last_packet_num := num n0 k, ts_last_packet_time_ms := now\<rparr>)"
proof -
  have "length (filter gb_active (ts_buckets s)) < length (ts_buckets s)" using tracksD(3,4,5) [OF tr] J by simp
  then obtain b where "b \<in> set (ts_buckets s)" "\<not> gb_active b" by (metis filter_id_conv less_irrefl)
  then obtain i where i: "first_index (\<lambda>b. \<not> gb_active b) (ts_buckets s) = Some i"
    by (cases "first_index (\<lambda>b. \<not> gb_active b) (ts_buckets s)") (auto dest: first_index_None)
  note fi = first_index_Some [OF i]
  let ?b = "ts_buckets s ! i"
  let ?b' = "open_bucket (num n0 (m + 1)) (num n0 (k - 1)) now (k - 1 - m) (?b\<lparr>gb_active := True\<rparr>)"
  have clean: "\<forall>r \<in> set (gb_recvd ?b). \<not> r"
    using buckets_trackD(1) [OF tracksD(6) [OF tr] fi(1)] fi(2) by (simp add: bucket_tracks_def)
  note op = open_tracks [OF clean tracksD(10) [OF tr] k now(2), of n0]
  have new: "inside n0 ?b' x \<longleftrightarrow> inside n0 ?b x \<or> m < x \<and> x < k \<or> x = m \<and> False" for x
    unfolding op(2) using fi(2) by (simp add: inside_def)
  have size: "min (range_size (num n0 (m + 1)) (num n0 (k - 1))) MAX_RECVD_SIZE = k - 1 - m"
    using k num_diff [of "m + 1" "k - 1" n0] by (simp add: range_size_def MAX_RECVD_SIZE_def)
  have "length (filter gb_active ((ts_buckets s)[i := ?b'])) = length (filter gb_active (ts_buckets s)) + 1"
    using count_update [OF fi(1), of gb_active ?b'] fi(2) by simp
  then show ?thesis
    using tr now k i gap_step [OF tr fi(1) k op(1) new] unfolding create_bucket_def size Let_def
    by (auto simp: tracks_def)
qed

section \<open>Arrivals\<close>

lemma tracks_time:
  "tracks n0 m L R J T s \<Longrightarrow> T - TRADES_PAUSE_TIMEOUT_MS \<le> now \<Longrightarrow> now \<le> T \<Longrightarrow> tracks n0 m L R J T (s\<lparr>ts_last_packet_time_ms := now\<rparr>)"
  by (simp add: tracks_def)

lemma tracks_more: "tracks n0 m L R J T s \<Longrightarrow> J \<le> J' \<Longrightarrow> tracks n0 m L R J' T s"
  by (simp add: tracks_def)

lemma header_ahead:
  fixes bt :: u64
  assumes tr: "tracks n0 m L R J T s" and k: "m + 1 < k" "k \<le> 3000" and J: "J < MAX_GAP_BUCKETS"
    and now: "T - TRADES_PAUSE_TIMEOUT_MS \<le> now" "now \<le> T"
  shows "tracks n0 k (insert k L) (insert k R) (J + 1) T (snd (on_packet_header s (num n0 k) bt now))"
proof -
  define s1 where "s1 = snd (remember_packet s (num n0 k) bt)"
  have tr1: "tracks n0 m L R J T s1" using tr by (simp add: s1_def)
  note d = tracksD [OF tr1]
  have ne: "num n0 k \<noteq> num n0 m" "num n0 k \<noteq> num n0 (m + 1)" using k num_eq_iff [of k m n0] num_eq_iff [of k "m + 1" n0] by auto
  have gap: "unat (num n0 k - num n0 (m + 1)) \<le> MAX_RECVD_SIZE" using k num_diff [of "m + 1" k n0] by (simp add: MAX_RECVD_SIZE_def)
  have pred: "num n0 k - 1 = num n0 (k - 1)" using k by (intro num_pred) simp
  have "\<not> inside n0 (ts_buckets s1 ! i) k" if "i < length (ts_buckets s1)" for i
    using inside_less(1) [OF buckets_trackD(1) [OF d(6) that], of k] k by linarith
  then have out: "\<forall>i < length (ts_buckets s1). \<not> inside n0 (ts_buckets s1 ! i) k" by blast
  from find_outside(2) [OF tr1 k(2) out, of "num n0 (m + 1)" "num n0 (k - 1)"] show ?thesis
  proof (elim disjE exE conjE)
    assume f: "find_bucket_for_packet s1 (num n0 k) True (num n0 (m + 1)) (num n0 (k - 1)) = (None, s1)"
    have "ts_used_buckets s1 < MAX_GAP_BUCKETS" using d(5) J by simp
    then have "snd (on_packet_header s (num n0 k) bt now) =
        (create_bucket s1 (num n0 (m + 1)) (num n0 (k - 1)) now)\<lparr>ts_last_packet_num := num n0 k, ts_last_packet_time_ms := now\<rparr>"
      using d(11) d(12) [OF now] ne gap f by (simp add: on_packet_header_def d(1) num_Suc pred Let_def flip: s1_def)
    then show ?thesis using create_step [OF tr1 J k now] by simp
  next
    fix i
    let ?b = "ts_buckets s1 ! i"
    assume i: "i < length (ts_buckets s1)" and e: "extendable (num n0 (m + 1)) (num n0 (k - 1)) ?b"
      and f: "find_bucket_for_packet s1 (num n0 k) True (num n0 (m + 1)) (num n0 (k - 1)) =
        (Some i, s1\<lparr>ts_buckets := (ts_buckets s1)[i := extend_bucket (num n0 (k - 1)) ?b], ts_last_packet_num := num n0 k\<rparr>)"
    have "bucket_tracks n0 m R T ?b" by (rule buckets_trackD(1) [OF d(6) i])
    then have "lo n0 ?b \<le> k - 1" using e k by (auto simp: bucket_tracks_def extendable_def)
    then have "\<not> is_packet_in_range (num n0 k) (gb_start_num ?b) (num n0 (k - 1))"
      using in_range_num [of "lo n0 ?b" "k - 1" k n0] k unfolding bucket_nums(1) [of ?b n0] by linarith
    then have "snd (on_packet_header s (num n0 k) bt now) =
        s1\<lparr>ts_buckets := (ts_buckets s1)[i := extend_bucket (num n0 (k - 1)) ?b], ts_last_packet_num := num n0 k, ts_last_packet_time_ms := now\<rparr>"
      using d(11) d(12) [OF now] ne i f by (simp add: on_packet_header_def d(1) num_Suc pred extend_fields Let_def flip: s1_def)
    then show ?thesis using tracks_more [OF extend_step [OF tr1 i k e now], of "J + 1"] by simp
  qed
qed

lemma header_behind:
  fixes bt :: u64
  assumes tr: "tracks n0 m L R J T s" and k: "k \<le> m" "k \<notin> L" and now: "T - TRADES_PAUSE_TIMEOUT_MS \<le> now" "now \<le> T"
  shows "tracks n0 m (insert k L) (insert k R) J T (snd (on_packet_header s (num n0 k) bt now))"
proof -
  define s1 where "s1 = snd (remember_packet s (num n0 k) bt)"
  have tr1: "tracks n0 m L R J T s1" using tr by (simp add: s1_def)
  note d = tracksD [OF tr1]
  have "1 \<le> k" "k \<noteq> m" using k(2) d(7,8) by (auto simp: Suc_le_eq intro: gr0I)
  then obtain i where i: "i < length (ts_buckets s1)" "inside n0 (ts_buckets s1 ! i) k"
    using buckets_trackD(3) [OF d(6)] k by blast
  have ne: "num n0 k \<noteq> num n0 m" "num n0 k \<noteq> num n0 (m + 1)"
    using k(1) \<open>k \<noteq> m\<close> d(2) num_eq_iff [of k m n0] num_eq_iff [of k "m + 1" n0] by auto
  have "is_packet_in_range (num n0 k) (gb_start_num (ts_buckets s1 ! i)) (gb_end_num (ts_buckets s1 ! i))"
    using inside_in_range [OF buckets_trackD(1) [OF d(6) i(1)] d(2), of k] i(2) k(1) d(2) by simp
  then have "snd (on_packet_header s (num n0 k) bt now) = (mark_in s1 i (num n0 k))\<lparr>ts_last_packet_time_ms := now\<rparr>"
    using d(11) d(12) [OF now] ne by (simp add: on_packet_header_def d(1) num_Suc find_inside [OF tr1 i] Let_def flip: s1_def)
  then show ?thesis using tracks_time [OF mark_step [OF tr1 i] now] by simp
qed

lemma header_next:
  fixes bt :: u64
  assumes tr: "tracks n0 m L R J T s" and k: "k = m + 1" "k \<le> 3000" and now: "T - TRADES_PAUSE_TIMEOUT_MS \<le> now" "now \<le> T"
  shows "tracks n0 k (insert k L) (insert k R) J T (snd (on_packet_header s (num n0 k) bt now))"
proof -
  define s1 where "s1 = snd (remember_packet s (num n0 k) bt)"
  have tr1: "tracks n0 m L R J T s1" using tr by (simp add: s1_def)
  note d = tracksD [OF tr1]
  have ne: "num n0 k \<noteq> num n0 m" using k num_eq_iff [of k m n0] by auto
  have "num n0 m + 1 = num n0 k" using k by (simp add: num_Suc)
  then have "snd (on_packet_header s (num n0 k) bt now) = s1\<lparr>ts_last_packet_num := num n0 k, ts_last_packet_time_ms := now\<rparr>"
    using d(11) d(12) [OF now] ne by (simp add: on_packet_header_def d(1) Let_def flip: s1_def)
  then show ?thesis using next_step [OF tr1 k now] by simp
qed

lemma resend_step:
  assumes tr: "tracks n0 m L R J T s" and k: "k \<le> 3000"
  shows "tracks n0 m L (if k \<le> m then insert k R else R) J T (snd (on_packet_resend_header s (num n0 k) bt))"
proof (cases "\<exists>i < length (ts_buckets s). inside n0 (ts_buckets s ! i) k")
  case True
  then obtain i where i: "i < length (ts_buckets s)" "inside n0 (ts_buckets s ! i) k" by blast
  have "k < m" by (rule inside_less(1) [OF buckets_trackD(1) [OF tracksD(6) [OF tr] i(1)] i(2)])
  then show ?thesis using mark_step [OF tr i, of L] find_inside [OF tr i]
    by (simp add: on_packet_resend_header_def case_prod_beta Let_def)
next
  case False
  have "k \<in> R" if "k \<le> m"
    using buckets_trackD(3) [OF tracksD(6) [OF tr], of k] that False tracksD(7,9) [OF tr] by (cases "k = 0") (auto simp: Suc_le_eq)
  then have "(if k \<le> m then insert k R else R) = R" by auto
  moreover have "find_bucket_for_packet s (num n0 k) False 0 0 = (None, s)"
    by (rule find_outside(1) [OF tr k]) (use False in blast)
  ultimately show ?thesis using tr by (simp add: on_packet_resend_header_def case_prod_beta Let_def)
qed

section \<open>Runs\<close>

datatype arrival = Live nat u64 millis | Resent nat u64

fun arrive :: "u16 \<Rightarrow> trades_state \<Rightarrow> arrival \<Rightarrow> trades_state" where
  "arrive n0 s (Live k bt now) = snd (on_packet_header s (num n0 k) bt now)"
| "arrive n0 s (Resent k bt) = snd (on_packet_resend_header s (num n0 k) bt)"

text \<open>What a reader of the stream knows: the newest live number and the numbers received.\<close>

fun observe :: "nat \<times> nat set \<Rightarrow> arrival list \<Rightarrow> nat \<times> nat set" where
  "observe (m, R) [] = (m, R)"
| "observe (m, R) (Live k bt now # as) = observe (max m k, insert k R) as"
| "observe (m, R) (Resent k bt # as) = observe (m, if k \<le> m then insert k R else R) as"

definition missing_nums :: "arrival list \<Rightarrow> nat set" where
  "missing_nums as = (case observe (0, {0}) as of (m, R) \<Rightarrow> {1..m} - R)"

fun live_nums :: "arrival list \<Rightarrow> nat list" where
  "live_nums [] = []"
| "live_nums (Live k bt now # as) = k # live_nums as"
| "live_nums (Resent k bt # as) = live_nums as"

fun jumps :: "nat \<Rightarrow> arrival list \<Rightarrow> nat" where
  "jumps m [] = 0"
| "jumps m (Live k bt now # as) = (if m + 1 < k then 1 else 0) + jumps (max m k) as"
| "jumps m (Resent k bt # as) = jumps m as"

text \<open>Numbers and times of a session within which nothing wraps and no pause is detected.\<close>

fun arrival_ok :: "millis \<Rightarrow> arrival \<Rightarrow> bool" where
  "arrival_ok t0 (Live k bt now) \<longleftrightarrow> k \<le> MAX_RECVD_SIZE \<and> t0 \<le> now \<and> now \<le> t0 + TRADES_PAUSE_TIMEOUT_MS"
| "arrival_ok t0 (Resent k bt) \<longleftrightarrow> k \<le> MAX_RECVD_SIZE"

lemma live_step:
  assumes tr: "tracks n0 m L R J T s" and k: "k \<le> 3000" "k \<notin> L" and J: "m + 1 < k \<longrightarrow> J < MAX_GAP_BUCKETS"
    and now: "T - TRADES_PAUSE_TIMEOUT_MS \<le> now" "now \<le> T"
  shows "tracks n0 (max m k) (insert k L) (insert k R) ((if m + 1 < k then 1 else 0) + J) T (arrive n0 s (Live k bt now))"
proof -
  consider "m + 1 < k" | "k = m + 1" | "k \<le> m" by linarith
  then show ?thesis
  proof cases
    case 1
    then show ?thesis using header_ahead [OF tr 1 k(1) _ now, of bt] J by (simp add: max_def)
  next
    case 2
    then show ?thesis using header_next [OF tr 2 k(1) now, of bt] by (simp add: max_def)
  next
    case 3
    then show ?thesis using header_behind [OF tr 3 k(2) now, of bt] by (simp add: max_def)
  qed
qed

lemma run_tracks:
  "\<lbrakk>tracks n0 m L R J (t0 + TRADES_PAUSE_TIMEOUT_MS) s; \<forall>a \<in> set as. arrival_ok t0 a; distinct (live_nums as);
    set (live_nums as) \<inter> L = {}; J + jumps m as \<le> MAX_GAP_BUCKETS; observe (m, R) as = (m', R')\<rbrakk> \<Longrightarrow>
    \<exists>L' J'. tracks n0 m' L' R' J' (t0 + TRADES_PAUSE_TIMEOUT_MS) (foldl (arrive n0) s as)"
proof (induction as arbitrary: m L R J s)
  case Nil
  then show ?case by auto
next
  case (Cons a as)
  show ?case
  proof (cases a)
    case (Live k bt now)
    have "tracks n0 (max m k) (insert k L) (insert k R) ((if m + 1 < k then 1 else 0) + J) (t0 + TRADES_PAUSE_TIMEOUT_MS) (arrive n0 s a)"
      unfolding Live by (rule live_step [OF Cons.prems(1)]) (use Cons.prems(2-5) Live in \<open>auto simp: MAX_RECVD_SIZE_def split: if_splits\<close>)
    from Cons.IH [OF this] Cons.prems Live show ?thesis by (simp add: ac_simps)
  next
    case (Resent k bt)
    have "tracks n0 m L (if k \<le> m then insert k R else R) J (t0 + TRADES_PAUSE_TIMEOUT_MS) (arrive n0 s a)"
      unfolding Resent arrive.simps by (rule resend_step [OF Cons.prems(1)]) (use Cons.prems(2) Resent in \<open>simp add: MAX_RECVD_SIZE_def\<close>)
    from Cons.IH [OF this] Cons.prems Resent show ?thesis by simp
  qed
qed

lemma start_tracks: "tracks n0 0 {0} {0} 0 (t0 + TRADES_PAUSE_TIMEOUT_MS) (arrive n0 trades_new (Live 0 bt t0))"
proof -
  have "buckets_track n0 0 {0} {0} T (replicate MAX_GAP_BUCKETS gap_bucket_default)" for T
    by (simp add: buckets_track_def bucket_tracks_def inside_def gap_bucket_default_def)
  moreover have "map (\<lambda>b. b\<lparr>gb_active := False\<rparr>) (replicate MAX_GAP_BUCKETS gap_bucket_default) = replicate MAX_GAP_BUCKETS gap_bucket_default"
    by (simp add: gap_bucket_default_def)
  ultimately show ?thesis
    by (simp add: on_packet_header_def remember_packet_def trades_new_def reset_gap_buckets_def tracks_def Let_def
        TRADES_PAUSE_TIMEOUT_MS_def) (simp add: gap_bucket_default_def)
qed

section \<open>What is requested\<close>

definition missing_of :: "gap_bucket \<Rightarrow> u16 list" where
  "missing_of b = (if gb_active b then map (\<lambda>j. gb_start_num b + of_nat j) (filter (\<lambda>j. \<not> gb_recvd b ! j) [0..<gap_size b]) else [])"

definition missing_list :: "trades_state \<Rightarrow> u16 list" where
  "missing_list s = concat (map missing_of (ts_buckets s))"

lemma missing_of_tracks:
  assumes t: "bucket_tracks n0 m R T b" and m: "m \<le> 3000"
  shows "set (missing_of b) = num n0 ` {k. inside n0 b k \<and> k \<notin> R}"
proof (cases "gb_active b")
  case a: True
  have l: "lo n0 b \<le> hi n0 b" "gap_size b = hi n0 b - lo n0 b + 1" using t a m by (auto simp: bucket_tracks_def gap_size_lo_hi)
  have bit: "gb_recvd b ! j \<longleftrightarrow> lo n0 b + j \<in> R" "inside n0 b (lo n0 b + j)" if "j < gap_size b" for j
  proof -
    show i: "inside n0 b (lo n0 b + j)" using that l a by (simp add: inside_def)
    show "gb_recvd b ! j \<longleftrightarrow> lo n0 b + j \<in> R" using t a i by (auto simp: bucket_tracks_def)
  qed
  have "set (missing_of b) = (\<lambda>j. num n0 (lo n0 b + j)) ` {j. j < gap_size b \<and> \<not> gb_recvd b ! j}"
    using a bucket_nums(1) [of b n0] by (auto simp: missing_of_def num_def ac_simps)
  also have "\<dots> = num n0 ` ((\<lambda>j. lo n0 b + j) ` {j. j < gap_size b \<and> \<not> gb_recvd b ! j})" by (simp add: image_image)
  also have "(\<lambda>j. lo n0 b + j) ` {j. j < gap_size b \<and> \<not> gb_recvd b ! j} = {k. inside n0 b k \<and> k \<notin> R}"
  proof (intro equalityI subsetI)
    fix k assume "k \<in> {k. inside n0 b k \<and> k \<notin> R}"
    then have k: "inside n0 b k" "k \<notin> R" by auto
    then have "k = lo n0 b + (k - lo n0 b)" "k - lo n0 b < gap_size b" using l by (auto simp: inside_def)
    with k(2) bit(1) show "k \<in> (\<lambda>j. lo n0 b + j) ` {j. j < gap_size b \<and> \<not> gb_recvd b ! j}" by (metis (mono_tags, lifting) image_eqI mem_Collect_eq)
  qed (use bit in auto)
  finally show ?thesis .
qed (simp add: missing_of_def inside_def)

lemma missing_tracks:
  assumes tr: "tracks n0 m L R J T s"
  shows "set (missing_list s) = num n0 ` ({1..m} - R)"
proof -
  note d = tracksD [OF tr] and bt = buckets_trackD [OF tracksD(6) [OF tr]]
  have nths: "set (ts_buckets s) = (\<lambda>i. ts_buckets s ! i) ` {..<length (ts_buckets s)}" by (auto simp: set_conv_nth)
  have "set (missing_list s) = (\<Union>i < length (ts_buckets s). set (missing_of (ts_buckets s ! i)))"
    unfolding missing_list_def set_concat set_map nths by simp
  also have "\<dots> = (\<Union>i < length (ts_buckets s). num n0 ` {k. inside n0 (ts_buckets s ! i) k \<and> k \<notin> R})"
    using missing_of_tracks [OF bt(1) d(2)] by simp
  also have "\<dots> = num n0 ` {k. (\<exists>i < length (ts_buckets s). inside n0 (ts_buckets s ! i) k) \<and> k \<notin> R}" by auto
  also have "{k. (\<exists>i < length (ts_buckets s). inside n0 (ts_buckets s ! i) k) \<and> k \<notin> R} = {1..m} - R"
    using bt(3) d(9) inside_less [OF bt(1)] by (fastforce simp: less_imp_le)
  finally show ?thesis .
qed

text \<open>The delay before a bucket is requested never exceeds 1.8 seconds.\<close>

lemma tick_delay_le: "path_delay_ms rtt dr b \<le> 1800"
proof -
  have mix: "32 + (d - 32) * f \<le> 1800" if "300 \<le> d" "d \<le> 1800" "0 \<le> f" "f \<le> 1" for d f :: rat
  proof -
    have "(d - 32) * f \<le> (d - 32) * 1" by (rule mult_left_mono) (use that in simp_all)
    then have "32 + (d - 32) * f \<le> 32 + (d - 32)" by (metis add_left_mono mult.right_neutral)
    also have "\<dots> \<le> 1800" using that(2) by simp
    finally show ?thesis .
  qed
  define d where "d = min (max (of_int (max rtt 250) * (12 / 10 + of_nat (unat (gb_retry_count b)) * (7 / 10))) 300) (1800 :: rat)"
  define f where "f = clamp01 ((97 / 100 - dr) / (12 / 100))"
  have d: "300 \<le> d" "d \<le> 1800" and f: "0 \<le> f" "f \<le> 1" by (simp_all add: d_def f_def clamp01_def)
  have "path_delay_ms rtt dr b = (if gb_retry_count b = 0 \<and> \<not> gb_refund_used b then 32 + (d - 32) * f else d)"
    by (simp add: path_delay_ms_def Let_def d_def f_def)
  then show ?thesis using mix [OF d f] d(2) by simp
qed

definition due_bucket :: "millis \<Rightarrow> gap_bucket \<Rightarrow> bool" where
  "due_bucket now b \<longleftrightarrow> (gb_active b \<longrightarrow> gap_size b \<le> length (gb_recvd b) \<and> gb_retry_count b < MAX_RETRY_COUNT
     \<and> 1800 < \<bar>now - gb_last_retry_ms b\<bar>)"

lemma all_received_none_missing:
  assumes "gap_size b \<le> length (gb_recvd b)"
  shows "list_all (\<lambda>r. r) (take (gap_size b) (gb_recvd b)) \<longleftrightarrow> filter (\<lambda>j. \<not> gb_recvd b ! j) [0..<gap_size b] = []"
  using assms by (auto simp: list_all_length filter_empty_conv)

lemma tick_bucket_due:
  assumes "due_bucket now b"
  shows "\<exists>b' used' evs. tick_bucket rtt dr now used b = Some (b', used', missing_of b, evs)"
proof (cases "gb_active b")
  case True
  then have b: "gap_size b \<le> length (gb_recvd b)" "\<not> MAX_RETRY_COUNT \<le> gb_retry_count b" "1800 < \<bar>now - gb_last_retry_ms b\<bar>"
    using assms by (auto simp: due_bucket_def)
  have "(1800 :: rat) < of_int \<bar>now - gb_last_retry_ms b\<bar>" using b(3) by linarith
  then have "path_delay_ms rtt dr b < of_int \<bar>now - gb_last_retry_ms b\<bar>" using tick_delay_le [of rtt dr b] by simp
  then show ?thesis using True b by (simp add: tick_bucket_def missing_numbers_def missing_of_def all_received_none_missing Let_def)
qed (simp add: tick_bucket_def missing_of_def)

lemma tick_buckets_due:
  "\<forall>b \<in> set bs. due_bucket now b \<Longrightarrow>
    \<exists>bs' used' evs. tick_buckets rtt dr now used bs = Some (bs', used', concat (map missing_of bs), evs)"
proof (induction bs arbitrary: used)
  case (Cons b bs)
  obtain b' used' evs where "tick_bucket rtt dr now used b = Some (b', used', missing_of b, evs)"
    using tick_bucket_due [of now b rtt dr used] Cons.prems by auto
  moreover obtain bs' used'' evs' where "tick_buckets rtt dr now used' bs = Some (bs', used'', concat (map missing_of bs), evs')"
    using Cons.IH [of used'] Cons.prems by auto
  ultimately show ?case by simp
qed simp

lemma tick_requests:
  assumes tr: "tracks n0 m L R J T s" and now: "T + 1800 < now" "100 < now"
  shows "\<exists>s' out evs chunks. tick_impl s rtt dr now rnd = Some (s', out, evs)
    \<and> map resend_numbers out = map Some chunks \<and> set (concat chunks) = num n0 ` ({1..m} - R)"
proof -
  note d = tracksD [OF tr] and bt = buckets_trackD [OF tracksD(6) [OF tr]]
  have "due_bucket now b" if mem: "b \<in> set (ts_buckets s)" for b
  proof -
    obtain i where i: "i < length (ts_buckets s)" "b = ts_buckets s ! i" using mem by (auto simp: in_set_conv_nth)
    show ?thesis using bt(1) [OF i(1)] now d(2) i(2)
      by (auto simp: due_bucket_def bucket_tracks_def gap_size_lo_hi MAX_RETRY_COUNT_def)
  qed
  then obtain bs used evs where t: "tick_buckets rtt dr now (ts_used_buckets s) (ts_buckets s) = Some (bs, used, missing_list s, evs)"
    using tick_buckets_due [of "ts_buckets s" now rtt dr "ts_used_buckets s"] by (auto simp: missing_list_def)
  have zero: "missing_list s = []" if "ts_used_buckets s = 0"
    using that unfolding d(4) by (auto simp: missing_list_def missing_of_def filter_empty_conv)
  have "ts_last_check_missing_ms s = 0" using tr by (simp add: tracks_def)
  moreover have "trades_resend_batches rnd [] = []" by (simp add: trades_resend_batches_def resend_loop.simps)
  ultimately have "\<exists>s' evs'. tick_impl s rtt dr now rnd = Some (s', trades_resend_batches rnd (missing_list s), evs')"
    using now t zero by (cases "ts_used_buckets s = 0"; cases "missing_list s = []") (simp_all add: tick_impl_def Let_def)
  then obtain s' evs' where "tick_impl s rtt dr now rnd = Some (s', trades_resend_batches rnd (missing_list s), evs')" by blast
  moreover obtain chunks where "map resend_numbers (trades_resend_batches rnd (missing_list s)) = map Some chunks" "concat chunks = missing_list s"
    using resend_loop_numbers [of rnd 0 "missing_list s"] by (auto simp: trades_resend_batches_def)
  ultimately show ?thesis using missing_tracks [OF tr] by metis
qed

text \<open>C37: Recovery requests exactly what is missing.  After the first packet of a stream, let live packets with numbers up to 3000
  ahead arrive within 30 seconds, each at most once but in any order and across the wrap of the 16-bit number, mixed with resent
  packets, with at most 50 forward jumps.  The open buckets then name exactly the numbers up to the newest one that have not
  been received, and the next tick more than 1.8 seconds after the last arrival may have come, whatever the round trip time and delivery ratio,
  completes and sends requests that a reader decodes to exactly these numbers.\<close>

theorem trades_missing_exact:
  assumes "\<forall>a \<in> set as. arrival_ok t0 a" and "distinct (0 # live_nums as)" and "jumps 0 as \<le> MAX_GAP_BUCKETS"
    and "t0 + TRADES_PAUSE_TIMEOUT_MS + 1800 < now" and "100 < now"
  shows "let s = foldl (arrive n0) trades_new (Live 0 bt t0 # as)
    in set (missing_list s) = num n0 ` missing_nums as
       \<and> (\<exists>s' out evs chunks. tick_impl s rtt dr now rnd = Some (s', out, evs)
           \<and> map resend_numbers out = map Some chunks \<and> set (concat chunks) = num n0 ` missing_nums as)"
proof -
  obtain m R where o: "observe (0, {0}) as = (m, R)" by fastforce
  have "\<exists>L J. tracks n0 m L R J (t0 + TRADES_PAUSE_TIMEOUT_MS) (foldl (arrive n0) (arrive n0 trades_new (Live 0 bt t0)) as)"
    by (rule run_tracks [OF start_tracks assms(1) _ _ _ o]) (use assms(2,3) in auto)
  then obtain L J where tr: "tracks n0 m L R J (t0 + TRADES_PAUSE_TIMEOUT_MS) (foldl (arrive n0) trades_new (Live 0 bt t0 # as))" by auto
  show ?thesis
    using missing_tracks [OF tr] tick_requests [OF tr assms(4,5), of rtt dr rnd] by (simp add: missing_nums_def o Let_def)
qed

text \<open>Numbers 1, 3 and 4 are skipped, across the wrap of the wire number; 1 arrives late and 4 is resent, so 3 is missing.\<close>

theorem trades_missing_exact_witness:
  "distinct (0 # live_nums [Live 2 7 1010, Live 5 7 1020, Live 1 7 1030, Resent 4 7])
   \<and> set (missing_list (foldl (arrive 65534) trades_new [Live 0 7 1000, Live 2 7 1010, Live 5 7 1020, Live 1 7 1030, Resent 4 7])) = {1}"
proof -
  let ?as = "[Live 2 7 1010, Live 5 7 1020, Live 1 7 1030, Resent 4 7]"
  have ok: "\<forall>a \<in> set ?as. arrival_ok 1000 a" by (simp add: MAX_RECVD_SIZE_def TRADES_PAUSE_TIMEOUT_MS_def)
  have d: "distinct (0 # live_nums ?as)" by simp
  have j: "jumps 0 ?as \<le> MAX_GAP_BUCKETS" by (simp add: MAX_GAP_BUCKETS_def)
  have "missing_nums ?as = {3}" by (simp add: missing_nums_def) auto
  then have "num 65534 ` missing_nums ?as = {1}" by (simp add: num_def)
  with trades_missing_exact [OF ok d j, of 60000 65534 7 0 0 "\<lambda>_. 0"] d show ?thesis
    by (simp add: TRADES_PAUSE_TIMEOUT_MS_def Let_def)
qed

section \<open>Giving up\<close>

text \<open>A bucket that is incomplete stays so over ticks, since only packets change its bitmap.\<close>

definition incomplete :: "gap_bucket \<Rightarrow> bool" where
  "incomplete b \<longleftrightarrow> gb_active b \<and> gap_size b \<le> length (gb_recvd b) \<and> missing_of b \<noteq> []"

lemma tick_bucket_retry:
  assumes "incomplete b" "gb_retry_count b < MAX_RETRY_COUNT" "1800 < \<bar>now - gb_last_retry_ms b\<bar>"
  shows "tick_bucket rtt dr now used b =
    Some (b\<lparr>gb_retry_count := gb_retry_count b + 1, gb_last_retry_ms := now\<rparr>, used, missing_of b, [])"
proof -
  have "(1800 :: rat) < of_int \<bar>now - gb_last_retry_ms b\<bar>" using assms(3) by linarith
  then have "path_delay_ms rtt dr b < of_int \<bar>now - gb_last_retry_ms b\<bar>" using tick_delay_le [of rtt dr b] by simp
  moreover have "gb_retry_count b \<noteq> 255" using assms(2) by (auto simp: MAX_RETRY_COUNT_def)
  ultimately show ?thesis
    using assms by (auto simp: tick_bucket_def incomplete_def missing_numbers_def missing_of_def all_received_none_missing sat_inc_u8_def Let_def)
qed

lemma tick_bucket_close:
  assumes "incomplete b" "MAX_RETRY_COUNT \<le> gb_retry_count b" "1800 < \<bar>now - gb_last_retry_ms b\<bar>"
  shows "tick_bucket rtt dr now used b =
    Some (b\<lparr>gb_active := False\<rparr>, used - 1, [], [Te_BucketClosed (gb_start_num b) (gb_end_num b) False (gb_retry_count b)])"
proof -
  have "(1800 :: rat) < of_int \<bar>now - gb_last_retry_ms b\<bar>" using assms(3) by linarith
  then have "path_delay_ms rtt dr b < of_int \<bar>now - gb_last_retry_ms b\<bar>" using tick_delay_le [of rtt dr b] by simp
  then show ?thesis
    using assms by (auto simp: tick_bucket_def incomplete_def missing_of_def all_received_none_missing Let_def)
qed

text \<open>The ticks of one bucket, with the numbers each of them requests.\<close>

fun bucket_ticks :: "(millis \<times> rat \<times> millis) list \<Rightarrow> nat \<Rightarrow> gap_bucket \<Rightarrow> (gap_bucket \<times> u16 list list) option" where
  "bucket_ticks [] used b = Some (b, [])"
| "bucket_ticks ((rtt, dr, now) # ts) used b =
     (case tick_bucket rtt dr now used b of
        None \<Rightarrow> None
      | Some (b, used, nums, evs) \<Rightarrow> map_option (\<lambda>(b, reqs). (b, nums # reqs)) (bucket_ticks ts used b))"

text \<open>C38: A gap that is not filled is given up.  When no packet of the gap arrives, ticks that are more than 1.8 seconds apart
  request all its missing numbers exactly three times, whatever the round trip times and delivery ratios are, and the fourth closes the bucket.\<close>

theorem trades_gap_given_up:
  assumes "incomplete b" and "gb_retry_count b = 0" and "gb_last_retry_ms b + 1800 < t1" and "t1 + 1800 < t2" and "t2 + 1800 < t3" and "t3 + 1800 < t4"
  shows "\<exists>b'. bucket_ticks [(r1, d1, t1), (r2, d2, t2), (r3, d3, t3), (r4, d4, t4)] used b =
      Some (b', [missing_of b, missing_of b, missing_of b, []]) \<and> \<not> gb_active b'"
proof -
  define b1 where "b1 = (\<lambda>n t. b\<lparr>gb_retry_count := n, gb_last_retry_ms := t\<rparr>)"
  have gs: "gap_size (b1 n t) = gap_size b" for n t by (simp add: b1_def gap_size_def)
  have mo: "missing_of (b1 n t) = missing_of b" for n t unfolding missing_of_def gs by (simp add: b1_def)
  have "incomplete (b1 n t)" for n t using assms(1) unfolding incomplete_def gs mo by (simp add: b1_def)
  note inc = this mo
  have f: "gb_retry_count (b1 n t) = n" "gb_last_retry_ms (b1 n t) = t" "(b1 n t)\<lparr>gb_retry_count := n', gb_last_retry_ms := t'\<rparr> = b1 n' t'" for n t n' t'
    by (simp_all add: b1_def)
  have "tick_bucket r1 d1 t1 used b = Some (b1 1 t1, used, missing_of b, [])"
    using tick_bucket_retry [OF assms(1), of t1 r1 d1 used] assms(2,3) by (simp add: b1_def MAX_RETRY_COUNT_def)
  moreover have "tick_bucket r2 d2 t2 used (b1 1 t1) = Some (b1 2 t2, used, missing_of b, [])"
    using tick_bucket_retry [OF inc(1), of 1 t1 t2 r2 d2 used] assms(4) by (simp add: f inc MAX_RETRY_COUNT_def)
  moreover have "tick_bucket r3 d3 t3 used (b1 2 t2) = Some (b1 3 t3, used, missing_of b, [])"
    using tick_bucket_retry [OF inc(1), of 2 t2 t3 r3 d3 used] assms(5) by (simp add: f inc MAX_RETRY_COUNT_def)
  moreover obtain evs where "tick_bucket r4 d4 t4 used (b1 3 t3) = Some ((b1 3 t3)\<lparr>gb_active := False\<rparr>, used - 1, [], evs)"
    using tick_bucket_close [OF inc(1), of 3 t3 t4 r4 d4 used] assms(6) by (simp add: f MAX_RETRY_COUNT_def)
  ultimately show ?thesis by simp
qed

definition demo_bucket :: gap_bucket where
  "demo_bucket = \<lparr>gb_active = True, gb_start_num = 65535, gb_end_num = 0, gb_created_ms = 1000, gb_last_retry_ms = 1000,
     gb_retry_count = 0, gb_refund_used = False, gb_recvd = [True, False]\<rparr>"

theorem trades_gap_given_up_witness:
  "incomplete demo_bucket \<and> (\<exists>b'. bucket_ticks [(50, 1, 3000), (50, 1, 5000), (50, 1, 7000), (50, 1, 9000)] 1 demo_bucket =
      Some (b', [[0], [0], [0], []]) \<and> \<not> gb_active b')"
proof -
  have m: "missing_of demo_bucket = [0]" by (simp add: missing_of_def demo_bucket_def gap_size_def range_size_def upt_rec)
  have i: "incomplete demo_bucket" unfolding incomplete_def m by (simp add: demo_bucket_def gap_size_def range_size_def)
  with trades_gap_given_up [OF i, of 3000 5000 7000 9000 50 1 50 1 50 1 50 1 1] show ?thesis
    unfolding m by (simp add: demo_bucket_def)
qed

section \<open>Stale bitmaps\<close>

text \<open>The bitmap of a reused slot is cleared only when it is long enough.  The calls that one slot sees: number 1 is lost and
  arrives late, the next tick closes the bucket, and then the numbers 3 to 152 are lost.  Growing the bitmap keeps the old mark,
  so number 3 counts as received although it never arrived, and is not among the missing numbers.\<close>

lemma stale_mark_hides_gap:
  "\<exists>b evs. tick_bucket 50 1 1200 1 (mark_received 1 (open_bucket 1 1 1010 1 (gap_bucket_default\<lparr>gb_active := True\<rparr>))) = Some (b, 0, [], evs)
    \<and> \<not> gb_active b \<and> 3 \<notin> set (missing_of (open_bucket 3 152 1300 150 (b\<lparr>gb_active := True\<rparr>)))
    \<and> 4 \<in> set (missing_of (open_bucket 3 152 1300 150 (b\<lparr>gb_active := True\<rparr>)))"
proof -
  define b0 where "b0 = mark_received 1 (open_bucket 1 1 1010 1 (gap_bucket_default\<lparr>gb_active := True\<rparr>))"
  define b where "b = b0\<lparr>gb_active := False\<rparr>"
  define b' where "b' = open_bucket 3 152 1300 150 (b\<lparr>gb_active := True\<rparr>)"
  have r: "gb_recvd b0 = True # replicate 99 False"
    by (simp add: b0_def mark_received_def open_bucket_def gap_bucket_default_def DEFAULT_RECVD_SIZE_def fill_prefix_def Let_def)
  have g: "gap_size b0 = 1" "gb_active b0" by (simp_all add: b0_def mark_received_def open_bucket_def gap_size_def range_size_def Let_def)
  have t: "tick_bucket 50 1 1200 1 b0 = Some (b, 0, [], [Te_BucketClosed (gb_start_num b0) (gb_end_num b0) True (gb_retry_count b0)])"
    using r g by (simp add: tick_bucket_def b_def Let_def)
  have n: "gb_recvd b' = True # replicate 149 False" using r by (simp add: b'_def b_def open_bucket_def resize_def flip: replicate_add)
  have g': "gap_size b' = 150" "gb_active b'" "gb_start_num b' = 3" by (simp_all add: b'_def open_bucket_def gap_size_def range_size_def)
  have m: "set (missing_of b') = (\<lambda>j. 3 + of_nat j) ` {1..<150}"
  proof -
    have "(True # replicate 149 False) ! j \<longleftrightarrow> j = 0" if "j < 150" for j using that by (cases j) simp_all
    then have e: "set (filter (\<lambda>j. \<not> (True # replicate 149 False) ! j) [0..<150]) = {1..<150}"
      unfolding set_filter set_upt by (auto simp: Suc_le_eq)
    have "missing_of b' = map (\<lambda>j. 3 + of_nat j) (filter (\<lambda>j. \<not> (True # replicate 149 False) ! j) [0..<150])"
      unfolding missing_of_def g'(1,3) n if_P [OF g'(2)] ..
    then show ?thesis unfolding e [symmetric] by (simp only: set_map)
  qed
  have "(3 :: u16) \<noteq> 3 + of_nat j" if "j \<in> {1..<150}" for j
  proof
    assume "3 = 3 + (of_nat j :: u16)"
    then have "(of_nat j :: u16) = 0" by simp
    then have "unat (of_nat j :: u16) = 0" by simp
    then show False using that by (simp add: unat_of_nat)
  qed
  then have "3 \<notin> set (missing_of b')" unfolding m by blast
  moreover have "4 \<in> set (missing_of b')" unfolding m by (rule image_eqI [of _ _ 1]) simp_all
  moreover have "\<not> gb_active b" by (simp add: b_def)
  ultimately show ?thesis using t unfolding b'_def b0_def by blast
qed

section \<open>Resend responses\<close>

text \<open>The documented format of a resend response, as the peer writes it, is read back packet by packet.\<close>

definition resend_frame :: "bytes \<Rightarrow> bytes" where
  "resend_frame p = le_bytes 2 (of_nat (length p) :: u16) @ p"

lemma resend_packets_frames:
  "\<forall>p \<in> set ps. length p < 2 ^ 16 \<Longrightarrow> resend_packets (pre @ concat (map resend_frame ps)) (length pre) (length ps) = ps"
proof (induction ps arbitrary: pre)
  case (Cons p ps)
  let ?h = "le_bytes 2 (of_nat (length p) :: u16)" and ?rest = "concat (map resend_frame ps)"
  have l: "unat (of_nat (length p) :: u16) = length p" using Cons.prems by (simp add: unat_of_nat)
  define D where "D = pre @ ?h @ p @ ?rest"
  have h: "slice (length pre) (length pre + 2) D = ?h"
    unfolding D_def by (rule slice_mid) simp_all
  have b: "slice (length pre + 2) (length pre + 2 + length p) D = p"
    using slice_mid [of "pre @ ?h" "length pre + 2" p "length pre + 2 + length p" ?rest] by (simp add: D_def)
  have r: "resend_packets D (length pre + 2 + length p) (length ps) = ps"
    using Cons.IH [of "pre @ ?h @ p"] Cons.prems by (simp add: D_def add.assoc)
  have "pre @ concat (map resend_frame (p # ps)) = D" "length D = length pre + 2 + length p + length ?rest"
    by (simp_all add: resend_frame_def D_def)
  then show ?case
    unfolding list.size by (simp add: h l b r del: One_nat_def add_2_eq_Suc add_2_eq_Suc')
qed simp

lemma resend_response_roundtrip:
  assumes "length ps < 256" "\<forall>p \<in> set ps. length p < 2 ^ 16"
  shows "iter_trades_resend_response (of_nat (length ps) # concat (map resend_frame ps)) = ps"
proof -
  have "unat (of_nat (length ps) :: byte) = length ps" using assms(1) by (simp add: unat_of_nat)
  then show ?thesis
    using resend_packets_frames [OF assms(2), of "[of_nat (length ps)]"] by (simp add: iter_trades_resend_response_def)
qed

end
