(* ===== verification/Spec2Isabelle.thy ===== *)
theory Spec2Isabelle
  imports Handshake Compression_Correct Book_Sync Trades_Gaps
begin

text \<open>
  A verification development of the MoonProto client, a Rust library that talks to a trading server over
  an encrypted datagram protocol of its own.  File names below are relative to \<^verbatim>\<open>src/src/\<close>.


  \<^bold>\<open>The program and its parts.\<close>  A datagram arrives on the socket, is unwrapped from the transport mode (STUN or
  DNS disguise), de-whitened and checked against its MAC and version (\<^verbatim>\<open>transport/\<close>).  The receive loop
  (\<^verbatim>\<open>client/protocol_recv.rs\<close> and its helpers) routes it: handshake packets drive the connection state machine
  (\<^verbatim>\<open>client/protocol_connect.rs\<close>, \<^verbatim>\<open>client/protocol_recv_handlers.rs\<close>), pieces of sliced datagrams are collected
  (\<^verbatim>\<open>protocol/slicing.rs\<close>), containers are split, encrypted commands are opened, checked against the replay
  window (\<^verbatim>\<open>protocol/crypted.rs\<close>, \<^verbatim>\<open>protocol/slider.rs\<close>) and decompressed (\<^verbatim>\<open>compression.rs\<close>), and the result is
  delivered through the gates of \<^verbatim>\<open>client/protocol_delivery.rs\<close>; responses of the Engine API are first offered to
  waiting callers (\<^verbatim>\<open>api_pending.rs\<close>, \<^verbatim>\<open>client/protocol_api.rs\<close>).  In the other direction commands enter
  prioritised queues (\<^verbatim>\<open>client/send_queue.rs\<close>); a writer tick (\<^verbatim>\<open>client/protocol_send.rs\<close>) slices long ones, sends and
  repeats reliable ones, and batches short ones into containers (\<^verbatim>\<open>client/protocol_sliced_send.rs\<close>,
  \<^verbatim>\<open>client/protocol_direct_send.rs\<close>).  On top of delivery, order books are kept in step from numbered diffs
  (\<^verbatim>\<open>state/order_books.rs\<close>) and gaps of the trades stream are tracked and requested again (\<^verbatim>\<open>state/trades.rs\<close>).


  \<^bold>\<open>Theories, sources and results.\<close>  State is a record per component and every operation returns the
  changed state; early returns and failures are branches, \<^verbatim>\<open>Option\<close> is \<^verbatim>\<open>option\<close>.

  \<^item> \<open>Moon_Prelude\<close>: machine types, little-endian encodings, vector idioms, and the locale \<open>wire_record\<close> of a
    fixed-size record with writer and reader, interpreted for every record below.
  \<^item> \<open>Wire\<close> (\<^verbatim>\<open>protocol/mod.rs\<close>, \<^verbatim>\<open>transport/header.rs\<close>, \<^verbatim>\<open>protocol/control.rs\<close>, \<^verbatim>\<open>protocol/handshake.rs\<close>,
    \<^verbatim>\<open>protocol/payload.rs\<close>): commands, headers, Ping and probe records, Hello, payload buffers.  Records are read
    back; the bytes of a Ping response are given against those of the Ping it answers.
  \<^item> \<open>Registry\<close>, \<open>Strings\<close> (\<^verbatim>\<open>commands/registry.rs\<close>): the descriptor table and its lookup; wire strings, whose
    decoder is characterised against UTF-8 as defined from code points.
  \<^item> \<open>Slider\<close> (\<^verbatim>\<open>protocol/slider.rs\<close>): the replay window, a refinement of a floor-and-set filter, with the locale
    \<open>replay_filter\<close>; no number is accepted twice.
  \<^item> \<open>Crypto\<close>, \<open>Crypted\<close> (\<^verbatim>\<open>crypto/\<close>, \<^verbatim>\<open>protocol/crypted.rs\<close>): envelope, padding, nonces, key schedules, the header of
    sealed commands; round trips and exact delivery of sealed commands.
  \<^item> \<open>Compression\<close>, \<open>Compression_Correct\<close> (\<^verbatim>\<open>compression.rs\<close>): SynLZ encoder, decoder and run-length pass; the decoder
    inverts the encoder.
  \<^item> \<open>Transport\<close> (\<^verbatim>\<open>transport/\<close>): SipHash MAC, whitening, STUN and DNS modes, packing and unpacking; the exact
    acceptance condition of received datagrams and the exact content of sent ones.
  \<^item> \<open>Fragments\<close>, \<open>Slicing\<close>, \<open>Chunked\<close> (\<^verbatim>\<open>protocol/slicing.rs\<close>, \<^verbatim>\<open>commands/chunked_response.rs\<close>): the locale
    \<open>fragment_collector\<close> of a store of numbered pieces and its two providers; reassembly from any order and
    multiplicity, delivery exactly once, acknowledgement flags, the chunk reader.
  \<^item> \<open>Send_Queue\<close>, \<open>Writer_State\<close>, \<open>Sliced_Send\<close>, \<open>Grouped\<close>, \<open>Direct_Send\<close> (\<^verbatim>\<open>client/send_queue.rs\<close>,
    \<^verbatim>\<open>client/transport_state.rs\<close>, \<^verbatim>\<open>client/protocol_*send.rs\<close>): queues with replacement by key, slicing and paced
    retransmission, containers, reliable retries, the writer tick.  Conservation of commands by batching and by the
    tick, retry counts, budgets, the invariant of the sending list, giving up on a silent peer.
  \<^item> \<open>Decode\<close>, \<open>Engine_Api\<close> (\<^verbatim>\<open>client/protocol_helpers.rs\<close>, \<^verbatim>\<open>commands/engine_api/\<close>, \<^verbatim>\<open>commands/inflate.rs\<close>,
    \<^verbatim>\<open>api_pending.rs\<close>, \<^verbatim>\<open>client/protocol_api.rs\<close>): command decoding in its copying and in-place form, responses, and
    waiting callers; equivalence of the two forms, no response lost, every caller answered at most once.
  \<^item> \<open>Session\<close>, \<open>Dispatch\<close>, \<open>Session_Safety\<close>, \<open>Handshake\<close> (\<^verbatim>\<open>client/protocol_connect.rs\<close>, \<^verbatim>\<open>client/protocol_recv*.rs\<close>,
    \<^verbatim>\<open>client/protocol_delivery.rs\<close>, \<^verbatim>\<open>client/socket_lifecycle.rs\<close>): the whole client as a state machine whose inputs are
    datagrams, ticks and calls of the application (\<open>client_step\<close>).  One invariant over the session view of a client
    gives, for every sequence of inputs: no sealed command delivered twice, no sensitive command delivered from
    plaintext, no delivery outside the gates, authorization only by an authentic Fine; and the handshake with a
    peer that holds the key completes.
  \<^item> \<open>Floats\<close>, \<open>Order_Books\<close>, \<open>Book_Sync\<close> (\<^verbatim>\<open>commands/order_book.rs\<close>, \<^verbatim>\<open>state/eps.rs\<close>, \<^verbatim>\<open>state/order_books/\<close>): rounded
    comparisons, parsers, diff merge and reordering cache; the merge refines an update of the map from rates to
    quantities, and diffs in any order are applied by their numbers.
  \<^item> \<open>Engine_Request\<close> (\<^verbatim>\<open>commands/engine_request.rs\<close>): every request builder, read back by a reader of the documented
    format.
  \<^item> \<open>Trades\<close>, \<open>Trades_Correct\<close>, \<open>Trades_Gaps\<close> (\<^verbatim>\<open>state/trades.rs\<close> and its modules): gap buckets and recovery; no
    access past a bitmap, the open buckets name exactly the missing packets, and a gap that is never answered is
    given up.


  \<^bold>\<open>Parameters and hypotheses.\<close>  AES-GCM and SHAKE come from external packages: \<open>crypto_env\<close> holds them, and
  \<open>ciphers_correct\<close> states what is used of a cipher, that opening inverts sealing and that sizes are kept (no
  secrecy or unforgeability is assumed).  The DEFLATE decoder, random values, clock readings and
  the time stamp counter are streams or arguments.  The peer appears in hypotheses only: \<open>handshake_reply\<close> is a packet of
  a peer that holds the key, with an arbitrary seed byte and nonce, and \<open>decode_request\<close> is a reader of the format that
  \<^verbatim>\<open>engine_request.rs\<close> documents.


  \<^bold>\<open>Machine arithmetic, bounds and loops.\<close>  Wire integers keep their width and wrap; \<^verbatim>\<open>usize\<close> is a natural number and
  millisecond times are unbounded integers.  The pacing and delay variables that are \<^verbatim>\<open>f64\<close> in the source are exact
  rationals, with \<^verbatim>\<open>round\<close> but without floating-point rounding; market values are decoded from their bits and
  rounded as in the source.  Every loop is a total function with a termination proof; no definition takes fuel.
  Locks are not modelled: an operation under one lock is one step.  Components that no operation reads exist for the
  statements only: the count of session ciphers, the session recorded with a deferred command, and the origin
  of a delivery.  The nonce counter, a static of the process, stands in the one writer of the model.  A function of the
  source is often translated with named fragments for its loops and branches; the manifest lists the function, and
  fragments inside the same lines have no entry of their own where the list would become too long.


  \<^bold>\<open>What the model shows beyond the theorems.\<close>  Lemmas record where code and comment differ: the unique key that falls
  back silently, the SessionClose that is never sent, a duplicate in the order-book cache that blocks it, the
  sequence number zero that stands for no history, and a reused gap bitmap that keeps old marks.


  \<^bold>\<open>Not modelled.\<close>  The record formats of trading, strategy, market, balance, candle and report commands and the read
  models built from them; retained history (lock-free rings, a memory-model question); the event fan-out, the
  active runtime and its start-up sequence; shared configuration and key import; sockets, clocks, threads,
  metrics and diagnostics.  The subscription registry is an input, and the server clock estimate, which only feeds the
  application, is left out.
\<close>

end
